(* ===== verification/Prelude.thy ===== *)
theory Prelude
  imports Main "HOL-Library.Word" "HOL-Library.Char_ord" "HOL-Library.List_Lexorder"
    "HOL-Library.Sublist"
begin

text \<open>
  Shared vocabulary of the development: bytes and C strings, the ways a run can end badly,
  a state-and-fault computation type with its total-correctness predicate \<open>wp\<close>, and the
  conversions between Go's and C's integer types. The named collections \<open>wp_simps\<close> (the
  calculus) and \<open>run_simps\<close> (the primitives' run equations) carry the proofs of the
  component theories.
\<close>

section \<open>Bytes\<close>

text \<open>
  A Go \<open>byte\<close> and a C \<open>char\<close> are both a HOL character (exactly 256 values); a
  \<open>[]byte\<close>, a Go string and the contents of a C buffer are lists of them.
\<close>

type_synonym byte = char
type_synonym bytes = "char list"

abbreviation NUL :: byte where
  "NUL \<equiv> CHR 0x00"

text \<open>What a C string reader sees of a byte sequence: everything before the first NUL.\<close>

definition cstr :: "bytes \<Rightarrow> bytes" where
  "cstr s = takeWhile (\<lambda>c. c \<noteq> NUL) s"

lemma NUL_notin_cstr [simp]: "NUL \<notin> set (cstr s)"
  unfolding cstr_def using set_takeWhileD by fastforce

lemma cstr_id [simp]: "NUL \<notin> set s \<Longrightarrow> cstr s = s"
  by (auto simp: cstr_def takeWhile_eq_all_conv)

lemma cstr_append_NUL: "NUL \<notin> set s \<Longrightarrow> cstr (s @ NUL # t) = s"
  unfolding cstr_def by (induction s) auto

lemma cstr_cstr_append [simp]: "cstr (cstr s @ NUL # t) = cstr s"
  by (rule cstr_append_NUL) simp

lemma cstr_snoc_NUL [simp]: "cstr (s @ [NUL]) = cstr s"
  by (induction s) (auto simp: cstr_def)

section \<open>Computations with state and faults\<close>

text \<open>
  How a run of the program can end without returning: a nil or null pointer is dereferenced,
  a pointer to a dead or differently typed object is used, an object is released that is not
  live, memory is read past the end of a block, Go panics, the program calls
  \<open>log.Fatalf\<close> (which exits the process), or a loop has not ended within the number of
  rounds the model gave it.
\<close>

datatype fault =
    NilDeref
  | BadPtr
  | BadFree
  | OutOfRange
  | Panic string
  | Fatal string
  | OutOfFuel

type_synonym ('s, 'a) io = "'s \<Rightarrow> fault + ('a \<times> 's)"

definition ret :: "'a \<Rightarrow> ('s, 'a) io" where
  "ret x = (\<lambda>s. Inr (x, s))"

definition fail :: "fault \<Rightarrow> ('s, 'a) io" where
  "fail e = (\<lambda>s. Inl e)"

definition bnd :: "('s, 'a) io \<Rightarrow> ('a \<Rightarrow> ('s, 'b) io) \<Rightarrow> ('s, 'b) io" where
  "bnd m f = (\<lambda>s. case m s of Inl e \<Rightarrow> Inl e | Inr (x, s') \<Rightarrow> f x s')"

abbreviation andthen :: "('s, 'a) io \<Rightarrow> ('s, 'b) io \<Rightarrow> ('s, 'b) io" where
  "andthen m n \<equiv> bnd m (\<lambda>_. n)"

definition io_if :: "bool \<Rightarrow> ('s, unit) io \<Rightarrow> ('s, unit) io" where
  "io_if b m = (if b then m else ret ())"

text \<open>
  \<open>wp m Q s\<close>: started in \<open>s\<close>, the computation returns (no fault) and its value and
  final state satisfy \<open>Q\<close>.
\<close>

definition wp :: "('s, 'a) io \<Rightarrow> ('a \<Rightarrow> 's \<Rightarrow> bool) \<Rightarrow> 's \<Rightarrow> bool" where
  "wp m Q s = (case m s of Inl e \<Rightarrow> False | Inr (x, s') \<Rightarrow> Q x s')"

named_theorems wp_simps \<open>equations of the total-correctness predicate\<close>
named_theorems run_simps \<open>run equations of the primitives\<close>

lemma wp_ret [wp_simps, simp]: "wp (ret x) Q s = Q x s"
  by (simp add: wp_def ret_def)

lemma wp_Inr [wp_simps, simp]: "wp (\<lambda>s. Inr (x, s)) Q s = Q x s"
  by (simp add: wp_def)

lemma wp_fail [wp_simps, simp]: "wp (fail e) Q s = False"
  by (simp add: wp_def fail_def)

lemma wp_bnd [wp_simps, simp]: "wp (bnd m f) Q s = wp m (\<lambda>x. wp (f x) Q) s"
  by (simp add: wp_def bnd_def split: sum.splits prod.splits)

lemma wp_io_if [wp_simps, simp]: "wp (io_if b m) Q s = (if b then wp m Q s else Q () s)"
  by (simp add: io_if_def)

lemma wp_mono: "wp m P s \<Longrightarrow> (\<And>x s'. P x s' \<Longrightarrow> Q x s') \<Longrightarrow> wp m Q s"
  by (auto simp: wp_def split: sum.splits)

lemma wp_conj: "wp m (\<lambda>x s'. P x s' \<and> Q x s') s = (wp m P s \<and> wp m Q s)"
  by (auto simp: wp_def split: sum.splits)

lemma wpI: "m s = Inr (x, s') \<Longrightarrow> Q x s' \<Longrightarrow> wp m Q s"
  by (simp add: wp_def)

lemma wpE: "wp m Q s \<Longrightarrow> (\<And>x s'. m s = Inr (x, s') \<Longrightarrow> Q x s' \<Longrightarrow> P) \<Longrightarrow> P"
  by (auto simp: wp_def split: sum.splits)

lemma wp_seq: "wp m P s \<Longrightarrow> (\<And>x s'. P x s' \<Longrightarrow> wp (f x) Q s') \<Longrightarrow> wp (bnd m f) Q s"
  by (auto elim: wp_mono)

lemma wp_run: "m s = Inr (x, s') \<Longrightarrow> wp m Q s = Q x s'"
  by (simp add: wp_def)

lemma ret_run [run_simps, simp]: "ret x s = Inr (x, s)"
  by (simp add: ret_def)

lemma fail_run [run_simps, simp]: "fail e s = Inl e"
  by (simp add: fail_def)

lemma bnd_Inr [run_simps]: "m s = Inr (x, s') \<Longrightarrow> bnd m f s = f x s'"
  by (simp add: bnd_def)

lemma bnd_Inl [run_simps]: "m s = Inl e \<Longrightarrow> bnd m f s = Inl e"
  by (simp add: bnd_def)

lemma bnd_eq_Inr:
  "bnd m f s = Inr r \<longleftrightarrow> (\<exists>x s'. m s = Inr (x, s') \<and> f x s' = Inr r)"
  by (auto simp: bnd_def split: sum.splits)

lemma bnd_ret_left [simp]: "bnd (ret x) f = f x"
  by (simp add: bnd_def fun_eq_iff)

lemma bnd_ret_right [simp]: "bnd m ret = m"
  by (auto simp: bnd_def fun_eq_iff ret_def split: sum.splits)

lemma bnd_fail [simp]: "bnd (fail e) f = fail e"
  by (simp add: bnd_def fail_def fun_eq_iff)

lemma bnd_assoc: "bnd (bnd m f) g = bnd m (\<lambda>x. bnd (f x) g)"
  by (auto simp: bnd_def fun_eq_iff split: sum.splits)

text \<open>
  \<open>wpx m F Q s\<close>: the computation returns with \<open>Q\<close>, or it ends in a fault that satisfies
  \<open>F\<close>.
\<close>

definition wpx :: "('s, 'a) io \<Rightarrow> (fault \<Rightarrow> bool) \<Rightarrow> ('a \<Rightarrow> 's \<Rightarrow> bool) \<Rightarrow> 's \<Rightarrow> bool" where
  "wpx m F Q s = (case m s of Inl e \<Rightarrow> F e | Inr (x, s') \<Rightarrow> Q x s')"

lemma wpx_ret [wp_simps, simp]: "wpx (ret x) F Q s = Q x s"
  by (simp add: wpx_def)

lemma wpx_fail [wp_simps, simp]: "wpx (fail e) F Q s = F e"
  by (simp add: wpx_def)

lemma wpx_bnd [wp_simps, simp]: "wpx (bnd m f) F Q s = wpx m F (\<lambda>x. wpx (f x) F Q) s"
  by (simp add: wpx_def bnd_def split: sum.splits prod.splits)

lemma wpx_mono: "wpx m F P s \<Longrightarrow> (\<And>x s'. P x s' \<Longrightarrow> Q x s') \<Longrightarrow> wpx m F Q s"
  by (auto simp: wpx_def split: sum.splits)

lemma wpx_weaken:
  "wpx m F P s \<Longrightarrow> (\<And>f. F f \<Longrightarrow> F' f) \<Longrightarrow> (\<And>x s'. P x s' \<Longrightarrow> Q x s') \<Longrightarrow> wpx m F' Q s"
  by (auto simp: wpx_def split: sum.splits)

lemma wp_wpx: "wp m P s \<Longrightarrow> (\<And>x s'. P x s' \<Longrightarrow> Q x s') \<Longrightarrow> wpx m F Q s"
  by (auto simp: wp_def wpx_def split: sum.splits)

lemma wpx_seq: "wpx m F P s \<Longrightarrow> (\<And>x s'. P x s' \<Longrightarrow> wpx (f x) F Q s') \<Longrightarrow> wpx (bnd m f) F Q s"
  by (auto elim: wpx_mono)

text \<open>Running a body over a list from the left, and the invariant rule for it.\<close>

fun io_for :: "'a list \<Rightarrow> ('a \<Rightarrow> ('s, unit) io) \<Rightarrow> ('s, unit) io" where
  "io_for [] body = ret ()"
| "io_for (x # xs) body = andthen (body x) (io_for xs body)"

lemma wp_io_for:
  assumes "I [] s"
    and "\<And>done x rest s'. xs = done @ x # rest \<Longrightarrow> I done s' \<Longrightarrow>
           wp (body x) (\<lambda>_. I (done @ [x])) s'"
  shows "wp (io_for xs body) (\<lambda>_. I xs) s"
proof -
  have "wp (io_for ys body) (\<lambda>_. I xs) s'" if "xs = pre @ ys" "I pre s'" for pre ys s'
    using that
  proof (induction ys arbitrary: pre s')
    case (Cons y ys)
    show ?case
      using assms(2) [OF Cons.prems] Cons.IH [of "pre @ [y]"] Cons.prems(1)
      by (auto elim!: wp_mono)
  qed simp
  from this [of "[]" xs] assms(1) show ?thesis by simp
qed

text \<open>Mapping a body over a list, left to right, collecting the results.\<close>

fun io_map :: "'a list \<Rightarrow> ('a \<Rightarrow> ('s, 'b) io) \<Rightarrow> ('s, 'b list) io" where
  "io_map [] f = ret []"
| "io_map (x # xs) f = bnd (f x) (\<lambda>y. bnd (io_map xs f) (\<lambda>ys. ret (y # ys)))"

lemma wp_io_map:
  assumes "\<And>x s'. x \<in> set xs \<Longrightarrow> I s' \<Longrightarrow> wp (f x) (\<lambda>y s''. I s'' \<and> P x y) s'" and "I s"
  shows "wp (io_map xs f) (\<lambda>ys s'. I s' \<and> list_all2 P xs ys) s"
  using assms
proof (induction xs arbitrary: s)
  case (Cons x xs)
  have *: "wp (io_map xs f) (\<lambda>ys s'. I s' \<and> list_all2 P xs ys) s1" if "I s1" for s1
    using Cons.IH Cons.prems(1) that by (metis list.set_intros(2))
  show ?case
    unfolding io_map.simps
    by (rule wp_seq [OF Cons.prems(1) [OF _ Cons.prems(2)]]) (auto intro!: wp_mono [OF *])
qed simp

lemma io_map_const:
  assumes "\<And>x. x \<in> set xs \<Longrightarrow> f x s = Inr (g x, s)"
  shows "io_map xs f s = Inr (map g xs, s)"
  using assms by (induction xs) (simp_all add: bnd_Inr)

section \<open>Integer conversions\<close>

text \<open>
  A \<open>C.size_t\<close> is a natural number here (a size or length of something in memory). The
  conversions that can lose information are written out at their width: \<open>int(n)\<close> to
  Go's 64-bit \<open>int\<close> and \<open>C.int(n)\<close> to C's 32-bit \<open>int\<close>, both two's complement.
\<close>

definition to_int64 :: "nat \<Rightarrow> int" where
  "to_int64 n = sint (of_nat n :: 64 word)"

definition to_int32 :: "nat \<Rightarrow> int" where
  "to_int32 n = sint (of_nat n :: 32 word)"

text \<open>\<open>C.int(i)\<close> and \<open>C.size_t(i)\<close> of a Go \<open>int\<close>.\<close>

definition to_cint :: "int \<Rightarrow> int" where
  "to_cint i = sint (of_int i :: 32 word)"

definition to_size :: "int \<Rightarrow> nat" where
  "to_size i = nat (i mod 2 ^ 64)"

lemma to_size_nonneg [simp]: "0 \<le> i \<Longrightarrow> i < 2 ^ 63 \<Longrightarrow> to_size i = nat i"
  by (simp add: to_size_def)

lemma to_int64_small [simp]: "n < 2 ^ 63 \<Longrightarrow> to_int64 n = int n"
  by (simp add: to_int64_def signed_of_nat signed_take_bit_int_eq_self)

lemma to_int32_small [simp]: "n < 2 ^ 31 \<Longrightarrow> to_int32 n = int n"
  by (simp add: to_int32_def signed_of_nat signed_take_bit_int_eq_self)

lemma to_int32_neg:
  assumes "2 ^ 31 \<le> n" and "n < 2 ^ 32"
  shows "to_int32 n = int n - 2 ^ 32"
proof -
  have "(int n + 2147483648) mod 4294967296 = int n - 2147483648"
    using assms by (simp add: mod_pos_pos_trivial minus_mod_self2 [symmetric, of "int n + _"]
        del: minus_mod_self2)
  then show ?thesis
    by (simp add: to_int32_def signed_of_nat signed_take_bit_eq_take_bit_shift take_bit_eq_mod)
qed

lemma to_int32_wrap: "to_int32 (n + 2 ^ 32) = to_int32 n"
proof -
  have "(of_nat (n + 2 ^ 32) :: 32 word) = of_nat n"
    by (simp add: word_of_nat_eq_iff take_bit_eq_mod)
  then show ?thesis by (simp only: to_int32_def)
qed

section \<open>Lists\<close>

lemma prefix_take_iff: "prefix xs ys \<longleftrightarrow> take (length xs) ys = xs"
  by (metis append_eq_conv_conj prefix_def append_take_drop_id)

lemma sum_map_update:
  fixes f :: "'a \<Rightarrow> 'b :: comm_monoid_add"
  assumes "i < length xs"
  shows "sum_list (map f (xs[i := y])) + f (xs ! i) = sum_list (map f xs) + f y"
proof -
  have "map f xs = map f (take i xs) @ f (xs ! i) # map f (drop (Suc i) xs)"
    using id_take_nth_drop [OF assms] by (metis list.simps(9) map_append)
  moreover have "map f (xs[i := y]) = map f (take i xs) @ f y # map f (drop (Suc i) xs)"
    using assms by (simp add: upd_conv_take_nth_drop)
  ultimately show ?thesis by (simp add: ac_simps)
qed

lemma fun_upd_upd_None: "h p = None \<Longrightarrow> (h(p \<mapsto> x))(p := None) = h"
  by auto

end
