(* ===== verification/Cgo.thy ===== *)
theory Cgo
  imports Prelude
begin

text \<open>
  The memory that Go and C share through cgo, and the conversions of \<^verbatim>\<open>src/rdb/util.go\<close> and
  \<^verbatim>\<open>src/rdb/slice.go\<close> on it. The C heap is a finite map from addresses to live objects;
  an object is a block of characters (\<open>malloc\<close>, \<open>strdup\<close>, \<open>C.CString\<close>) or a C++
  object made by \<open>new\<close>, whose type is a parameter here. Releasing an object removes it, so
  a use after release, a double release and a leak are all visible in the heap.
  The locale \<open>c_allocator\<close> is the contract the wrappers rely on; it is interpreted for
  \<open>malloc\<close>/\<open>free\<close> and for \<open>new\<close>/\<open>delete\<close>.
\<close>

section \<open>The C heap\<close>

type_synonym ptr = nat

datatype 'o cobj = Chars bytes | Obj 'o

record 'o cmem =
  c_heap :: "ptr \<Rightarrow> 'o cobj option"
  c_brk :: ptr

text \<open>Address 0 is null; every address from the break on is unused.\<close>

definition c_ok :: "('o, 'm) cmem_scheme \<Rightarrow> bool" where
  "c_ok w \<longleftrightarrow> 0 < c_brk w \<and> c_heap w 0 = None \<and> (\<forall>p \<ge> c_brk w. c_heap w p = None)"

definition c_new :: "'o cobj \<Rightarrow> (('o, 'm) cmem_scheme, ptr) io" where
  "c_new x = (\<lambda>w. Inr (c_brk w,
     w\<lparr>c_heap := (c_heap w)(c_brk w \<mapsto> x), c_brk := Suc (c_brk w)\<rparr>))"

text \<open>\<open>delete p\<close>: deleting null does nothing.\<close>

definition c_delete :: "ptr \<Rightarrow> (('o, 'm) cmem_scheme, unit) io" where
  "c_delete p = (\<lambda>w.
     if p = 0 then Inr ((), w)
     else case c_heap w p of
       None \<Rightarrow> Inl BadFree
     | Some x \<Rightarrow> Inr ((), w\<lparr>c_heap := (c_heap w)(p := None)\<rparr>))"

definition c_get :: "ptr \<Rightarrow> (('o, 'm) cmem_scheme, 'o) io" where
  "c_get p = (\<lambda>w.
     if p = 0 then Inl NilDeref
     else case c_heap w p of
       Some (Obj x) \<Rightarrow> Inr (x, w)
     | _ \<Rightarrow> Inl BadPtr)"

definition c_set :: "ptr \<Rightarrow> 'o \<Rightarrow> (('o, 'm) cmem_scheme, unit) io" where
  "c_set p x = (\<lambda>w.
     if p = 0 then Inl NilDeref
     else case c_heap w p of
       Some (Obj y) \<Rightarrow> Inr ((), w\<lparr>c_heap := (c_heap w)(p \<mapsto> Obj x)\<rparr>)
     | _ \<Rightarrow> Inl BadPtr)"

subsection \<open>Character pointers\<close>

text \<open>
  A \<open>char*\<close> is null, the start of a block of the C heap, or a pointer into memory that the
  C heap does not own: the backing array of a Go slice or string, or a buffer inside RocksDB.
  In the last case the value carries the bytes that lie there.
\<close>

datatype cptr = Null | CPtr ptr | Borrowed bytes

definition c_block :: "cptr \<Rightarrow> (('o, 'm) cmem_scheme, bytes) io" where
  "c_block p = (\<lambda>w. case p of
     Null \<Rightarrow> Inl NilDeref
   | Borrowed bs \<Rightarrow> Inr (bs, w)
   | CPtr q \<Rightarrow> (case c_heap w q of Some (Chars bs) \<Rightarrow> Inr (bs, w) | _ \<Rightarrow> Inl BadPtr))"

text \<open>Reading \<open>n\<close> bytes: reading none touches no memory.\<close>

definition c_read :: "cptr \<Rightarrow> nat \<Rightarrow> (('o, 'm) cmem_scheme, bytes) io" where
  "c_read p n = (if n = 0 then ret []
     else bnd (c_block p) (\<lambda>bs. if n \<le> length bs then ret (take n bs) else fail OutOfRange))"

text \<open>Reading a C string runs to the first NUL and past the block when there is none.\<close>

definition c_string :: "cptr \<Rightarrow> (('o, 'm) cmem_scheme, bytes) io" where
  "c_string p = bnd (c_block p) (\<lambda>bs. if NUL \<in> set bs then ret (cstr bs) else fail OutOfRange)"

definition c_malloc :: "bytes \<Rightarrow> (('o, 'm) cmem_scheme, cptr) io" where
  "c_malloc bs = bnd (c_new (Chars bs)) (\<lambda>p. ret (CPtr p))"

definition c_free :: "cptr \<Rightarrow> (('o, 'm) cmem_scheme, unit) io" where
  "c_free p = (\<lambda>w. case p of
     Null \<Rightarrow> Inr ((), w)
   | Borrowed bs \<Rightarrow> Inl BadFree
   | CPtr q \<Rightarrow> (case c_heap w q of
       Some (Chars bs) \<Rightarrow> Inr ((), w\<lparr>c_heap := (c_heap w)(q := None)\<rparr>)
     | _ \<Rightarrow> Inl BadFree))"

text \<open>Overwriting the start of a block of the C heap (\<open>copy\<close> into C memory).\<close>

definition c_write :: "cptr \<Rightarrow> bytes \<Rightarrow> (('o, 'm) cmem_scheme, unit) io" where
  "c_write p new = (\<lambda>w. case p of
     Null \<Rightarrow> Inl NilDeref
   | Borrowed bs \<Rightarrow> Inl BadPtr
   | CPtr q \<Rightarrow> (case c_heap w q of
       Some (Chars bs) \<Rightarrow>
         (if length new \<le> length bs
          then Inr ((), w\<lparr>c_heap := (c_heap w)(q \<mapsto> Chars (new @ drop (length new) bs))\<rparr>)
          else Inl OutOfRange)
     | _ \<Rightarrow> Inl BadPtr))"

text \<open>The cgo helpers and \<open>strdup\<close> of a C++ string's \<open>c_str()\<close>.\<close>

definition CString :: "bytes \<Rightarrow> (('o, 'm) cmem_scheme, cptr) io" where
  "CString s = c_malloc (s @ [NUL])"

definition GoString :: "cptr \<Rightarrow> (('o, 'm) cmem_scheme, bytes) io" where
  "GoString p = (if p = Null then ret [] else c_string p)"

definition GoBytes :: "cptr \<Rightarrow> int \<Rightarrow> (('o, 'm) cmem_scheme, bytes) io" where
  "GoBytes p n = (if n < 0 then fail (Panic ''gobytes: length out of range'')
     else c_read p (nat n))"

definition c_strdup :: "bytes \<Rightarrow> (('o, 'm) cmem_scheme, cptr) io" where
  "c_strdup s = c_malloc (cstr s @ [NUL])"

section \<open>The conversions of util.go\<close>

definition btoi :: "bool \<Rightarrow> int" where
  "btoi b = (if b then 1 else 0)"

definition boolToChar :: "bool \<Rightarrow> 8 word" where
  "boolToChar b = (if b then 1 else 0)"

text \<open>A Go slice header laid over foreign memory (\<open>reflect.SliceHeader\<close>).\<close>

record 'd header =
  h_data :: 'd
  h_len :: int
  h_cap :: int

definition charToByte :: "cptr \<Rightarrow> nat \<Rightarrow> cptr header" where
  "charToByte data len = \<lparr>h_data = data, h_len = to_int64 len, h_cap = to_int64 len\<rparr>"

definition byteToChar :: "bytes \<Rightarrow> cptr" where
  "byteToChar b = (if length b > 0 then Borrowed b else Null)"

text \<open>
  The copy goes through an array type of \<open>1 << 24\<close> bytes, so a longer slice panics (after
  the allocation). The fresh block's contents are overwritten before anything reads them.
\<close>

definition cByteSlice :: "bytes \<Rightarrow> (('o, 'm) cmem_scheme, cptr) io" where
  "cByteSlice b =
     (if length b > 0
      then bnd (c_malloc (replicate (length b) NUL)) (\<lambda>cData.
             if length b > 2 ^ 24 then fail (Panic ''slice bounds out of range'')
             else andthen (c_write cData b) (ret cData))
      else ret Null)"

definition stringToChar :: "bytes \<Rightarrow> cptr" where
  "stringToChar s = Borrowed s"

text \<open>Headers over a C array of pointers and a C array of sizes.\<close>

definition charSlice :: "cptr list \<Rightarrow> int \<Rightarrow> cptr list header" where
  "charSlice data len = \<lparr>h_data = data, h_len = len, h_cap = len\<rparr>"

definition sizeSlice :: "nat list \<Rightarrow> int \<Rightarrow> nat list header" where
  "sizeSlice data len = \<lparr>h_data = data, h_len = len, h_cap = len\<rparr>"

text \<open>
  What the Go side reads through such a header: the bytes of a byte slice, and one element
  of an array with Go's bounds check and the extent of the memory behind it.
\<close>

definition h_bytes :: "cptr header \<Rightarrow> (('o, 'm) cmem_scheme, bytes) io" where
  "h_bytes h = (if h_len h < 0 then fail OutOfRange else c_read (h_data h) (nat (h_len h)))"

definition h_index :: "'a list header \<Rightarrow> int \<Rightarrow> ('s, 'a) io" where
  "h_index h i =
     (if 0 \<le> i \<and> i < h_len h
      then (if nat i < length (h_data h) then ret (h_data h ! nat i) else fail OutOfRange)
      else fail (Panic ''index out of range''))"

section \<open>Slices of C memory (slice.go)\<close>

record Slice =
  sl_data :: cptr
  sl_size :: nat
  sl_freed :: bool

definition NewSlice :: "cptr \<Rightarrow> nat \<Rightarrow> Slice" where
  "NewSlice data n = \<lparr>sl_data = data, sl_size = n, sl_freed = False\<rparr>"

definition Slice_Data :: "Slice \<Rightarrow> cptr header" where
  "Slice_Data s = charToByte (sl_data s) (sl_size s)"

definition Slice_Size :: "Slice \<Rightarrow> int" where
  "Slice_Size s = to_int64 (sl_size s)"

definition Slice_Free :: "Slice \<Rightarrow> (('o, 'm) cmem_scheme, Slice) io" where
  "Slice_Free s =
     (if \<not> sl_freed s then andthen (c_free (sl_data s)) (ret (s\<lparr>sl_freed := True\<rparr>)) else ret s)"

section \<open>The allocator contract\<close>

text \<open>
  What every wrapper relies on: allocation returns a fresh non-null address and changes
  nothing else; releasing a live object removes just it; releasing anything else is a fault.
\<close>

locale c_allocator =
  fixes heap :: "'w \<Rightarrow> 'p \<Rightarrow> 'o option"
    and alloc :: "'o \<Rightarrow> ('w, 'p) io"
    and release :: "'p \<Rightarrow> ('w, unit) io"
    and good :: "'w \<Rightarrow> bool"
    and null :: 'p
  assumes alloc_fresh: "good w \<Longrightarrow>
      wp (alloc x) (\<lambda>p w'. good w' \<and> p \<noteq> null \<and> heap w p = None \<and> heap w' = (heap w)(p \<mapsto> x)) w"
    and release_live: "good w \<Longrightarrow> heap w p \<noteq> None \<Longrightarrow>
      wp (release p) (\<lambda>_ w'. good w' \<and> heap w' = (heap w)(p := None)) w"
    and release_null: "release null w = Inr ((), w)"
    and release_dead: "p \<noteq> null \<Longrightarrow> heap w p = None \<Longrightarrow> release p w = Inl BadFree"
begin

text \<open>
  The bracket that \<open>defer\<close> gives: allocate, run a body that keeps the heap, release. It
  never faults because of the release and leaves the heap as it was.
\<close>

lemma bracket:
  assumes "good w"
    and body: "\<And>p w1. good w1 \<Longrightarrow> heap w1 = (heap w)(p \<mapsto> x) \<Longrightarrow>
      wp (body p) (\<lambda>r w2. good w2 \<and> heap w2 = heap w1 \<and> Q r) w1"
  shows "wp (bnd (alloc x) (\<lambda>p. bnd (body p) (\<lambda>r. andthen (release p) (ret r))))
           (\<lambda>r w'. good w' \<and> heap w' = heap w \<and> Q r) w"
proof -
  have "wp (alloc x) (\<lambda>p. wp (bnd (body p) (\<lambda>r. andthen (release p) (ret r)))
           (\<lambda>r w'. good w' \<and> heap w' = heap w \<and> Q r)) w"
  proof (rule wp_mono [OF alloc_fresh [OF assms(1), of x]], elim conjE)
    fix p w1
    assume w1: "good w1" "heap w p = None" "heap w1 = (heap w)(p \<mapsto> x)"
    have "wp (body p) (\<lambda>r. wp (andthen (release p) (ret r))
            (\<lambda>r w'. good w' \<and> heap w' = heap w \<and> Q r)) w1"
      by (rule wp_mono [OF body [OF w1(1,3)]])
        (use w1 in \<open>auto intro!: wp_mono [OF release_live] simp: fun_upd_idem\<close>)
    then show "wp (bnd (body p) (\<lambda>r. andthen (release p) (ret r)))
            (\<lambda>r w'. good w' \<and> heap w' = heap w \<and> Q r) w1"
      by simp
  qed
  then show ?thesis by simp
qed

lemma double_release:
  assumes "good w" and "heap w p \<noteq> None" and "p \<noteq> null"
  shows "andthen (release p) (release p) w = Inl BadFree"
proof (rule wpE [OF release_live [OF assms(1,2)]])
  fix x w'
  assume "release p w = Inr (x, w')" and "good w' \<and> heap w' = (heap w)(p := None)"
  with release_dead [OF assms(3), of w'] show ?thesis by (simp add: bnd_Inr)
qed

end

subsection \<open>Run equations of the primitives\<close>

lemma c_new_run [run_simps]:
  "c_new x w = Inr (c_brk w, w\<lparr>c_heap := (c_heap w)(c_brk w \<mapsto> x), c_brk := Suc (c_brk w)\<rparr>)"
  by (simp add: c_new_def)

lemma wp_c_new [wp_simps, simp]:
  "wp (c_new x) Q w =
     Q (c_brk w) (w\<lparr>c_heap := (c_heap w)(c_brk w \<mapsto> x), c_brk := Suc (c_brk w)\<rparr>)"
  by (simp add: wp_run [OF c_new_run])

lemma wp_c_delete [wp_simps, simp]:
  "wp (c_delete p) Q w =
     (if p = 0 then Q () w
      else c_heap w p \<noteq> None \<and> Q () (w\<lparr>c_heap := (c_heap w)(p := None)\<rparr>))"
  by (simp add: wp_def c_delete_def split: option.splits)

lemma wp_c_get [wp_simps, simp]:
  "wp (c_get p) Q w = (p \<noteq> 0 \<and> (\<exists>x. c_heap w p = Some (Obj x) \<and> Q x w))"
  by (simp add: wp_def c_get_def split: option.splits cobj.splits)

lemma wp_c_set [wp_simps, simp]:
  "wp (c_set p x) Q w =
     (p \<noteq> 0 \<and> (\<exists>y. c_heap w p = Some (Obj y)) \<and> Q () (w\<lparr>c_heap := (c_heap w)(p \<mapsto> Obj x)\<rparr>))"
  by (auto simp: wp_def c_set_def split: option.splits cobj.splits)

lemma wp_c_malloc [wp_simps, simp]:
  "wp (c_malloc bs) Q w = Q (CPtr (c_brk w))
     (w\<lparr>c_heap := (c_heap w)(c_brk w \<mapsto> Chars bs), c_brk := Suc (c_brk w)\<rparr>)"
  by (simp add: c_malloc_def)

lemma wp_c_free [wp_simps, simp]:
  "wp (c_free Null) Q w = Q () w"
  "wp (c_free (Borrowed bs)) Q w = False"
  "wp (c_free (CPtr q)) Q w =
     ((\<exists>bs. c_heap w q = Some (Chars bs)) \<and> Q () (w\<lparr>c_heap := (c_heap w)(q := None)\<rparr>))"
  by (auto simp: wp_def c_free_def split: option.splits cobj.splits)

lemma wp_c_block [wp_simps, simp]:
  "wp (c_block Null) Q w = False"
  "wp (c_block (Borrowed bs)) Q w = Q bs w"
  "wp (c_block (CPtr q)) Q w = (\<exists>bs. c_heap w q = Some (Chars bs) \<and> Q bs w)"
  by (auto simp: wp_def c_block_def split: option.splits cobj.splits)

lemma wp_if [wp_simps, simp]: "wp (if b then m else n) Q w = (if b then wp m Q w else wp n Q w)"
  by simp

lemma c_upd_swap [simp]: "w\<lparr>c_brk := b, c_heap := h\<rparr> = w\<lparr>c_heap := h, c_brk := b\<rparr>"
  by (cases w) simp

text \<open>
  Keeping \<open>c_ok\<close>: the first three rules cover every heap change a call makes.
\<close>

lemma c_ok_frame: "c_ok w \<Longrightarrow> c_heap w' = c_heap w \<Longrightarrow> c_brk w \<le> c_brk w' \<Longrightarrow> c_ok w'"
  by (auto simp: c_ok_def)

lemma c_ok_heap_upd:
  "c_ok w \<Longrightarrow> c_heap w' = (c_heap w)(p \<mapsto> x) \<Longrightarrow> 0 < p \<Longrightarrow> p < c_brk w' \<Longrightarrow> c_brk w \<le> c_brk w' \<Longrightarrow>
   c_ok w'"
  by (auto simp: c_ok_def)

lemma c_ok_heap_del:
  "c_ok w \<Longrightarrow> c_heap w' = (c_heap w)(p := None) \<Longrightarrow> c_brk w \<le> c_brk w' \<Longrightarrow> c_ok w'"
  by (auto simp: c_ok_def)

lemma c_ok_upd:
  "c_ok w \<Longrightarrow> c_heap w p \<noteq> None \<Longrightarrow> c_ok (w\<lparr>c_heap := (c_heap w)(p \<mapsto> x)\<rparr>)"
  by (cases "p = 0") (auto simp: c_ok_def)

lemma c_ok_live_neq: "c_ok w \<Longrightarrow> c_heap w p = Some x \<Longrightarrow> p \<noteq> c_brk w \<and> p \<noteq> 0"
  by (cases "p = 0") (auto simp: c_ok_def)

lemma c_ok_live_less: "c_ok w \<Longrightarrow> c_heap w p = Some x \<Longrightarrow> p < c_brk w"
  by (metis c_ok_def not_le option.distinct(1))

lemma c_ok_brk [simp]: "c_ok w \<Longrightarrow> 0 < c_brk w"
  by (simp add: c_ok_def)

lemma c_ok_null [simp]: "c_ok w \<Longrightarrow> c_heap w 0 = None"
  by (simp add: c_ok_def)

lemma c_heap_above [simp]: "c_ok w \<Longrightarrow> c_brk w \<le> p \<Longrightarrow> c_heap w p = None"
  by (simp add: c_ok_def del: c_ok_null)

lemma c_ok_new [simp]:
  "c_ok w \<Longrightarrow> c_ok (w\<lparr>c_heap := (c_heap w)(c_brk w \<mapsto> x), c_brk := Suc (c_brk w)\<rparr>)"
  by (rule c_ok_heap_upd [of w _ "c_brk w" x]) simp_all

lemma c_ok_release [simp]: "c_ok w \<Longrightarrow> c_ok (w\<lparr>c_heap := (c_heap w)(p := None)\<rparr>)"
  by (rule c_ok_heap_del [of w]) simp_all

lemma c_heap_fresh [simp]:
  "c_ok w \<Longrightarrow> (c_heap w)(c_brk w := None) = c_heap w"
  "c_ok w \<Longrightarrow> (c_heap w)(Suc (c_brk w) := None, c_brk w := None) = c_heap w"
  "c_ok w \<Longrightarrow> (c_heap w)(Suc (c_brk w) \<mapsto> y, c_brk w := None) = (c_heap w)(Suc (c_brk w) \<mapsto> y)"
  by (simp_all add: fun_upd_idem)

subsection \<open>The two allocators meet the contract\<close>

interpretation new_delete: c_allocator c_heap c_new c_delete c_ok 0
proof unfold_locales
  fix w :: "('a, 'b) cmem_scheme" and x
  assume w: "c_ok w"
  then show "wp (c_new x) (\<lambda>p w'. c_ok w' \<and> p \<noteq> 0 \<and> c_heap w p = None \<and>
      c_heap w' = (c_heap w)(p \<mapsto> x)) w"
    using c_ok_brk [OF w] by simp
next
  fix w :: "('a, 'b) cmem_scheme" and p
  assume "c_ok w" and "c_heap w p \<noteq> None"
  then show "wp (c_delete p) (\<lambda>_ w'. c_ok w' \<and> c_heap w' = (c_heap w)(p := None)) w"
    by auto
qed (simp_all add: c_delete_def)

text \<open>The character blocks of the heap, addressed by character pointers.\<close>

definition c_chars :: "('o, 'm) cmem_scheme \<Rightarrow> cptr \<Rightarrow> bytes option" where
  "c_chars w p = (case p of
     CPtr q \<Rightarrow> (case c_heap w q of Some (Chars bs) \<Rightarrow> Some bs | _ \<Rightarrow> None)
   | _ \<Rightarrow> None)"

lemma c_chars_upd:
  "c_chars (w\<lparr>c_heap := (c_heap w)(q \<mapsto> Chars bs), c_brk := b\<rparr>) = (c_chars w)(CPtr q \<mapsto> bs)"
  by (auto simp: c_chars_def fun_eq_iff split: cptr.splits)

lemma c_chars_del:
  "c_chars (w\<lparr>c_heap := (c_heap w)(q := None)\<rparr>) = (c_chars w)(CPtr q := None)"
  by (auto simp: c_chars_def fun_eq_iff split: cptr.splits)

interpretation malloc_free: c_allocator c_chars c_malloc c_free c_ok Null
proof unfold_locales
  fix w :: "('a, 'b) cmem_scheme" and x
  assume "c_ok w"
  then show "wp (c_malloc x) (\<lambda>p w'. c_ok w' \<and> p \<noteq> Null \<and> c_chars w p = None \<and>
      c_chars w' = (c_chars w)(p \<mapsto> x)) w"
    by (simp add: c_chars_upd) (simp add: c_chars_def)
next
  fix w :: "('a, 'b) cmem_scheme" and p
  assume "c_ok w" and "c_chars w p \<noteq> None"
  then show "wp (c_free p) (\<lambda>_ w'. c_ok w' \<and> c_chars w' = (c_chars w)(p := None)) w"
    by (cases p) (auto simp: c_chars_del, auto simp: c_chars_def split: option.splits cobj.splits)
next
  fix w :: "('a, 'b) cmem_scheme" and p
  assume "p \<noteq> Null" and "c_chars w p = None"
  then show "c_free p w = Inl BadFree"
    by (auto simp: c_free_def c_chars_def split: cptr.splits option.splits cobj.splits)
qed (simp add: c_free_def)

section \<open>Reading back what was handed over\<close>

text \<open>A Go slice passed to C as pointer and length is read back unchanged, empty or not.\<close>

lemma wp_read_byteToChar [simp]: "wp (c_read (byteToChar b) (length b)) Q w = Q b w"
  by (auto simp: c_read_def byteToChar_def)

lemma read_byteToChar [simp]: "c_read (byteToChar b) (length b) = ret b"
  by (auto simp: c_read_def byteToChar_def bnd_def c_block_def fun_eq_iff ret_def)

lemma wp_CString [simp]:
  "wp (CString s) Q w = Q (CPtr (c_brk w))
     (w\<lparr>c_heap := (c_heap w)(c_brk w \<mapsto> Chars (s @ [NUL])), c_brk := Suc (c_brk w)\<rparr>)"
  by (simp add: CString_def)

lemma wp_c_strdup [simp]:
  "wp (c_strdup s) Q w = Q (CPtr (c_brk w))
     (w\<lparr>c_heap := (c_heap w)(c_brk w \<mapsto> Chars (cstr s @ [NUL])), c_brk := Suc (c_brk w)\<rparr>)"
  by (simp add: c_strdup_def)

lemma wp_c_string_block [simp]:
  "wp (c_string (CPtr q)) Q w =
     (\<exists>bs. c_heap w q = Some (Chars bs) \<and> NUL \<in> set bs \<and> Q (cstr bs) w)"
  by (auto simp: c_string_def)

lemma wp_GoString [simp]:
  "wp (GoString Null) Q w = Q [] w"
  "wp (GoString (CPtr q)) Q w =
     (\<exists>bs. c_heap w q = Some (Chars bs) \<and> NUL \<in> set bs \<and> Q (cstr bs) w)"
  by (auto simp: GoString_def)

lemma wp_c_read_block [simp]:
  "wp (c_read (CPtr q) n) Q w =
     (if n = 0 then Q [] w
      else \<exists>bs. c_heap w q = Some (Chars bs) \<and> n \<le> length bs \<and> Q (take n bs) w)"
  by (auto simp: c_read_def)

lemma wp_cByteSlice:
  assumes "length b \<le> 2 ^ 24"
  shows "wp (cByteSlice b) Q w =
    (if b = [] then Q Null w
     else Q (CPtr (c_brk w))
            (w\<lparr>c_heap := (c_heap w)(c_brk w \<mapsto> Chars b), c_brk := Suc (c_brk w)\<rparr>))"
proof (cases "b = []")
  case False
  then have "wp (c_write (CPtr (c_brk w)) b) P
      (w\<lparr>c_heap := (c_heap w)(c_brk w \<mapsto> Chars (replicate (length b) NUL)), c_brk := Suc (c_brk w)\<rparr>)
    = P () (w\<lparr>c_heap := (c_heap w)(c_brk w \<mapsto> Chars b), c_brk := Suc (c_brk w)\<rparr>)" for P
    by (simp add: wp_def c_write_def)
  with False assms show ?thesis by (simp add: cByteSlice_def)
qed (simp add: cByteSlice_def)

end
