(* ===== verification/Rdbc.thy ===== *)
theory Rdbc
  imports Cgo
begin

text \<open>
  The C shim \<^verbatim>\<open>src/rdb/rdbc.cc\<close> between Go and RocksDB's C++ interface. RocksDB itself is
  not part of the repository: the record \<open>rocksdb\<close> collects the calls the shim makes, over
  an abstract engine state \<open>'e\<close>, write batch \<open>'b\<close> and table factory \<open>'f\<close>; it is a
  parameter of every definition that reaches it. The shim's own objects (\<open>rdb_t\<close>,
  \<open>rdb_options_t\<close>, \<dots>) live in the C heap.
\<close>

section \<open>What the shim sees of RocksDB\<close>

text \<open>A \<open>Status\<close> through the three observers the shim uses: ok(), IsNotFound(), ToString().\<close>

record status =
  st_ok :: bool
  st_notfound :: bool
  st_text :: bytes

text \<open>
  The option structs with the fields the shim writes. A snapshot, a cache and the other
  engine objects are engine references, with 0 for a null pointer; a filter policy is a
  pointer to an object of the shim.
\<close>

record 'f options =
  create_if_missing :: bool
  table_factory :: 'f

record readoptions =
  fill_cache :: bool
  snapshot :: nat

record writeoptions =
  sync :: bool

record table_options =
  block_size :: nat
  filter_policy :: ptr
  no_block_cache :: bool
  block_cache :: nat
  block_cache_compressed :: nat
  whole_key_filtering :: bool

record ('b, 'f, 'e) rocksdb =
  def_options :: "'f options"
  def_readoptions :: readoptions
  def_writeoptions :: writeoptions
  def_table_options :: table_options
  NewBlockBasedTableFactory :: "table_options \<Rightarrow> 'f"
  db_Open :: "'f options \<Rightarrow> bytes \<Rightarrow> 'e \<Rightarrow> (status \<times> nat) \<times> 'e"
  db_OpenForReadOnly :: "'f options \<Rightarrow> bytes \<Rightarrow> bool \<Rightarrow> 'e \<Rightarrow> (status \<times> nat) \<times> 'e"
  db_delete :: "nat \<Rightarrow> 'e \<Rightarrow> unit \<times> 'e"
  db_Get :: "nat \<Rightarrow> readoptions \<Rightarrow> bytes \<Rightarrow> 'e \<Rightarrow> (status \<times> bytes) \<times> 'e"
  db_Put :: "nat \<Rightarrow> writeoptions \<Rightarrow> bytes \<Rightarrow> bytes \<Rightarrow> 'e \<Rightarrow> status \<times> 'e"
  db_Delete :: "nat \<Rightarrow> writeoptions \<Rightarrow> bytes \<Rightarrow> 'e \<Rightarrow> status \<times> 'e"
  db_Write :: "nat \<Rightarrow> writeoptions \<Rightarrow> 'b \<Rightarrow> 'e \<Rightarrow> status \<times> 'e"
  db_GetProperty :: "nat \<Rightarrow> bytes \<Rightarrow> 'e \<Rightarrow> bytes option \<times> 'e"
  db_NewIterator :: "nat \<Rightarrow> readoptions \<Rightarrow> 'e \<Rightarrow> nat \<times> 'e"
  db_GetSnapshot :: "nat \<Rightarrow> 'e \<Rightarrow> nat \<times> 'e"
  db_ReleaseSnapshot :: "nat \<Rightarrow> nat \<Rightarrow> 'e \<Rightarrow> unit \<times> 'e"
  wb_new :: 'b
  wb_from :: "bytes \<Rightarrow> 'b"
  wb_Put :: "'b \<Rightarrow> bytes \<Rightarrow> bytes \<Rightarrow> 'b"
  wb_Delete :: "'b \<Rightarrow> bytes \<Rightarrow> 'b"
  wb_Clear :: "'b \<Rightarrow> 'b"
  wb_Count :: "'b \<Rightarrow> nat"
  it_Valid :: "nat \<Rightarrow> 'e \<Rightarrow> bool \<times> 'e"
  it_SeekToFirst :: "nat \<Rightarrow> 'e \<Rightarrow> unit \<times> 'e"
  it_SeekToLast :: "nat \<Rightarrow> 'e \<Rightarrow> unit \<times> 'e"
  it_Seek :: "nat \<Rightarrow> bytes \<Rightarrow> 'e \<Rightarrow> unit \<times> 'e"
  it_SeekForPrev :: "nat \<Rightarrow> bytes \<Rightarrow> 'e \<Rightarrow> unit \<times> 'e"
  it_Next :: "nat \<Rightarrow> 'e \<Rightarrow> unit \<times> 'e"
  it_Prev :: "nat \<Rightarrow> 'e \<Rightarrow> unit \<times> 'e"
  it_key :: "nat \<Rightarrow> 'e \<Rightarrow> bytes \<times> 'e"
  it_value :: "nat \<Rightarrow> 'e \<Rightarrow> bytes \<times> 'e"
  it_status :: "nat \<Rightarrow> 'e \<Rightarrow> status \<times> 'e"
  it_delete :: "nat \<Rightarrow> 'e \<Rightarrow> unit \<times> 'e"
  cp_Create :: "nat \<Rightarrow> 'e \<Rightarrow> (status \<times> nat) \<times> 'e"
  cp_CreateCheckpoint :: "nat \<Rightarrow> bytes \<Rightarrow> 'e \<Rightarrow> status \<times> 'e"
  cp_delete :: "nat \<Rightarrow> 'e \<Rightarrow> unit \<times> 'e"
  NewLRUCache :: "nat \<Rightarrow> 'e \<Rightarrow> nat \<times> 'e"
  NewBloomFilterPolicy :: "int \<Rightarrow> bool \<Rightarrow> 'e \<Rightarrow> nat \<times> 'e"
  fp_CreateFilter :: "nat \<Rightarrow> bytes list \<Rightarrow> 'e \<Rightarrow> bytes \<times> 'e"
  fp_KeyMayMatch :: "nat \<Rightarrow> bytes \<Rightarrow> bytes \<Rightarrow> 'e \<Rightarrow> bool \<times> 'e"
  fp_delete :: "nat \<Rightarrow> 'e \<Rightarrow> unit \<times> 'e"

section \<open>The shim's objects and the world\<close>

text \<open>
  A filter policy of the shim is either the adapter that \<open>rdbc_filterpolicy_create\<close> makes
  around a registered Go policy (its state is the index) or the wrapper around RocksDB's
  Bloom filter. RocksDB holds policies by \<open>shared_ptr\<close>, so the object carries the number
  of owners its control block counts (0 before the first owner).
\<close>

datatype fpolicy = GoFilter nat | BloomFilter nat

datatype ('b, 'f) obj =
    DbObj nat
  | OptObj "'f options"
  | RoObj readoptions
  | WoObj writeoptions
  | WbObj 'b
  | ItObj nat
  | CacheObj nat
  | BbtoObj table_options
  | SnapObj nat
  | ChkObj nat
  | FpObj fpolicy nat

text \<open>
  Go structs that several Go pointers share (\<^verbatim>\<open>BlockBasedTableOptions\<close> and \<^verbatim>\<open>Cache\<close>) live
  in a Go heap of their own; every other struct of package rdb has one owner and is passed by
  value. \<^verbatim>\<open>filterPolicies\<close> is the package variable of \<^verbatim>\<open>filter_policy.go\<close>: a Go filter
  policy is the native wrapper or a client's three methods.
\<close>

record BlockBasedTableOptions =
  bo_c :: ptr
  bo_cache :: ptr
  bo_compCache :: ptr
  bo_cFp :: ptr

record Cache =
  ca_c :: ptr

datatype gobj = GBbto BlockBasedTableOptions | GCache Cache

datatype FilterPolicy =
    nativeFilterPolicy ptr
  | UserPolicy "bytes list \<Rightarrow> bytes" "bytes \<Rightarrow> bytes \<Rightarrow> bool" bytes

record ('b, 'f, 'e) world = "('b, 'f) obj cmem" +
  go_heap :: "ptr \<Rightarrow> gobj option"
  go_brk :: ptr
  filterPolicies :: "FilterPolicy list"
  eng :: 'e

type_synonym ('b, 'f, 'e, 'a) rio = "(('b, 'f, 'e) world, 'a) io"

text \<open>A call into the engine.\<close>

definition engine :: "('e \<Rightarrow> 'a \<times> 'e) \<Rightarrow> ('b, 'f, 'e, 'a) rio" where
  "engine f = (\<lambda>w. case f (eng w) of (r, e) \<Rightarrow> Inr (r, w\<lparr>eng := e\<rparr>))"

text \<open>Dereferencing a shim object at its type.\<close>

definition get_db :: "ptr \<Rightarrow> ('b, 'f, 'e, nat) rio" where
  "get_db p = bnd (c_get p) (\<lambda>x. case x of DbObj d \<Rightarrow> ret d | _ \<Rightarrow> fail BadPtr)"

definition get_opt :: "ptr \<Rightarrow> ('b, 'f, 'e, 'f options) rio" where
  "get_opt p = bnd (c_get p) (\<lambda>x. case x of OptObj d \<Rightarrow> ret d | _ \<Rightarrow> fail BadPtr)"

definition get_ro :: "ptr \<Rightarrow> ('b, 'f, 'e, readoptions) rio" where
  "get_ro p = bnd (c_get p) (\<lambda>x. case x of RoObj d \<Rightarrow> ret d | _ \<Rightarrow> fail BadPtr)"

definition get_wo :: "ptr \<Rightarrow> ('b, 'f, 'e, writeoptions) rio" where
  "get_wo p = bnd (c_get p) (\<lambda>x. case x of WoObj d \<Rightarrow> ret d | _ \<Rightarrow> fail BadPtr)"

definition get_wb :: "ptr \<Rightarrow> ('b, 'f, 'e, 'b) rio" where
  "get_wb p = bnd (c_get p) (\<lambda>x. case x of WbObj d \<Rightarrow> ret d | _ \<Rightarrow> fail BadPtr)"

definition get_it :: "ptr \<Rightarrow> ('b, 'f, 'e, nat) rio" where
  "get_it p = bnd (c_get p) (\<lambda>x. case x of ItObj d \<Rightarrow> ret d | _ \<Rightarrow> fail BadPtr)"

definition get_cache :: "ptr \<Rightarrow> ('b, 'f, 'e, nat) rio" where
  "get_cache p = bnd (c_get p) (\<lambda>x. case x of CacheObj d \<Rightarrow> ret d | _ \<Rightarrow> fail BadPtr)"

definition get_bbto :: "ptr \<Rightarrow> ('b, 'f, 'e, table_options) rio" where
  "get_bbto p = bnd (c_get p) (\<lambda>x. case x of BbtoObj d \<Rightarrow> ret d | _ \<Rightarrow> fail BadPtr)"

definition get_snap :: "ptr \<Rightarrow> ('b, 'f, 'e, nat) rio" where
  "get_snap p = bnd (c_get p) (\<lambda>x. case x of SnapObj d \<Rightarrow> ret d | _ \<Rightarrow> fail BadPtr)"

definition get_chk :: "ptr \<Rightarrow> ('b, 'f, 'e, nat) rio" where
  "get_chk p = bnd (c_get p) (\<lambda>x. case x of ChkObj d \<Rightarrow> ret d | _ \<Rightarrow> fail BadPtr)"

definition get_fp :: "ptr \<Rightarrow> ('b, 'f, 'e, fpolicy \<times> nat) rio" where
  "get_fp p = bnd (c_get p) (\<lambda>x. case x of FpObj d n \<Rightarrow> ret (d, n) | _ \<Rightarrow> fail BadPtr)"

section \<open>Errors and strings\<close>

text \<open>
  \<open>errptr\<close> is a \<open>char**\<close>: the model passes the pointer stored there and returns the one
  stored afterwards.
\<close>

definition SaveError :: "cptr \<Rightarrow> status \<Rightarrow> ('b, 'f, 'e, cptr \<times> bool) rio" where
  "SaveError errptr s =
     (if st_ok s then ret (errptr, False)
      else if errptr = Null then bnd (c_strdup (st_text s)) (\<lambda>p. ret (p, True))
      else andthen (c_free errptr) (bnd (c_strdup (st_text s)) (\<lambda>p. ret (p, True))))"

definition CopyString :: "bytes \<Rightarrow> ('b, 'f, 'e, cptr) rio" where
  "CopyString str = c_malloc str"

section \<open>rdb_t\<close>

definition rdb_open ::
  "('b, 'f, 'e) rocksdb \<Rightarrow> ptr \<Rightarrow> cptr \<Rightarrow> cptr \<Rightarrow> ('b, 'f, 'e, ptr \<times> cptr) rio" where
  "rdb_open R opts name errptr =
     bnd (get_opt opts) (\<lambda>opt. bnd (c_string name) (\<lambda>n.
     bnd (engine (db_Open R opt n)) (\<lambda>(s, db).
     bnd (SaveError errptr s) (\<lambda>(err, failed).
       if failed then ret (0, err)
       else bnd (c_new (Obj (DbObj db))) (\<lambda>p. ret (p, err))))))"

definition rdb_open_for_read_only ::
  "('b, 'f, 'e) rocksdb \<Rightarrow> ptr \<Rightarrow> cptr \<Rightarrow> 8 word \<Rightarrow> cptr \<Rightarrow> ('b, 'f, 'e, ptr \<times> cptr) rio" where
  "rdb_open_for_read_only R opts name error_if_log_file_exist errptr =
     bnd (get_opt opts) (\<lambda>opt. bnd (c_string name) (\<lambda>n.
     bnd (engine (db_OpenForReadOnly R opt n (error_if_log_file_exist \<noteq> 0))) (\<lambda>(s, db).
     bnd (SaveError errptr s) (\<lambda>(err, failed).
       if failed then ret (0, err)
       else bnd (c_new (Obj (DbObj db))) (\<lambda>p. ret (p, err))))))"

definition rdb_close :: "('b, 'f, 'e) rocksdb \<Rightarrow> ptr \<Rightarrow> ('b, 'f, 'e, unit) rio" where
  "rdb_close R db = bnd (get_db db) (\<lambda>d. andthen (engine (db_delete R d)) (c_delete db))"

definition rdb_get ::
  "('b, 'f, 'e) rocksdb \<Rightarrow> ptr \<Rightarrow> ptr \<Rightarrow> cptr \<Rightarrow> nat \<Rightarrow> cptr \<Rightarrow>
     ('b, 'f, 'e, cptr \<times> nat \<times> cptr) rio" where
  "rdb_get R db opts key keylen errptr =
     bnd (get_db db) (\<lambda>d. bnd (get_ro opts) (\<lambda>opt. bnd (c_read key keylen) (\<lambda>k.
     bnd (engine (db_Get R d opt k)) (\<lambda>(s, tmp).
       if st_ok s then bnd (CopyString tmp) (\<lambda>p. ret (p, length tmp, errptr))
       else if \<not> st_notfound s then bnd (SaveError errptr s) (\<lambda>(err, _). ret (Null, 0, err))
       else ret (Null, 0, errptr)))))"

definition rdb_put ::
  "('b, 'f, 'e) rocksdb \<Rightarrow> ptr \<Rightarrow> ptr \<Rightarrow> cptr \<Rightarrow> nat \<Rightarrow> cptr \<Rightarrow> nat \<Rightarrow> cptr \<Rightarrow>
     ('b, 'f, 'e, cptr) rio" where
  "rdb_put R db opts key keylen val vallen errptr =
     bnd (get_db db) (\<lambda>d. bnd (get_wo opts) (\<lambda>opt.
     bnd (c_read key keylen) (\<lambda>k. bnd (c_read val vallen) (\<lambda>v.
     bnd (engine (db_Put R d opt k v)) (\<lambda>s.
     bnd (SaveError errptr s) (\<lambda>(err, _). ret err))))))"

definition rdb_delete ::
  "('b, 'f, 'e) rocksdb \<Rightarrow> ptr \<Rightarrow> ptr \<Rightarrow> cptr \<Rightarrow> nat \<Rightarrow> cptr \<Rightarrow> ('b, 'f, 'e, cptr) rio" where
  "rdb_delete R db opts key keylen errptr =
     bnd (get_db db) (\<lambda>d. bnd (get_wo opts) (\<lambda>opt. bnd (c_read key keylen) (\<lambda>k.
     bnd (engine (db_Delete R d opt k)) (\<lambda>s.
     bnd (SaveError errptr s) (\<lambda>(err, _). ret err)))))"

definition rdb_property_value ::
  "('b, 'f, 'e) rocksdb \<Rightarrow> ptr \<Rightarrow> cptr \<Rightarrow> ('b, 'f, 'e, cptr) rio" where
  "rdb_property_value R db propname =
     bnd (get_db db) (\<lambda>d. bnd (c_string propname) (\<lambda>n.
     bnd (engine (db_GetProperty R d n)) (\<lambda>r.
       case r of Some tmp \<Rightarrow> c_strdup tmp | None \<Rightarrow> ret Null)))"

section \<open>rdb_writebatch_t\<close>

definition rdb_writebatch_create :: "('b, 'f, 'e) rocksdb \<Rightarrow> ('b, 'f, 'e, ptr) rio" where
  "rdb_writebatch_create R = c_new (Obj (WbObj (wb_new R)))"

definition rdb_writebatch_create_from ::
  "('b, 'f, 'e) rocksdb \<Rightarrow> cptr \<Rightarrow> nat \<Rightarrow> ('b, 'f, 'e, ptr) rio" where
  "rdb_writebatch_create_from R rep n = bnd (c_read rep n) (\<lambda>bs. c_new (Obj (WbObj (wb_from R bs))))"

definition rdb_writebatch_destroy :: "ptr \<Rightarrow> ('b, 'f, 'e, unit) rio" where
  "rdb_writebatch_destroy b = c_delete b"

definition rdb_writebatch_clear :: "('b, 'f, 'e) rocksdb \<Rightarrow> ptr \<Rightarrow> ('b, 'f, 'e, unit) rio" where
  "rdb_writebatch_clear R b = bnd (get_wb b) (\<lambda>x. c_set b (WbObj (wb_Clear R x)))"

definition rdb_writebatch_count :: "('b, 'f, 'e) rocksdb \<Rightarrow> ptr \<Rightarrow> ('b, 'f, 'e, int) rio" where
  "rdb_writebatch_count R b = bnd (get_wb b) (\<lambda>x. ret (to_int32 (wb_Count R x)))"

definition rdb_writebatch_put ::
  "('b, 'f, 'e) rocksdb \<Rightarrow> ptr \<Rightarrow> cptr \<Rightarrow> nat \<Rightarrow> cptr \<Rightarrow> nat \<Rightarrow> ('b, 'f, 'e, unit) rio" where
  "rdb_writebatch_put R b key klen val vlen =
     bnd (get_wb b) (\<lambda>x. bnd (c_read key klen) (\<lambda>k. bnd (c_read val vlen) (\<lambda>v.
       c_set b (WbObj (wb_Put R x k v)))))"

definition rdb_writebatch_delete ::
  "('b, 'f, 'e) rocksdb \<Rightarrow> ptr \<Rightarrow> cptr \<Rightarrow> nat \<Rightarrow> ('b, 'f, 'e, unit) rio" where
  "rdb_writebatch_delete R b key klen =
     bnd (get_wb b) (\<lambda>x. bnd (c_read key klen) (\<lambda>k. c_set b (WbObj (wb_Delete R x k))))"

definition rdb_write ::
  "('b, 'f, 'e) rocksdb \<Rightarrow> ptr \<Rightarrow> ptr \<Rightarrow> ptr \<Rightarrow> cptr \<Rightarrow> ('b, 'f, 'e, cptr) rio" where
  "rdb_write R db opts batch errptr =
     bnd (get_db db) (\<lambda>d. bnd (get_wo opts) (\<lambda>opt. bnd (get_wb batch) (\<lambda>b.
     bnd (engine (db_Write R d opt b)) (\<lambda>s.
     bnd (SaveError errptr s) (\<lambda>(err, _). ret err)))))"

section \<open>Filter policies and their owners\<close>

text \<open>
  \<open>shared_ptr::reset(p)\<close> makes a new control block for \<open>p\<close> (one owner), then drops the
  old pointer; the last owner deletes the policy, and deleting the Bloom wrapper deletes the
  RocksDB policy inside. Two independent control blocks for one policy delete it twice, which
  is a fault here too.
\<close>

definition fp_own :: "ptr \<Rightarrow> ('b, 'f, 'e, unit) rio" where
  "fp_own p = (if p = 0 then ret ()
     else bnd (get_fp p) (\<lambda>(x, _). c_set p (FpObj x 1)))"

definition fp_share :: "ptr \<Rightarrow> ('b, 'f, 'e, unit) rio" where
  "fp_share p = (if p = 0 then ret ()
     else bnd (get_fp p) (\<lambda>(x, n). c_set p (FpObj x (Suc n))))"

definition fp_destroy :: "('b, 'f, 'e) rocksdb \<Rightarrow> ptr \<Rightarrow> fpolicy \<Rightarrow> ('b, 'f, 'e, unit) rio" where
  "fp_destroy R p x = (case x of
     GoFilter idx \<Rightarrow> c_delete p
   | BloomFilter rep \<Rightarrow> andthen (engine (fp_delete R rep)) (c_delete p))"

definition fp_release :: "('b, 'f, 'e) rocksdb \<Rightarrow> ptr \<Rightarrow> ('b, 'f, 'e, unit) rio" where
  "fp_release R p = (if p = 0 then ret ()
     else bnd (get_fp p) (\<lambda>(x, n).
       if n \<le> 1 then fp_destroy R p x else c_set p (FpObj x (n - 1))))"

definition rdbc_filterpolicy_create :: "nat \<Rightarrow> ('b, 'f, 'e, ptr) rio" where
  "rdbc_filterpolicy_create idx = c_new (Obj (FpObj (GoFilter idx) 0))"

definition rdb_filterpolicy_create_bloom_format ::
  "('b, 'f, 'e) rocksdb \<Rightarrow> int \<Rightarrow> bool \<Rightarrow> ('b, 'f, 'e, ptr) rio" where
  "rdb_filterpolicy_create_bloom_format R bits_per_key original_format =
     bnd (engine (NewBloomFilterPolicy R bits_per_key original_format)) (\<lambda>rep.
       c_new (Obj (FpObj (BloomFilter rep) 0)))"

definition rdb_filterpolicy_create_bloom ::
  "('b, 'f, 'e) rocksdb \<Rightarrow> int \<Rightarrow> ('b, 'f, 'e, ptr) rio" where
  "rdb_filterpolicy_create_bloom R bits_per_key =
     rdb_filterpolicy_create_bloom_format R bits_per_key True"

section \<open>rdb_cache_t and rdb_block_based_table_options_t\<close>

definition rdb_cache_create_lru :: "('b, 'f, 'e) rocksdb \<Rightarrow> nat \<Rightarrow> ('b, 'f, 'e, ptr) rio" where
  "rdb_cache_create_lru R capacity =
     bnd (engine (NewLRUCache R capacity)) (\<lambda>c. c_new (Obj (CacheObj c)))"

definition rdb_cache_destroy :: "ptr \<Rightarrow> ('b, 'f, 'e, unit) rio" where
  "rdb_cache_destroy c = c_delete c"

definition rdb_block_based_options_create :: "('b, 'f, 'e) rocksdb \<Rightarrow> ('b, 'f, 'e, ptr) rio" where
  "rdb_block_based_options_create R = c_new (Obj (BbtoObj (def_table_options R)))"

definition rdb_block_based_options_destroy ::
  "('b, 'f, 'e) rocksdb \<Rightarrow> ptr \<Rightarrow> ('b, 'f, 'e, unit) rio" where
  "rdb_block_based_options_destroy R p = (if p = 0 then ret ()
     else bnd (get_bbto p) (\<lambda>b. andthen (fp_release R (filter_policy b)) (c_delete p)))"

definition rdb_block_based_options_set_block_size :: "ptr \<Rightarrow> nat \<Rightarrow> ('b, 'f, 'e, unit) rio" where
  "rdb_block_based_options_set_block_size p n =
     bnd (get_bbto p) (\<lambda>b. c_set p (BbtoObj (b\<lparr>block_size := n\<rparr>)))"

definition rdb_block_based_options_set_filter_policy ::
  "('b, 'f, 'e) rocksdb \<Rightarrow> ptr \<Rightarrow> ptr \<Rightarrow> ('b, 'f, 'e, unit) rio" where
  "rdb_block_based_options_set_filter_policy R p fp =
     bnd (get_bbto p) (\<lambda>b.
       andthen (fp_own fp)
       (andthen (c_set p (BbtoObj (b\<lparr>filter_policy := fp\<rparr>)))
       (fp_release R (filter_policy b))))"

definition rdb_block_based_options_set_no_block_cache ::
  "ptr \<Rightarrow> 8 word \<Rightarrow> ('b, 'f, 'e, unit) rio" where
  "rdb_block_based_options_set_no_block_cache p v =
     bnd (get_bbto p) (\<lambda>b. c_set p (BbtoObj (b\<lparr>no_block_cache := (v \<noteq> 0)\<rparr>)))"

definition rdb_block_based_options_set_block_cache ::
  "ptr \<Rightarrow> ptr \<Rightarrow> ('b, 'f, 'e, unit) rio" where
  "rdb_block_based_options_set_block_cache p c =
     (if c = 0 then ret ()
      else bnd (get_bbto p) (\<lambda>b. bnd (get_cache c) (\<lambda>x.
             c_set p (BbtoObj (b\<lparr>block_cache := x\<rparr>)))))"

definition rdb_block_based_options_set_block_cache_compressed ::
  "ptr \<Rightarrow> ptr \<Rightarrow> ('b, 'f, 'e, unit) rio" where
  "rdb_block_based_options_set_block_cache_compressed p c =
     (if c = 0 then ret ()
      else bnd (get_bbto p) (\<lambda>b. bnd (get_cache c) (\<lambda>x.
             c_set p (BbtoObj (b\<lparr>block_cache_compressed := x\<rparr>)))))"

definition rdb_block_based_options_set_whole_key_filtering ::
  "ptr \<Rightarrow> 8 word \<Rightarrow> ('b, 'f, 'e, unit) rio" where
  "rdb_block_based_options_set_whole_key_filtering p v =
     bnd (get_bbto p) (\<lambda>b. c_set p (BbtoObj (b\<lparr>whole_key_filtering := (v \<noteq> 0)\<rparr>)))"

section \<open>rdb_options_t, rdb_readoptions_t, rdb_writeoptions_t\<close>

definition rdb_options_create :: "('b, 'f, 'e) rocksdb \<Rightarrow> ('b, 'f, 'e, ptr) rio" where
  "rdb_options_create R = c_new (Obj (OptObj (def_options R)))"

definition rdb_options_set_create_if_missing :: "ptr \<Rightarrow> 8 word \<Rightarrow> ('b, 'f, 'e, unit) rio" where
  "rdb_options_set_create_if_missing p v =
     bnd (get_opt p) (\<lambda>opt. c_set p (OptObj (opt\<lparr>create_if_missing := (v \<noteq> 0)\<rparr>)))"

text \<open>
  The factory is built from a copy of the table options as they are at this call, so it
  becomes one more owner of the filter policy they hold then.
\<close>

definition rdb_options_set_block_based_table_factory ::
  "('b, 'f, 'e) rocksdb \<Rightarrow> ptr \<Rightarrow> ptr \<Rightarrow> ('b, 'f, 'e, unit) rio" where
  "rdb_options_set_block_based_table_factory R p t =
     (if t = 0 then ret ()
      else bnd (get_opt p) (\<lambda>opt. bnd (get_bbto t) (\<lambda>b.
             andthen (fp_share (filter_policy b))
             (c_set p (OptObj (opt\<lparr>table_factory := NewBlockBasedTableFactory R b\<rparr>))))))"

definition rdb_readoptions_create :: "('b, 'f, 'e) rocksdb \<Rightarrow> ('b, 'f, 'e, ptr) rio" where
  "rdb_readoptions_create R = c_new (Obj (RoObj (def_readoptions R)))"

definition rdb_readoptions_destroy :: "ptr \<Rightarrow> ('b, 'f, 'e, unit) rio" where
  "rdb_readoptions_destroy p = c_delete p"

definition rdb_readoptions_set_fill_cache :: "ptr \<Rightarrow> 8 word \<Rightarrow> ('b, 'f, 'e, unit) rio" where
  "rdb_readoptions_set_fill_cache p v =
     bnd (get_ro p) (\<lambda>opt. c_set p (RoObj (opt\<lparr>fill_cache := (v \<noteq> 0)\<rparr>)))"

definition rdb_readoptions_set_snapshot :: "ptr \<Rightarrow> ptr \<Rightarrow> ('b, 'f, 'e, unit) rio" where
  "rdb_readoptions_set_snapshot p snap =
     bnd (get_ro p) (\<lambda>opt. bnd (if snap = 0 then ret 0 else get_snap snap) (\<lambda>s.
       c_set p (RoObj (opt\<lparr>snapshot := s\<rparr>))))"

definition rdb_writeoptions_create :: "('b, 'f, 'e) rocksdb \<Rightarrow> ('b, 'f, 'e, ptr) rio" where
  "rdb_writeoptions_create R = c_new (Obj (WoObj (def_writeoptions R)))"

definition rdb_writeoptions_destroy :: "ptr \<Rightarrow> ('b, 'f, 'e, unit) rio" where
  "rdb_writeoptions_destroy p = c_delete p"

definition rdb_writeoptions_set_sync :: "ptr \<Rightarrow> 8 word \<Rightarrow> ('b, 'f, 'e, unit) rio" where
  "rdb_writeoptions_set_sync p v =
     bnd (get_wo p) (\<lambda>opt. c_set p (WoObj (opt\<lparr>sync := (v \<noteq> 0)\<rparr>)))"

section \<open>rdb_iterator_t\<close>

definition rdb_create_iterator ::
  "('b, 'f, 'e) rocksdb \<Rightarrow> ptr \<Rightarrow> ptr \<Rightarrow> ('b, 'f, 'e, ptr) rio" where
  "rdb_create_iterator R db opts =
     bnd (get_db db) (\<lambda>d. bnd (get_ro opts) (\<lambda>opt.
     bnd (engine (db_NewIterator R d opt)) (\<lambda>i. c_new (Obj (ItObj i)))))"

definition rdb_iter_destroy :: "('b, 'f, 'e) rocksdb \<Rightarrow> ptr \<Rightarrow> ('b, 'f, 'e, unit) rio" where
  "rdb_iter_destroy R p = bnd (get_it p) (\<lambda>i. andthen (engine (it_delete R i)) (c_delete p))"

definition rdb_iter_valid :: "('b, 'f, 'e) rocksdb \<Rightarrow> ptr \<Rightarrow> ('b, 'f, 'e, 8 word) rio" where
  "rdb_iter_valid R p = bnd (get_it p) (\<lambda>i. bnd (engine (it_Valid R i)) (\<lambda>v. ret (if v then 1 else 0)))"

definition rdb_iter_seek_to_first :: "('b, 'f, 'e) rocksdb \<Rightarrow> ptr \<Rightarrow> ('b, 'f, 'e, unit) rio" where
  "rdb_iter_seek_to_first R p = bnd (get_it p) (\<lambda>i. engine (it_SeekToFirst R i))"

definition rdb_iter_seek_to_last :: "('b, 'f, 'e) rocksdb \<Rightarrow> ptr \<Rightarrow> ('b, 'f, 'e, unit) rio" where
  "rdb_iter_seek_to_last R p = bnd (get_it p) (\<lambda>i. engine (it_SeekToLast R i))"

definition rdb_iter_seek ::
  "('b, 'f, 'e) rocksdb \<Rightarrow> ptr \<Rightarrow> cptr \<Rightarrow> nat \<Rightarrow> ('b, 'f, 'e, unit) rio" where
  "rdb_iter_seek R p k klen = bnd (get_it p) (\<lambda>i. bnd (c_read k klen) (\<lambda>key.
     engine (it_Seek R i key)))"

definition rdb_iter_seek_for_prev ::
  "('b, 'f, 'e) rocksdb \<Rightarrow> ptr \<Rightarrow> cptr \<Rightarrow> nat \<Rightarrow> ('b, 'f, 'e, unit) rio" where
  "rdb_iter_seek_for_prev R p k klen = bnd (get_it p) (\<lambda>i. bnd (c_read k klen) (\<lambda>key.
     engine (it_SeekForPrev R i key)))"

definition rdb_iter_next :: "('b, 'f, 'e) rocksdb \<Rightarrow> ptr \<Rightarrow> ('b, 'f, 'e, unit) rio" where
  "rdb_iter_next R p = bnd (get_it p) (\<lambda>i. engine (it_Next R i))"

definition rdb_iter_prev :: "('b, 'f, 'e) rocksdb \<Rightarrow> ptr \<Rightarrow> ('b, 'f, 'e, unit) rio" where
  "rdb_iter_prev R p = bnd (get_it p) (\<lambda>i. engine (it_Prev R i))"

text \<open>A RocksDB slice's \<open>data()\<close> points into memory of the engine.\<close>

definition rdb_iter_key :: "('b, 'f, 'e) rocksdb \<Rightarrow> ptr \<Rightarrow> ('b, 'f, 'e, cptr \<times> nat) rio" where
  "rdb_iter_key R p = bnd (get_it p) (\<lambda>i. bnd (engine (it_key R i)) (\<lambda>s.
     ret (Borrowed s, length s)))"

definition rdb_iter_value :: "('b, 'f, 'e) rocksdb \<Rightarrow> ptr \<Rightarrow> ('b, 'f, 'e, cptr \<times> nat) rio" where
  "rdb_iter_value R p = bnd (get_it p) (\<lambda>i. bnd (engine (it_value R i)) (\<lambda>s.
     ret (Borrowed s, length s)))"

definition rdb_iter_get_error ::
  "('b, 'f, 'e) rocksdb \<Rightarrow> ptr \<Rightarrow> cptr \<Rightarrow> ('b, 'f, 'e, cptr) rio" where
  "rdb_iter_get_error R p errptr = bnd (get_it p) (\<lambda>i. bnd (engine (it_status R i)) (\<lambda>s.
     bnd (SaveError errptr s) (\<lambda>(err, _). ret err)))"

section \<open>rdb_snapshot_t and rdb_checkpoint_t\<close>

definition rdb_create_snapshot :: "('b, 'f, 'e) rocksdb \<Rightarrow> ptr \<Rightarrow> ('b, 'f, 'e, ptr) rio" where
  "rdb_create_snapshot R db =
     bnd (get_db db) (\<lambda>d. bnd (engine (db_GetSnapshot R d)) (\<lambda>s. c_new (Obj (SnapObj s))))"

definition rdb_release_snapshot :: "('b, 'f, 'e) rocksdb \<Rightarrow> ptr \<Rightarrow> ptr \<Rightarrow> ('b, 'f, 'e, unit) rio" where
  "rdb_release_snapshot R db snap =
     bnd (get_db db) (\<lambda>d. bnd (get_snap snap) (\<lambda>s.
     andthen (engine (db_ReleaseSnapshot R d s)) (c_delete snap)))"

definition rdb_create_checkpoint ::
  "('b, 'f, 'e) rocksdb \<Rightarrow> ptr \<Rightarrow> cptr \<Rightarrow> ('b, 'f, 'e, ptr \<times> cptr) rio" where
  "rdb_create_checkpoint R db errptr =
     bnd (get_db db) (\<lambda>d. bnd (engine (cp_Create R d)) (\<lambda>(s, c).
     bnd (SaveError errptr s) (\<lambda>(err, failed).
       if failed then ret (0, err)
       else bnd (c_new (Obj (ChkObj c))) (\<lambda>p. ret (p, err)))))"

definition rdb_open_checkpoint ::
  "('b, 'f, 'e) rocksdb \<Rightarrow> ptr \<Rightarrow> cptr \<Rightarrow> cptr \<Rightarrow> ('b, 'f, 'e, cptr) rio" where
  "rdb_open_checkpoint R p checkpoint_dir errptr =
     bnd (get_chk p) (\<lambda>c. bnd (c_string checkpoint_dir) (\<lambda>dir.
     bnd (engine (cp_CreateCheckpoint R c dir)) (\<lambda>s.
     bnd (SaveError errptr s) (\<lambda>(err, _). ret err))))"

text \<open>Only the RocksDB object is deleted, not the \<open>rdb_checkpoint_t\<close> that holds it.\<close>

definition rdb_destroy_checkpoint :: "('b, 'f, 'e) rocksdb \<Rightarrow> ptr \<Rightarrow> ('b, 'f, 'e, unit) rio" where
  "rdb_destroy_checkpoint R p = bnd (get_chk p) (\<lambda>c. engine (cp_delete R c))"

section \<open>The calculus on the world\<close>

lemma wp_engine [wp_simps, simp]:
  "wp (engine f) Q w = (case f (eng w) of (r, e) \<Rightarrow> Q r (w\<lparr>eng := e\<rparr>))"
  by (simp add: wp_def engine_def split: prod.splits)

lemma wp_get_db [wp_simps, simp]:
  "wp (get_db p) Q w = (p \<noteq> 0 \<and> (\<exists>d. c_heap w p = Some (Obj (DbObj d)) \<and> Q d w))"
  by (simp add: get_db_def wp_def bnd_def c_get_def split: option.splits cobj.splits obj.splits)

lemma wp_get_opt [wp_simps, simp]:
  "wp (get_opt p) Q w = (p \<noteq> 0 \<and> (\<exists>d. c_heap w p = Some (Obj (OptObj d)) \<and> Q d w))"
  by (simp add: get_opt_def wp_def bnd_def c_get_def split: option.splits cobj.splits obj.splits)

lemma wp_get_ro [wp_simps, simp]:
  "wp (get_ro p) Q w = (p \<noteq> 0 \<and> (\<exists>d. c_heap w p = Some (Obj (RoObj d)) \<and> Q d w))"
  by (simp add: get_ro_def wp_def bnd_def c_get_def split: option.splits cobj.splits obj.splits)

lemma wp_get_wo [wp_simps, simp]:
  "wp (get_wo p) Q w = (p \<noteq> 0 \<and> (\<exists>d. c_heap w p = Some (Obj (WoObj d)) \<and> Q d w))"
  by (simp add: get_wo_def wp_def bnd_def c_get_def split: option.splits cobj.splits obj.splits)

lemma wp_get_wb [wp_simps, simp]:
  "wp (get_wb p) Q w = (p \<noteq> 0 \<and> (\<exists>d. c_heap w p = Some (Obj (WbObj d)) \<and> Q d w))"
  by (simp add: get_wb_def wp_def bnd_def c_get_def split: option.splits cobj.splits obj.splits)

lemma wp_get_it [wp_simps, simp]:
  "wp (get_it p) Q w = (p \<noteq> 0 \<and> (\<exists>d. c_heap w p = Some (Obj (ItObj d)) \<and> Q d w))"
  by (simp add: get_it_def wp_def bnd_def c_get_def split: option.splits cobj.splits obj.splits)

lemma wp_get_cache [wp_simps, simp]:
  "wp (get_cache p) Q w = (p \<noteq> 0 \<and> (\<exists>d. c_heap w p = Some (Obj (CacheObj d)) \<and> Q d w))"
  by (simp add: get_cache_def wp_def bnd_def c_get_def split: option.splits cobj.splits obj.splits)

lemma wp_get_bbto [wp_simps, simp]:
  "wp (get_bbto p) Q w = (p \<noteq> 0 \<and> (\<exists>d. c_heap w p = Some (Obj (BbtoObj d)) \<and> Q d w))"
  by (simp add: get_bbto_def wp_def bnd_def c_get_def split: option.splits cobj.splits obj.splits)

lemma wp_get_snap [wp_simps, simp]:
  "wp (get_snap p) Q w = (p \<noteq> 0 \<and> (\<exists>d. c_heap w p = Some (Obj (SnapObj d)) \<and> Q d w))"
  by (simp add: get_snap_def wp_def bnd_def c_get_def split: option.splits cobj.splits obj.splits)

lemma wp_get_chk [wp_simps, simp]:
  "wp (get_chk p) Q w = (p \<noteq> 0 \<and> (\<exists>d. c_heap w p = Some (Obj (ChkObj d)) \<and> Q d w))"
  by (simp add: get_chk_def wp_def bnd_def c_get_def split: option.splits cobj.splits obj.splits)

lemma wp_get_fp [wp_simps, simp]:
  "wp (get_fp p) Q w = (p \<noteq> 0 \<and> (\<exists>x n. c_heap w p = Some (Obj (FpObj x n)) \<and> Q (x, n) w))"
  by (simp add: get_fp_def wp_def bnd_def c_get_def split: option.splits cobj.splits obj.splits)

lemma c_ok_eng [simp]: "c_ok (w\<lparr>eng := e\<rparr>) = c_ok w"
  by (rule iffI; erule c_ok_frame) simp_all

text \<open>An error is stored exactly when the status is not ok.\<close>

lemma wp_SaveError_Null [simp]:
  "wp (SaveError Null s) Q w =
     (if st_ok s then Q (Null, False) w
      else Q (CPtr (c_brk w), True)
        (w\<lparr>c_heap := (c_heap w)(c_brk w \<mapsto> Chars (cstr (st_text s) @ [NUL])),
           c_brk := Suc (c_brk w)\<rparr>))"
  by (simp add: SaveError_def)

end
