(* ===== verification/Rdb_Options.thy ===== *)
theory Rdb_Options
  imports Rdbc
begin

text \<open>
  The option structs of package rdb: \<^verbatim>\<open>options.go\<close>, \<^verbatim>\<open>options_read.go\<close>, \<^verbatim>\<open>options_write.go\<close>,
  \<^verbatim>\<open>options_block_based_table.go\<close>, \<^verbatim>\<open>cache.go\<close> and \<^verbatim>\<open>filter_policy.go\<close>, with the
  callbacks through which RocksDB calls a Go filter policy.
\<close>

section \<open>Shared Go structs\<close>

definition go_new :: "gobj \<Rightarrow> ('b, 'f, 'e, ptr) rio" where
  "go_new x = (\<lambda>w. Inr (go_brk w,
     w\<lparr>go_heap := (go_heap w)(go_brk w \<mapsto> x), go_brk := Suc (go_brk w)\<rparr>))"

definition go_bbto :: "ptr \<Rightarrow> ('b, 'f, 'e, BlockBasedTableOptions) rio" where
  "go_bbto p = (\<lambda>w. case go_heap w p of Some (GBbto b) \<Rightarrow> Inr (b, w) | _ \<Rightarrow> Inl NilDeref)"

definition go_cache :: "ptr \<Rightarrow> ('b, 'f, 'e, Cache) rio" where
  "go_cache p = (\<lambda>w. case go_heap w p of Some (GCache c) \<Rightarrow> Inr (c, w) | _ \<Rightarrow> Inl NilDeref)"

definition go_set :: "ptr \<Rightarrow> gobj \<Rightarrow> ('b, 'f, 'e, unit) rio" where
  "go_set p x = (\<lambda>w. if go_heap w p = None then Inl NilDeref
     else Inr ((), w\<lparr>go_heap := (go_heap w)(p \<mapsto> x)\<rparr>))"

section \<open>Options\<close>

record Options =
  op_c :: ptr
  op_bbto :: ptr

definition NewNativeOptions :: "ptr \<Rightarrow> Options" where
  "NewNativeOptions c = \<lparr>op_c = c, op_bbto = 0\<rparr>"

definition NewDefaultOptions :: "('b, 'f, 'e) rocksdb \<Rightarrow> ('b, 'f, 'e, Options) rio" where
  "NewDefaultOptions R = bnd (rdb_options_create R) (\<lambda>c. ret (NewNativeOptions c))"

definition SetCreateIfMissing :: "Options \<Rightarrow> bool \<Rightarrow> ('b, 'f, 'e, unit) rio" where
  "SetCreateIfMissing opts value = rdb_options_set_create_if_missing (op_c opts) (boolToChar value)"

definition SetBlockBasedTableFactory ::
  "('b, 'f, 'e) rocksdb \<Rightarrow> Options \<Rightarrow> ptr \<Rightarrow> ('b, 'f, 'e, Options) rio" where
  "SetBlockBasedTableFactory R opts value =
     (let opts' = opts\<lparr>op_bbto := value\<rparr> in
      bnd (go_bbto value) (\<lambda>b.
      andthen (rdb_options_set_block_based_table_factory R (op_c opts') (bo_c b)) (ret opts')))"

section \<open>ReadOptions and WriteOptions\<close>

record ReadOptions =
  ro_c :: ptr

record WriteOptions =
  wo_c :: ptr

definition NewNativeReadOptions :: "ptr \<Rightarrow> ReadOptions" where
  "NewNativeReadOptions c = \<lparr>ro_c = c\<rparr>"

definition NewDefaultReadOptions :: "('b, 'f, 'e) rocksdb \<Rightarrow> ('b, 'f, 'e, ReadOptions) rio" where
  "NewDefaultReadOptions R = bnd (rdb_readoptions_create R) (\<lambda>c. ret (NewNativeReadOptions c))"

definition ReadOptions_Destroy :: "ReadOptions \<Rightarrow> ('b, 'f, 'e, ReadOptions) rio" where
  "ReadOptions_Destroy opts =
     andthen (rdb_readoptions_destroy (ro_c opts)) (ret (opts\<lparr>ro_c := 0\<rparr>))"

definition SetFillCache :: "ReadOptions \<Rightarrow> bool \<Rightarrow> ('b, 'f, 'e, unit) rio" where
  "SetFillCache opts value = rdb_readoptions_set_fill_cache (ro_c opts) (boolToChar value)"

text \<open>A Go snapshot handle (\<^verbatim>\<open>snapshot.go\<close>); the argument may be nil.\<close>

record Snapshot =
  sn_c :: ptr
  sn_cDb :: ptr

definition SetSnapshot :: "ReadOptions \<Rightarrow> Snapshot option \<Rightarrow> ('b, 'f, 'e, unit) rio" where
  "SetSnapshot opts snap = (case snap of
     None \<Rightarrow> rdb_readoptions_set_snapshot (ro_c opts) 0
   | Some s \<Rightarrow> rdb_readoptions_set_snapshot (ro_c opts) (sn_c s))"

definition NewNativeWriteOptions :: "ptr \<Rightarrow> WriteOptions" where
  "NewNativeWriteOptions c = \<lparr>wo_c = c\<rparr>"

definition NewDefaultWriteOptions :: "('b, 'f, 'e) rocksdb \<Rightarrow> ('b, 'f, 'e, WriteOptions) rio" where
  "NewDefaultWriteOptions R = bnd (rdb_writeoptions_create R) (\<lambda>c. ret (NewNativeWriteOptions c))"

definition SetSync :: "WriteOptions \<Rightarrow> bool \<Rightarrow> ('b, 'f, 'e, unit) rio" where
  "SetSync opts value = rdb_writeoptions_set_sync (wo_c opts) (boolToChar value)"

definition WriteOptions_Destroy :: "WriteOptions \<Rightarrow> ('b, 'f, 'e, WriteOptions) rio" where
  "WriteOptions_Destroy opts =
     andthen (rdb_writeoptions_destroy (wo_c opts)) (ret (opts\<lparr>wo_c := 0\<rparr>))"

section \<open>Cache\<close>

definition NewNativeCache :: "ptr \<Rightarrow> ('b, 'f, 'e, ptr) rio" where
  "NewNativeCache c = go_new (GCache \<lparr>ca_c = c\<rparr>)"

definition NewLRUCache_go :: "('b, 'f, 'e) rocksdb \<Rightarrow> int \<Rightarrow> ('b, 'f, 'e, ptr) rio" where
  "NewLRUCache_go R capacity = bnd (rdb_cache_create_lru R (to_size capacity)) NewNativeCache"

definition Cache_Destroy :: "ptr \<Rightarrow> ('b, 'f, 'e, unit) rio" where
  "Cache_Destroy p = bnd (go_cache p) (\<lambda>c.
     andthen (rdb_cache_destroy (ca_c c)) (go_set p (GCache (c\<lparr>ca_c := 0\<rparr>))))"

section \<open>Filter policies\<close>

definition NewNativeFilterPolicy :: "ptr \<Rightarrow> FilterPolicy" where
  "NewNativeFilterPolicy c = nativeFilterPolicy c"

fun CreateFilter :: "FilterPolicy \<Rightarrow> bytes list \<Rightarrow> bytes" where
  "CreateFilter (nativeFilterPolicy c) keys = []"
| "CreateFilter (UserPolicy create may_match name) keys = create keys"

fun KeyMayMatch :: "FilterPolicy \<Rightarrow> bytes \<Rightarrow> bytes \<Rightarrow> bool" where
  "KeyMayMatch (nativeFilterPolicy c) key filt = False"
| "KeyMayMatch (UserPolicy create may_match name) key filt = may_match key filt"

fun Name :: "FilterPolicy \<Rightarrow> bytes" where
  "Name (nativeFilterPolicy c) = []"
| "Name (UserPolicy create may_match name) = name"

definition NewBloomFilter :: "('b, 'f, 'e) rocksdb \<Rightarrow> int \<Rightarrow> ('b, 'f, 'e, FilterPolicy) rio" where
  "NewBloomFilter R bitsPerKey =
     bnd (rdb_filterpolicy_create_bloom R (to_cint bitsPerKey)) (\<lambda>c. ret (NewNativeFilterPolicy c))"

definition registerFilterPolicy :: "FilterPolicy \<Rightarrow> ('b, 'f, 'e, nat) rio" where
  "registerFilterPolicy fp = (\<lambda>w. Inr (length (filterPolicies w),
     w\<lparr>filterPolicies := filterPolicies w @ [fp]\<rparr>))"

text \<open>\<open>filterPolicies[idx]\<close>, with Go's bounds check.\<close>

definition policy_at :: "nat \<Rightarrow> ('b, 'f, 'e, FilterPolicy) rio" where
  "policy_at idx = (\<lambda>w. if idx < length (filterPolicies w) then Inr (filterPolicies w ! idx, w)
     else Inl (Panic ''index out of range''))"

text \<open>
  The callbacks exported to C. The filter is returned in a block of the C heap, the name as
  a pointer to the Go string's own bytes.
\<close>

definition rdbc_filterpolicy_create_filter ::
  "nat \<Rightarrow> cptr list \<Rightarrow> nat list \<Rightarrow> int \<Rightarrow> ('b, 'f, 'e, cptr \<times> nat) rio" where
  "rdbc_filterpolicy_create_filter idx cKeys cKeysLen cNumKeys =
     (let rawKeys = charSlice cKeys cNumKeys; keysLen = sizeSlice cKeysLen cNumKeys in
      if cNumKeys < 0 then fail (Panic ''makeslice: len out of range'')
      else bnd (io_map [0..<nat cNumKeys] (\<lambda>i.
             bnd (h_index keysLen (int i)) (\<lambda>len.
             bnd (h_index rawKeys (int i)) (\<lambda>raw. h_bytes (charToByte raw len))))) (\<lambda>keys.
           bnd (policy_at idx) (\<lambda>fp.
           let dst = CreateFilter fp keys in
           bnd (cByteSlice dst) (\<lambda>p. ret (p, length dst)))))"

definition rdbc_filterpolicy_key_may_match ::
  "nat \<Rightarrow> cptr \<Rightarrow> nat \<Rightarrow> cptr \<Rightarrow> nat \<Rightarrow> ('b, 'f, 'e, 8 word) rio" where
  "rdbc_filterpolicy_key_may_match idx cKey cKeyLen cFilter cFilterLen =
     bnd (h_bytes (charToByte cKey cKeyLen)) (\<lambda>key.
     bnd (h_bytes (charToByte cFilter cFilterLen)) (\<lambda>filt.
     bnd (policy_at idx) (\<lambda>fp. ret (boolToChar (KeyMayMatch fp key filt)))))"

definition rdbc_filterpolicy_name :: "nat \<Rightarrow> ('b, 'f, 'e, cptr) rio" where
  "rdbc_filterpolicy_name idx = bnd (policy_at idx) (\<lambda>fp. ret (stringToChar (Name fp)))"

definition rdbc_filterpolicy_delete_filter :: "cptr \<Rightarrow> nat \<Rightarrow> ('b, 'f, 'e, unit) rio" where
  "rdbc_filterpolicy_delete_filter v n = ret ()"

text \<open>
  The virtual methods of the shim's policy objects, as RocksDB calls them: keys are pointer
  and length pairs, the filter is appended to a string.
\<close>

definition fpolicy_CreateFilter ::
  "('b, 'f, 'e) rocksdb \<Rightarrow> fpolicy \<Rightarrow> (cptr \<times> nat) list \<Rightarrow> bytes \<Rightarrow> ('b, 'f, 'e, bytes) rio" where
  "fpolicy_CreateFilter R x keys dst = (case x of
     GoFilter idx \<Rightarrow>
       bnd (rdbc_filterpolicy_create_filter idx (map fst keys) (map snd keys) (int (length keys)))
         (\<lambda>(filt, len). bnd (c_read filt len) (\<lambda>bs.
            andthen (rdbc_filterpolicy_delete_filter filt len) (ret (dst @ bs))))
   | BloomFilter rep \<Rightarrow>
       bnd (io_map keys (\<lambda>(p, n). c_read p n)) (\<lambda>ks.
       bnd (engine (fp_CreateFilter R rep ks)) (\<lambda>bs. ret (dst @ bs))))"

definition fpolicy_KeyMayMatch ::
  "('b, 'f, 'e) rocksdb \<Rightarrow> fpolicy \<Rightarrow> (cptr \<times> nat) \<Rightarrow> (cptr \<times> nat) \<Rightarrow> ('b, 'f, 'e, bool) rio" where
  "fpolicy_KeyMayMatch R x key filt = (case x of
     GoFilter idx \<Rightarrow>
       bnd (rdbc_filterpolicy_key_may_match idx (fst key) (snd key) (fst filt) (snd filt))
         (\<lambda>c. ret (c \<noteq> 0))
   | BloomFilter rep \<Rightarrow>
       bnd (c_read (fst key) (snd key)) (\<lambda>k. bnd (c_read (fst filt) (snd filt)) (\<lambda>f.
       engine (fp_KeyMayMatch R rep k f))))"

definition fpolicy_Name_go :: "nat \<Rightarrow> ('b, 'f, 'e, bytes) rio" where
  "fpolicy_Name_go idx = bnd (rdbc_filterpolicy_name idx) c_string"

section \<open>BlockBasedTableOptions\<close>

definition NewNativeBlockBasedTableOptions :: "ptr \<Rightarrow> ('b, 'f, 'e, ptr) rio" where
  "NewNativeBlockBasedTableOptions c =
     go_new (GBbto \<lparr>bo_c = c, bo_cache = 0, bo_compCache = 0, bo_cFp = 0\<rparr>)"

definition NewDefaultBlockBasedTableOptions ::
  "('b, 'f, 'e) rocksdb \<Rightarrow> ('b, 'f, 'e, ptr) rio" where
  "NewDefaultBlockBasedTableOptions R =
     bnd (rdb_block_based_options_create R) NewNativeBlockBasedTableOptions"

definition BlockBasedTableOptions_Destroy ::
  "('b, 'f, 'e) rocksdb \<Rightarrow> ptr \<Rightarrow> ('b, 'f, 'e, unit) rio" where
  "BlockBasedTableOptions_Destroy R opts =
     bnd (go_bbto opts) (\<lambda>b.
     andthen (rdb_block_based_options_destroy R (bo_c b))
       (go_set opts (GBbto (b\<lparr>bo_c := 0, bo_cache := 0, bo_compCache := 0\<rparr>))))"

definition SetBlockSize :: "ptr \<Rightarrow> int \<Rightarrow> ('b, 'f, 'e, unit) rio" where
  "SetBlockSize opts blockSize =
     bnd (go_bbto opts) (\<lambda>b. rdb_block_based_options_set_block_size (bo_c b) (to_size blockSize))"

definition SetFilterPolicy ::
  "('b, 'f, 'e) rocksdb \<Rightarrow> ptr \<Rightarrow> FilterPolicy \<Rightarrow> ('b, 'f, 'e, unit) rio" where
  "SetFilterPolicy R opts fp =
     bnd (go_bbto opts) (\<lambda>b.
     bnd (case fp of
            nativeFilterPolicy c \<Rightarrow> ret c
          | UserPolicy _ _ _ \<Rightarrow> bnd (registerFilterPolicy fp) rdbc_filterpolicy_create) (\<lambda>cFp.
     andthen (go_set opts (GBbto (b\<lparr>bo_cFp := cFp\<rparr>)))
       (rdb_block_based_options_set_filter_policy R (bo_c b) cFp)))"

definition SetNoBlockCache :: "ptr \<Rightarrow> bool \<Rightarrow> ('b, 'f, 'e, unit) rio" where
  "SetNoBlockCache opts value =
     bnd (go_bbto opts) (\<lambda>b. rdb_block_based_options_set_no_block_cache (bo_c b) (boolToChar value))"

definition SetBlockCache :: "ptr \<Rightarrow> ptr \<Rightarrow> ('b, 'f, 'e, unit) rio" where
  "SetBlockCache opts cache =
     bnd (go_bbto opts) (\<lambda>b.
     andthen (go_set opts (GBbto (b\<lparr>bo_cache := cache\<rparr>)))
       (bnd (go_cache cache) (\<lambda>c. rdb_block_based_options_set_block_cache (bo_c b) (ca_c c))))"

definition SetBlockCacheCompressed :: "ptr \<Rightarrow> ptr \<Rightarrow> ('b, 'f, 'e, unit) rio" where
  "SetBlockCacheCompressed opts cache =
     bnd (go_bbto opts) (\<lambda>b.
     andthen (go_set opts (GBbto (b\<lparr>bo_compCache := cache\<rparr>)))
       (bnd (go_cache cache) (\<lambda>c.
          rdb_block_based_options_set_block_cache_compressed (bo_c b) (ca_c c))))"

definition SetWholeKeyFiltering :: "ptr \<Rightarrow> bool \<Rightarrow> ('b, 'f, 'e, unit) rio" where
  "SetWholeKeyFiltering opts value =
     bnd (go_bbto opts) (\<lambda>b.
       rdb_block_based_options_set_whole_key_filtering (bo_c b) (boolToChar value))"

section \<open>Run equations\<close>

lemma wp_go_new [wp_simps, simp]:
  "wp (go_new x) Q w = Q (go_brk w)
     (w\<lparr>go_heap := (go_heap w)(go_brk w \<mapsto> x), go_brk := Suc (go_brk w)\<rparr>)"
  by (simp add: wp_def go_new_def)

lemma wp_go_bbto [wp_simps, simp]:
  "wp (go_bbto p) Q w = (\<exists>b. go_heap w p = Some (GBbto b) \<and> Q b w)"
  by (simp add: wp_def go_bbto_def split: option.splits gobj.splits)

lemma wp_go_cache [wp_simps, simp]:
  "wp (go_cache p) Q w = (\<exists>c. go_heap w p = Some (GCache c) \<and> Q c w)"
  by (simp add: wp_def go_cache_def split: option.splits gobj.splits)

lemma wp_go_set [wp_simps, simp]:
  "wp (go_set p x) Q w = (go_heap w p \<noteq> None \<and> Q () (w\<lparr>go_heap := (go_heap w)(p \<mapsto> x)\<rparr>))"
  by (simp add: wp_def go_set_def)

lemma wp_policy_at [wp_simps, simp]:
  "wp (policy_at idx) Q w = (idx < length (filterPolicies w) \<and> Q (filterPolicies w ! idx) w)"
  by (simp add: wp_def policy_at_def)

lemma wp_registerFilterPolicy [wp_simps, simp]:
  "wp (registerFilterPolicy fp) Q w =
     Q (length (filterPolicies w)) (w\<lparr>filterPolicies := filterPolicies w @ [fp]\<rparr>)"
  by (simp add: wp_def registerFilterPolicy_def)

lemma c_ok_go [simp]:
  "c_ok (w\<lparr>go_heap := g\<rparr>) = c_ok w" "c_ok (w\<lparr>go_brk := n\<rparr>) = c_ok w"
  "c_ok (w\<lparr>filterPolicies := ps\<rparr>) = c_ok w"
  by (rule iffI; erule c_ok_frame; simp)+

section \<open>The callback path of a Go filter policy\<close>

text \<open>Keys as RocksDB passes them: pointer and length, readable in the current world.\<close>

definition readable :: "('b, 'f, 'e) world \<Rightarrow> cptr \<times> nat \<Rightarrow> bytes \<Rightarrow> bool" where
  "readable w k bs \<longleftrightarrow> snd k = length bs \<and> length bs < 2 ^ 63 \<and> c_read (fst k) (length bs) w = Inr (bs, w)"

lemma readable_h_bytes:
  assumes "readable w (p, n) bs"
  shows "h_bytes (charToByte p n) w = Inr (bs, w)"
  using assms by (simp add: readable_def h_bytes_def charToByte_def)

lemma h_index_map:
  assumes "i < length xs"
  shows "h_index \<lparr>h_data = map f xs, h_len = int (length xs), h_cap = c\<rparr> (int i) s = Inr (f (xs ! i), s)"
  using assms by (simp add: h_index_def)

lemma create_filter_keys:
  assumes "list_all2 (readable w) keys kbs"
  shows "io_map [0..<length keys] (\<lambda>i.
      bnd (h_index (sizeSlice (map snd keys) (int (length keys))) (int i)) (\<lambda>len.
      bnd (h_index (charSlice (map fst keys) (int (length keys))) (int i)) (\<lambda>raw.
        h_bytes (charToByte raw len)))) w = Inr (kbs, w)"
proof -
  have "map (\<lambda>i. kbs ! i) [0..<length keys] = kbs"
    using list_all2_lengthD [OF assms] map_nth by metis
  moreover have "bnd (h_index (sizeSlice (map snd keys) (int (length keys))) (int i)) (\<lambda>len.
      bnd (h_index (charSlice (map fst keys) (int (length keys))) (int i)) (\<lambda>raw.
        h_bytes (charToByte raw len))) w = Inr (kbs ! i, w)" if "i < length keys" for i
  proof -
    have "readable w (fst (keys ! i), snd (keys ! i)) (kbs ! i)"
      using assms that by (simp add: list_all2_nthD)
    from readable_h_bytes [OF this] show ?thesis
      using that by (simp add: bnd_Inr sizeSlice_def charSlice_def h_index_map)
  qed
  ultimately show ?thesis
    using io_map_const [where f = "\<lambda>i. bnd (h_index (sizeSlice (map snd keys) (int (length keys))) (int i)) (\<lambda>len.
      bnd (h_index (charSlice (map fst keys) (int (length keys))) (int i)) (\<lambda>raw.
        h_bytes (charToByte raw len)))" and g = "\<lambda>i. kbs ! i" and s = w and xs = "[0..<length keys]"]
    by simp
qed

text \<open>
  Asking the adapter for a filter gives what the Go policy computes on the keys' bytes. The
  block the filter was returned in stays allocated: the adapter's delete handler is empty.
\<close>

lemma wp_fpolicy_CreateFilter_go:
  assumes "c_ok w" "list_all2 (readable w) keys kbs"
    and "idx < length (filterPolicies w)"
    and "length (CreateFilter (filterPolicies w ! idx) kbs) \<le> 2 ^ 24"
  shows "wp (fpolicy_CreateFilter R (GoFilter idx) keys dst) (\<lambda>r w'.
      let flt = CreateFilter (filterPolicies w ! idx) kbs in
      r = dst @ flt \<and> eng w' = eng w \<and> c_ok w' \<and> filterPolicies w' = filterPolicies w \<and>
      c_heap w' = (if flt = [] then c_heap w else (c_heap w)(c_brk w \<mapsto> Chars flt))) w"
  using assms
  by (simp add: fpolicy_CreateFilter_def rdbc_filterpolicy_create_filter_def
      wp_run [OF create_filter_keys] wp_cByteSlice rdbc_filterpolicy_delete_filter_def Let_def
      c_read_def)

lemma wp_fpolicy_KeyMayMatch_go:
  assumes "readable w key kb" "readable w flt fb" "idx < length (filterPolicies w)"
  shows "wp (fpolicy_KeyMayMatch R (GoFilter idx) key flt) (\<lambda>r w'. w' = w \<and>
      r = KeyMayMatch (filterPolicies w ! idx) kb fb) w"
  using assms readable_h_bytes [of w "fst key" "snd key" kb] readable_h_bytes [of w "fst flt" "snd flt" fb]
  by (simp add: fpolicy_KeyMayMatch_def rdbc_filterpolicy_key_may_match_def wp_run boolToChar_def)

end
