(* ===== verification/Rdb_Db.thy ===== *)
theory Rdb_Db
  imports Rdb_Options
begin

text \<open>
  The database handle of package rdb (\<^verbatim>\<open>db.go\<close>) with write batches, snapshots and
  checkpoints (\<^verbatim>\<open>write_batch.go\<close>, \<^verbatim>\<open>snapshot.go\<close>, \<^verbatim>\<open>checkpoint.go\<close>), and iterators
  (\<^verbatim>\<open>iterator.go\<close>). A Go result \<open>(value, error)\<close> is a sum, \<open>Inl\<close> the error's text; a
  plain error result is an option, \<open>None\<close> for nil. A deferred call is the last step of the
  definition it is deferred in.
\<close>

section \<open>The database handle\<close>

record Range =
  Start :: bytes
  Limit :: bytes

record DB =
  db_c :: ptr
  db_name :: bytes
  db_opts :: Options

text \<open>The error path every call shares: build the Go error, free the C string.\<close>

definition take_err :: "cptr \<Rightarrow> ('b, 'f, 'e, bytes) rio" where
  "take_err cErr = bnd (GoString cErr) (\<lambda>msg. andthen (c_free cErr) (ret msg))"

definition err_result :: "cptr \<Rightarrow> ('b, 'f, 'e, bytes option) rio" where
  "err_result cErr = (if cErr \<noteq> Null then bnd (take_err cErr) (\<lambda>m. ret (Some m)) else ret None)"

definition OpenDb ::
  "('b, 'f, 'e) rocksdb \<Rightarrow> Options \<Rightarrow> bytes \<Rightarrow> ('b, 'f, 'e, bytes + DB) rio" where
  "OpenDb R opts name =
     bnd (CString name) (\<lambda>cName.
     bnd (rdb_open R (op_c opts) cName Null) (\<lambda>(db, cErr).
     bnd (if cErr \<noteq> Null then bnd (take_err cErr) (\<lambda>m. ret (Inl m))
          else ret (Inr \<lparr>db_c = db, db_name = name, db_opts = opts\<rparr>)) (\<lambda>r.
     andthen (c_free cName) (ret r))))"

definition OpenDbForReadOnly ::
  "('b, 'f, 'e) rocksdb \<Rightarrow> Options \<Rightarrow> bytes \<Rightarrow> bool \<Rightarrow> ('b, 'f, 'e, bytes + DB) rio" where
  "OpenDbForReadOnly R opts name errorIfLogFileExist =
     bnd (CString name) (\<lambda>cName.
     bnd (rdb_open_for_read_only R (op_c opts) cName (boolToChar errorIfLogFileExist) Null)
       (\<lambda>(db, cErr).
     bnd (if cErr \<noteq> Null then bnd (take_err cErr) (\<lambda>m. ret (Inl m))
          else ret (Inr \<lparr>db_c = db, db_name = name, db_opts = opts\<rparr>)) (\<lambda>r.
     andthen (c_free cName) (ret r))))"

definition DB_Close :: "('b, 'f, 'e) rocksdb \<Rightarrow> DB \<Rightarrow> ('b, 'f, 'e, unit) rio" where
  "DB_Close R db = rdb_close R (db_c db)"

definition DB_Get ::
  "('b, 'f, 'e) rocksdb \<Rightarrow> DB \<Rightarrow> ReadOptions \<Rightarrow> bytes \<Rightarrow> ('b, 'f, 'e, bytes + Slice) rio" where
  "DB_Get R db opts key =
     bnd (rdb_get R (db_c db) (ro_c opts) (byteToChar key) (length key) Null)
       (\<lambda>(cValue, cValLen, cErr).
     if cErr \<noteq> Null then bnd (take_err cErr) (\<lambda>m. ret (Inl m))
     else ret (Inr (NewSlice cValue cValLen)))"

definition DB_GetBytes ::
  "('b, 'f, 'e) rocksdb \<Rightarrow> DB \<Rightarrow> ReadOptions \<Rightarrow> bytes \<Rightarrow> ('b, 'f, 'e, bytes + bytes option) rio" where
  "DB_GetBytes R db opts key =
     bnd (rdb_get R (db_c db) (ro_c opts) (byteToChar key) (length key) Null)
       (\<lambda>(cValue, cValLen, cErr).
     if cErr \<noteq> Null then bnd (take_err cErr) (\<lambda>m. ret (Inl m))
     else if cValue = Null then ret (Inr None)
     else bnd (GoBytes cValue (to_int32 cValLen)) (\<lambda>bs.
          andthen (c_free cValue) (ret (Inr (Some bs)))))"

definition DB_Put ::
  "('b, 'f, 'e) rocksdb \<Rightarrow> DB \<Rightarrow> WriteOptions \<Rightarrow> bytes \<Rightarrow> bytes \<Rightarrow> ('b, 'f, 'e, bytes option) rio" where
  "DB_Put R db opts key value =
     bnd (rdb_put R (db_c db) (wo_c opts) (byteToChar key) (length key)
            (byteToChar value) (length value) Null) err_result"

definition DB_Delete ::
  "('b, 'f, 'e) rocksdb \<Rightarrow> DB \<Rightarrow> WriteOptions \<Rightarrow> bytes \<Rightarrow> ('b, 'f, 'e, bytes option) rio" where
  "DB_Delete R db opts key =
     bnd (rdb_delete R (db_c db) (wo_c opts) (byteToChar key) (length key) Null) err_result"

text \<open>Write batches, used by \<open>DB_Write\<close>.\<close>

record WriteBatch =
  wb_c :: ptr

definition NewNativeWriteBatch :: "ptr \<Rightarrow> WriteBatch" where
  "NewNativeWriteBatch c = \<lparr>wb_c = c\<rparr>"

definition NewWriteBatch :: "('b, 'f, 'e) rocksdb \<Rightarrow> ('b, 'f, 'e, WriteBatch) rio" where
  "NewWriteBatch R = bnd (rdb_writebatch_create R) (\<lambda>c. ret (NewNativeWriteBatch c))"

definition WriteBatchFrom :: "('b, 'f, 'e) rocksdb \<Rightarrow> bytes \<Rightarrow> ('b, 'f, 'e, WriteBatch) rio" where
  "WriteBatchFrom R data =
     bnd (rdb_writebatch_create_from R (byteToChar data) (length data)) (\<lambda>c.
       ret (NewNativeWriteBatch c))"

definition WriteBatch_Put ::
  "('b, 'f, 'e) rocksdb \<Rightarrow> WriteBatch \<Rightarrow> bytes \<Rightarrow> bytes \<Rightarrow> ('b, 'f, 'e, unit) rio" where
  "WriteBatch_Put R wb key value =
     rdb_writebatch_put R (wb_c wb) (byteToChar key) (length key) (byteToChar value) (length value)"

definition WriteBatch_Delete ::
  "('b, 'f, 'e) rocksdb \<Rightarrow> WriteBatch \<Rightarrow> bytes \<Rightarrow> ('b, 'f, 'e, unit) rio" where
  "WriteBatch_Delete R wb key =
     rdb_writebatch_delete R (wb_c wb) (byteToChar key) (length key)"

definition WriteBatch_Count ::
  "('b, 'f, 'e) rocksdb \<Rightarrow> WriteBatch \<Rightarrow> ('b, 'f, 'e, int) rio" where
  "WriteBatch_Count R wb = rdb_writebatch_count R (wb_c wb)"

definition WriteBatch_Clear ::
  "('b, 'f, 'e) rocksdb \<Rightarrow> WriteBatch \<Rightarrow> ('b, 'f, 'e, unit) rio" where
  "WriteBatch_Clear R wb = rdb_writebatch_clear R (wb_c wb)"

definition WriteBatch_Destroy :: "WriteBatch \<Rightarrow> ('b, 'f, 'e, WriteBatch) rio" where
  "WriteBatch_Destroy wb = andthen (rdb_writebatch_destroy (wb_c wb)) (ret (wb\<lparr>wb_c := 0\<rparr>))"

definition DB_Write ::
  "('b, 'f, 'e) rocksdb \<Rightarrow> DB \<Rightarrow> WriteOptions \<Rightarrow> WriteBatch \<Rightarrow> ('b, 'f, 'e, bytes option) rio" where
  "DB_Write R db opts batch =
     bnd (rdb_write R (db_c db) (wo_c opts) (wb_c batch) Null) err_result"

text \<open>\<open>cValue\<close> is freed before \<open>cprop\<close>: deferred calls run last in, first out.\<close>

definition DB_GetProperty ::
  "('b, 'f, 'e) rocksdb \<Rightarrow> DB \<Rightarrow> bytes \<Rightarrow> ('b, 'f, 'e, bytes) rio" where
  "DB_GetProperty R db propName =
     bnd (CString propName) (\<lambda>cprop.
     bnd (rdb_property_value R (db_c db) cprop) (\<lambda>cValue.
     bnd (GoString cValue) (\<lambda>s.
     andthen (c_free cValue) (andthen (c_free cprop) (ret s)))))"

definition DB_GetStats :: "('b, 'f, 'e) rocksdb \<Rightarrow> DB \<Rightarrow> ('b, 'f, 'e, bytes) rio" where
  "DB_GetStats R db = DB_GetProperty R db ''rocksdb.stats''"

section \<open>Snapshots and checkpoints\<close>

definition NewNativeSnapshot :: "ptr \<Rightarrow> ptr \<Rightarrow> Snapshot" where
  "NewNativeSnapshot c cDb = \<lparr>sn_c = c, sn_cDb = cDb\<rparr>"

definition Snapshot_Release ::
  "('b, 'f, 'e) rocksdb \<Rightarrow> Snapshot \<Rightarrow> ('b, 'f, 'e, Snapshot) rio" where
  "Snapshot_Release R s =
     andthen (rdb_release_snapshot R (sn_cDb s) (sn_c s)) (ret (s\<lparr>sn_c := 0, sn_cDb := 0\<rparr>))"

definition DB_NewSnapshot :: "('b, 'f, 'e) rocksdb \<Rightarrow> DB \<Rightarrow> ('b, 'f, 'e, Snapshot) rio" where
  "DB_NewSnapshot R db =
     bnd (rdb_create_snapshot R (db_c db)) (\<lambda>cSnap. ret (NewNativeSnapshot cSnap (db_c db)))"

record Checkpoint =
  cp_c :: ptr
  cp_cDb :: ptr

definition Checkpoint_Destroy ::
  "('b, 'f, 'e) rocksdb \<Rightarrow> Checkpoint \<Rightarrow> ('b, 'f, 'e, Checkpoint) rio" where
  "Checkpoint_Destroy R s =
     andthen (rdb_destroy_checkpoint R (cp_c s)) (ret (s\<lparr>cp_c := 0, cp_cDb := 0\<rparr>))"

definition DB_NewCheckpoint ::
  "('b, 'f, 'e) rocksdb \<Rightarrow> DB \<Rightarrow> ('b, 'f, 'e, bytes + Checkpoint) rio" where
  "DB_NewCheckpoint R db =
     bnd (rdb_create_checkpoint R (db_c db) Null) (\<lambda>(cCheck, cErr).
     if cErr \<noteq> Null then bnd (take_err cErr) (\<lambda>m. ret (Inl m))
     else ret (Inr \<lparr>cp_c = cCheck, cp_cDb = db_c db\<rparr>))"

definition Checkpoint_Save ::
  "('b, 'f, 'e) rocksdb \<Rightarrow> Checkpoint \<Rightarrow> bytes \<Rightarrow> ('b, 'f, 'e, bytes option) rio" where
  "Checkpoint_Save R s checkpointDir =
     bnd (CString checkpointDir) (\<lambda>cDir.
     bnd (rdb_open_checkpoint R (cp_c s) cDir Null) (\<lambda>cErr.
     bnd (err_result cErr) (\<lambda>r. andthen (c_free cDir) (ret r))))"

section \<open>Iterators\<close>

record Iterator =
  itr_c :: ptr

definition NewNativeIterator :: "ptr \<Rightarrow> Iterator" where
  "NewNativeIterator c = \<lparr>itr_c = c\<rparr>"

definition DB_NewIterator ::
  "('b, 'f, 'e) rocksdb \<Rightarrow> DB \<Rightarrow> ReadOptions \<Rightarrow> ('b, 'f, 'e, Iterator) rio" where
  "DB_NewIterator R db opts =
     bnd (rdb_create_iterator R (db_c db) (ro_c opts)) (\<lambda>cIter. ret (NewNativeIterator cIter))"

definition Iterator_Valid :: "('b, 'f, 'e) rocksdb \<Rightarrow> Iterator \<Rightarrow> ('b, 'f, 'e, bool) rio" where
  "Iterator_Valid R iter = bnd (rdb_iter_valid R (itr_c iter)) (\<lambda>v. ret (v \<noteq> 0))"

text \<open>The slices handed out are marked freed, so \<open>Slice_Free\<close> never frees engine memory.\<close>

definition Iterator_Key :: "('b, 'f, 'e) rocksdb \<Rightarrow> Iterator \<Rightarrow> ('b, 'f, 'e, Slice option) rio" where
  "Iterator_Key R iter =
     bnd (rdb_iter_key R (itr_c iter)) (\<lambda>(cKey, cLen).
     if cKey = Null then ret None
     else ret (Some \<lparr>sl_data = cKey, sl_size = cLen, sl_freed = True\<rparr>))"

definition Iterator_Value :: "('b, 'f, 'e) rocksdb \<Rightarrow> Iterator \<Rightarrow> ('b, 'f, 'e, Slice option) rio" where
  "Iterator_Value R iter =
     bnd (rdb_iter_value R (itr_c iter)) (\<lambda>(cVal, cLen).
     if cVal = Null then ret None
     else ret (Some \<lparr>sl_data = cVal, sl_size = cLen, sl_freed = True\<rparr>))"

definition ValidForPrefix ::
  "('b, 'f, 'e) rocksdb \<Rightarrow> Iterator \<Rightarrow> bytes \<Rightarrow> ('b, 'f, 'e, bool) rio" where
  "ValidForPrefix R iter pre =
     bnd (rdb_iter_valid R (itr_c iter)) (\<lambda>v.
     if v = 0 then ret False
     else bnd (Iterator_Key R iter) (\<lambda>k. case k of
            None \<Rightarrow> fail NilDeref
          | Some s \<Rightarrow> bnd (h_bytes (Slice_Data s)) (\<lambda>bs. ret (prefix pre bs))))"

definition Iterator_Next :: "('b, 'f, 'e) rocksdb \<Rightarrow> Iterator \<Rightarrow> ('b, 'f, 'e, unit) rio" where
  "Iterator_Next R iter = rdb_iter_next R (itr_c iter)"

definition Iterator_Prev :: "('b, 'f, 'e) rocksdb \<Rightarrow> Iterator \<Rightarrow> ('b, 'f, 'e, unit) rio" where
  "Iterator_Prev R iter = rdb_iter_prev R (itr_c iter)"

definition SeekToFirst :: "('b, 'f, 'e) rocksdb \<Rightarrow> Iterator \<Rightarrow> ('b, 'f, 'e, unit) rio" where
  "SeekToFirst R iter = rdb_iter_seek_to_first R (itr_c iter)"

definition SeekToLast :: "('b, 'f, 'e) rocksdb \<Rightarrow> Iterator \<Rightarrow> ('b, 'f, 'e, unit) rio" where
  "SeekToLast R iter = rdb_iter_seek_to_last R (itr_c iter)"

definition Seek :: "('b, 'f, 'e) rocksdb \<Rightarrow> Iterator \<Rightarrow> bytes \<Rightarrow> ('b, 'f, 'e, unit) rio" where
  "Seek R iter key = rdb_iter_seek R (itr_c iter) (byteToChar key) (length key)"

definition SeekForPrev :: "('b, 'f, 'e) rocksdb \<Rightarrow> Iterator \<Rightarrow> bytes \<Rightarrow> ('b, 'f, 'e, unit) rio" where
  "SeekForPrev R iter key = rdb_iter_seek_for_prev R (itr_c iter) (byteToChar key) (length key)"

definition Iterator_Err :: "('b, 'f, 'e) rocksdb \<Rightarrow> Iterator \<Rightarrow> ('b, 'f, 'e, bytes option) rio" where
  "Iterator_Err R iter = bnd (rdb_iter_get_error R (itr_c iter) Null) err_result"

definition Iterator_Close :: "('b, 'f, 'e) rocksdb \<Rightarrow> Iterator \<Rightarrow> ('b, 'f, 'e, Iterator) rio" where
  "Iterator_Close R iter = andthen (rdb_iter_destroy R (itr_c iter)) (ret (iter\<lparr>itr_c := 0\<rparr>))"

section \<open>What each call does to memory\<close>

text \<open>
  \<open>go_same w w'\<close>: the Go side is untouched.
  \<open>mem_same w w'\<close>: nothing allocated before is lost or changed and nothing is left behind.
\<close>

abbreviation go_same :: "('b, 'f, 'e) world \<Rightarrow> ('b, 'f, 'e) world \<Rightarrow> bool" where
  "go_same w w' \<equiv> go_heap w' = go_heap w \<and> go_brk w' = go_brk w \<and> filterPolicies w' = filterPolicies w"

definition mem_same :: "('b, 'f, 'e) world \<Rightarrow> ('b, 'f, 'e) world \<Rightarrow> bool" where
  "mem_same w w' \<longleftrightarrow> c_ok w' \<and> c_heap w' = c_heap w \<and> go_heap w' = go_heap w \<and>
     go_brk w' = go_brk w \<and> filterPolicies w' = filterPolicies w"

lemma mem_sameI [intro]:
  "c_ok w' \<Longrightarrow> c_heap w' = c_heap w \<Longrightarrow> go_heap w' = go_heap w \<Longrightarrow> go_brk w' = go_brk w \<Longrightarrow>
   filterPolicies w' = filterPolicies w \<Longrightarrow> mem_same w w'"
  by (simp add: mem_same_def)

lemma mem_same_refl [simp]: "c_ok w \<Longrightarrow> mem_same w w"
  by (simp add: mem_same_def)

lemma mem_same_trans: "mem_same w w1 \<Longrightarrow> mem_same w1 w2 \<Longrightarrow> mem_same w w2"
  by (simp add: mem_same_def)

lemma mem_same_heap: "mem_same w w' \<Longrightarrow> c_heap w' = c_heap w"
  by (simp add: mem_same_def)

lemma mem_same_frame:
  "c_ok w \<Longrightarrow> c_heap w' = c_heap w \<Longrightarrow> c_brk w \<le> c_brk w' \<Longrightarrow> go_heap w' = go_heap w \<Longrightarrow>
   go_brk w' = go_brk w \<Longrightarrow> filterPolicies w' = filterPolicies w \<Longrightarrow> mem_same w w'"
  by (auto intro: c_ok_frame)

text \<open>A stored error is handed to Go and its C string is freed.\<close>

lemma wp_take_err [simp]:
  "wp (take_err (CPtr p)) Q w =
     (\<exists>bs. c_heap w p = Some (Chars bs) \<and> NUL \<in> set bs \<and>
           Q (cstr bs) (w\<lparr>c_heap := (c_heap w)(p := None)\<rparr>))"
  by (auto simp: take_err_def)

lemma wp_err_result [simp]:
  "wp (err_result Null) Q w = Q None w"
  "wp (err_result (CPtr p)) Q w =
     (\<exists>bs. c_heap w p = Some (Chars bs) \<and> NUL \<in> set bs \<and>
           Q (Some (cstr bs)) (w\<lparr>c_heap := (c_heap w)(p := None)\<rparr>))"
  by (auto simp: err_result_def)

section \<open>Behaviour of the calls\<close>

text \<open>
  The handles a call is given point to live objects of their types.
\<close>

abbreviation live_db :: "('b, 'f, 'e) world \<Rightarrow> DB \<Rightarrow> nat \<Rightarrow> bool" where
  "live_db w db d \<equiv> c_heap w (db_c db) = Some (Obj (DbObj d))"

abbreviation live_ro :: "('b, 'f, 'e) world \<Rightarrow> ReadOptions \<Rightarrow> readoptions \<Rightarrow> bool" where
  "live_ro w ro opt \<equiv> c_heap w (ro_c ro) = Some (Obj (RoObj opt))"

abbreviation live_wo :: "('b, 'f, 'e) world \<Rightarrow> WriteOptions \<Rightarrow> writeoptions \<Rightarrow> bool" where
  "live_wo w wo opt \<equiv> c_heap w (wo_c wo) = Some (Obj (WoObj opt))"

abbreviation live_wb :: "('b, 'f, 'e) world \<Rightarrow> WriteBatch \<Rightarrow> 'b \<Rightarrow> bool" where
  "live_wb w wb b \<equiv> c_heap w (wb_c wb) = Some (Obj (WbObj b))"

lemma live_nonnull: "c_ok w \<Longrightarrow> c_heap w p = Some x \<Longrightarrow> 0 < p"
  using c_ok_live_neq by fastforce

text \<open>The error a status turns into on the Go side.\<close>

definition status_error :: "status \<Rightarrow> bytes option" where
  "status_error s = (if st_ok s then None else Some (cstr (st_text s)))"

lemmas call_simps = live_nonnull status_error_def split_def Let_def

lemma wp_DB_Put:
  assumes "c_ok w" "live_db w db d" "live_wo w opts opt"
  shows "wp (DB_Put R db opts key value) (\<lambda>r w'. mem_same w w' \<and>
           (r, eng w') = map_prod status_error id (db_Put R d opt key value (eng w))) w"
  using assms
  by (cases "db_Put R d opt key value (eng w)")
    (auto simp: DB_Put_def rdb_put_def call_simps intro!: mem_same_frame)

lemma wp_DB_Delete:
  assumes "c_ok w" "live_db w db d" "live_wo w opts opt"
  shows "wp (DB_Delete R db opts key) (\<lambda>r w'. mem_same w w' \<and>
           (r, eng w') = map_prod status_error id (db_Delete R d opt key (eng w))) w"
  using assms
  by (cases "db_Delete R d opt key (eng w)")
    (auto simp: DB_Delete_def rdb_delete_def call_simps intro!: mem_same_frame)

lemma wp_DB_Write:
  assumes "c_ok w" "live_db w db d" "live_wo w opts opt" "live_wb w batch b"
  shows "wp (DB_Write R db opts batch) (\<lambda>r w'. mem_same w w' \<and>
           (r, eng w') = map_prod status_error id (db_Write R d opt b (eng w))) w"
  using assms
  by (cases "db_Write R d opt b (eng w)")
    (auto simp: DB_Write_def rdb_write_def call_simps intro!: mem_same_frame)

text \<open>What a lookup hands to Go: the value, nothing, or an error.\<close>

definition get_outcome :: "status \<times> bytes \<Rightarrow> bytes + bytes option" where
  "get_outcome = (\<lambda>(s, v). if st_ok s then Inr (Some v)
     else if st_notfound s then Inr None else Inl (cstr (st_text s)))"

lemma wp_DB_Get:
  assumes "c_ok w" "live_db w db d" "live_ro w opts opt"
  shows "wp (DB_Get R db opts key) (\<lambda>r w'. c_ok w' \<and>
           eng w' = snd (db_Get R d opt key (eng w)) \<and>
           (case get_outcome (fst (db_Get R d opt key (eng w))) of
              Inl m \<Rightarrow> r = Inl m \<and> mem_same w w'
            | Inr None \<Rightarrow> r = Inr (NewSlice Null 0) \<and> mem_same w w'
            | Inr (Some v) \<Rightarrow> (\<exists>p. r = Inr (NewSlice (CPtr p) (length v)) \<and> c_heap w p = None \<and>
                c_heap w' = (c_heap w)(p \<mapsto> Chars v) \<and> go_same w w'))) w"
  using assms
  by (cases "db_Get R d opt key (eng w)")
    (auto simp: DB_Get_def rdb_get_def CopyString_def call_simps get_outcome_def
      intro!: mem_same_frame intro: c_ok_frame c_ok_new)

lemma wp_DB_GetBytes:
  assumes "c_ok w" "live_db w db d" "live_ro w opts opt"
    and "length (snd (fst (db_Get R d opt key (eng w)))) < 2 ^ 31"
  shows "wp (DB_GetBytes R db opts key) (\<lambda>r w'. mem_same w w' \<and>
           eng w' = snd (db_Get R d opt key (eng w)) \<and>
           r = get_outcome (fst (db_Get R d opt key (eng w)))) w"
proof -
  obtain s v e where g: "db_Get R d opt key (eng w) = ((s, v), e)"
    by (metis prod.exhaust)
  with assms(4) have len: "to_int32 (length v) = int (length v)" by simp
  from assms(1-3) g len show ?thesis
    by (auto simp: DB_GetBytes_def rdb_get_def CopyString_def call_simps get_outcome_def GoBytes_def
        intro!: mem_same_frame)
qed

lemma wp_DB_GetProperty:
  assumes "c_ok w" "live_db w db d"
  shows "wp (DB_GetProperty R db name) (\<lambda>r w'. mem_same w w' \<and>
           eng w' = snd (db_GetProperty R d (cstr name) (eng w)) \<and>
           r = (case fst (db_GetProperty R d (cstr name) (eng w)) of
                  None \<Rightarrow> [] | Some v \<Rightarrow> cstr v)) w"
  using assms
  by (cases "db_GetProperty R d (cstr name) (eng w)"; cases "fst (db_GetProperty R d (cstr name) (eng w))")
    (auto simp: DB_GetProperty_def rdb_property_value_def call_simps c_ok_live_neq
      intro!: mem_same_frame)

text \<open>Opening: the path is copied to C and freed again; only a successful open allocates.\<close>

definition open_post ::
  "(status \<times> nat) \<times> 'e \<Rightarrow> Options \<Rightarrow> bytes \<Rightarrow> ('b, 'f, 'e) world \<Rightarrow> bytes + DB \<Rightarrow> ('b, 'f, 'e) world \<Rightarrow> bool" where
  "open_post res opts name w r w' \<longleftrightarrow> c_ok w' \<and> go_same w w' \<and> eng w' = snd res \<and>
     (case fst res of (s, d) \<Rightarrow>
        if st_ok s
        then (\<exists>p. r = Inr \<lparr>db_c = p, db_name = name, db_opts = opts\<rparr> \<and>
               c_heap w p = None \<and> c_heap w' = (c_heap w)(p \<mapsto> Obj (DbObj d)))
        else r = Inl (cstr (st_text s)) \<and> mem_same w w')"

lemma wp_OpenDb:
  assumes "c_ok w" "c_heap w (op_c opts) = Some (Obj (OptObj opt))"
  shows "wp (OpenDb R opts name) (open_post (db_Open R opt (cstr name) (eng w)) opts name w) w"
  using assms
  by (cases "db_Open R opt (cstr name) (eng w)"; cases "fst (db_Open R opt (cstr name) (eng w))")
    (auto simp: OpenDb_def rdb_open_def call_simps c_ok_live_neq open_post_def
      intro!: mem_same_frame intro: c_ok_frame c_ok_heap_upd)

lemma wp_OpenDbForReadOnly:
  assumes "c_ok w" "c_heap w (op_c opts) = Some (Obj (OptObj opt))"
  shows "wp (OpenDbForReadOnly R opts name b)
    (open_post (db_OpenForReadOnly R opt (cstr name) b (eng w)) opts name w) w"
  using assms
  by (cases "db_OpenForReadOnly R opt (cstr name) b (eng w)";
      cases "fst (db_OpenForReadOnly R opt (cstr name) b (eng w))"; cases b)
    (auto simp: OpenDbForReadOnly_def rdb_open_for_read_only_def boolToChar_def call_simps
      c_ok_live_neq open_post_def intro!: mem_same_frame intro: c_ok_frame c_ok_heap_upd)

lemma wp_DB_Close:
  assumes "c_ok w" "live_db w db d"
  shows "wp (DB_Close R db) (\<lambda>_ w'. c_ok w' \<and> eng w' = snd (db_delete R d (eng w)) \<and>
     c_heap w' = (c_heap w)(db_c db := None) \<and> go_same w w') w"
  using assms
  by (cases "db_delete R d (eng w)") (auto simp: DB_Close_def rdb_close_def call_simps intro: c_ok_heap_del)

lemma wp_DB_NewSnapshot:
  assumes "c_ok w" "live_db w db d"
  shows "wp (DB_NewSnapshot R db) (\<lambda>r w'. c_ok w' \<and> eng w' = snd (db_GetSnapshot R d (eng w)) \<and>
     sn_cDb r = db_c db \<and> c_heap w (sn_c r) = None \<and> go_same w w' \<and>
     c_heap w' = (c_heap w)(sn_c r \<mapsto> Obj (SnapObj (fst (db_GetSnapshot R d (eng w)))))) w"
  using assms
  by (cases "db_GetSnapshot R d (eng w)")
    (auto simp: DB_NewSnapshot_def rdb_create_snapshot_def NewNativeSnapshot_def call_simps
      intro: c_ok_heap_upd)

lemma wp_Snapshot_Release:
  assumes "c_ok w" "c_heap w (sn_cDb s) = Some (Obj (DbObj d))" "c_heap w (sn_c s) = Some (Obj (SnapObj x))"
  shows "wp (Snapshot_Release R s) (\<lambda>r w'. c_ok w' \<and> eng w' = snd (db_ReleaseSnapshot R d x (eng w)) \<and>
     r = \<lparr>sn_c = 0, sn_cDb = 0\<rparr> \<and> c_heap w' = (c_heap w)(sn_c s := None) \<and> go_same w w') w"
  using assms
  by (cases "db_ReleaseSnapshot R d x (eng w)")
    (auto simp: Snapshot_Release_def rdb_release_snapshot_def call_simps intro: c_ok_heap_del)

lemma wp_DB_NewCheckpoint:
  assumes "c_ok w" "live_db w db d"
  shows "wp (DB_NewCheckpoint R db) (\<lambda>r w'. c_ok w' \<and> go_same w w' \<and>
     eng w' = snd (cp_Create R d (eng w)) \<and>
     (case fst (cp_Create R d (eng w)) of (s, c) \<Rightarrow>
        if st_ok s
        then (\<exists>p. r = Inr \<lparr>cp_c = p, cp_cDb = db_c db\<rparr> \<and> c_heap w p = None \<and>
               c_heap w' = (c_heap w)(p \<mapsto> Obj (ChkObj c)))
        else r = Inl (cstr (st_text s)) \<and> mem_same w w')) w"
  using assms
  by (cases "cp_Create R d (eng w)"; cases "fst (cp_Create R d (eng w))")
    (auto simp: DB_NewCheckpoint_def rdb_create_checkpoint_def call_simps
      intro!: mem_same_frame intro: c_ok_frame c_ok_heap_upd)

lemma wp_Checkpoint_Save:
  assumes "c_ok w" "c_heap w (cp_c s) = Some (Obj (ChkObj c))"
  shows "wp (Checkpoint_Save R s dir) (\<lambda>r w'. mem_same w w' \<and>
     (r, eng w') = map_prod status_error id (cp_CreateCheckpoint R c (cstr dir) (eng w))) w"
  using assms
  by (cases "cp_CreateCheckpoint R c (cstr dir) (eng w)")
    (auto simp: Checkpoint_Save_def rdb_open_checkpoint_def call_simps c_ok_live_neq
      intro!: mem_same_frame)

lemma wp_Checkpoint_Destroy:
  assumes "c_ok w" "c_heap w (cp_c s) = Some (Obj (ChkObj c))"
  shows "wp (Checkpoint_Destroy R s) (\<lambda>r w'. mem_same w w' \<and> r = \<lparr>cp_c = 0, cp_cDb = 0\<rparr> \<and>
     eng w' = snd (cp_delete R c (eng w))) w"
  using assms
  by (cases "cp_delete R c (eng w)")
    (auto simp: Checkpoint_Destroy_def rdb_destroy_checkpoint_def call_simps intro!: mem_same_frame)

subsection \<open>Write batches\<close>

lemma wp_NewWriteBatch:
  assumes "c_ok w"
  shows "wp (NewWriteBatch R) (\<lambda>wb w'. c_ok w' \<and> c_heap w (wb_c wb) = None \<and> eng w' = eng w \<and>
    go_same w w' \<and> c_heap w' = (c_heap w)(wb_c wb \<mapsto> Obj (WbObj (wb_new R)))) w"
  using assms by (simp add: NewWriteBatch_def rdb_writebatch_create_def NewNativeWriteBatch_def)

lemma wp_WriteBatch_Put:
  assumes "c_ok w" "live_wb w wb b"
  shows "wp (WriteBatch_Put R wb key value) (\<lambda>_ w'. c_ok w' \<and> eng w' = eng w \<and>
    go_same w w' \<and> c_heap w' = (c_heap w)(wb_c wb \<mapsto> Obj (WbObj (wb_Put R b key value)))) w"
  using assms
  by (auto simp: WriteBatch_Put_def rdb_writebatch_put_def live_nonnull c_ok_upd)

lemma wp_WriteBatch_Delete:
  assumes "c_ok w" "live_wb w wb b"
  shows "wp (WriteBatch_Delete R wb key) (\<lambda>_ w'. c_ok w' \<and> eng w' = eng w \<and>
    go_same w w' \<and> c_heap w' = (c_heap w)(wb_c wb \<mapsto> Obj (WbObj (wb_Delete R b key)))) w"
  using assms
  by (auto simp: WriteBatch_Delete_def rdb_writebatch_delete_def live_nonnull c_ok_upd)

lemma wp_WriteBatch_Clear:
  assumes "c_ok w" "live_wb w wb b"
  shows "wp (WriteBatch_Clear R wb) (\<lambda>_ w'. c_ok w' \<and> eng w' = eng w \<and>
    go_same w w' \<and> c_heap w' = (c_heap w)(wb_c wb \<mapsto> Obj (WbObj (wb_Clear R b)))) w"
  using assms
  by (auto simp: WriteBatch_Clear_def rdb_writebatch_clear_def live_nonnull c_ok_upd)

lemma wp_WriteBatch_Count:
  assumes "c_ok w" "live_wb w wb b"
  shows "wp (WriteBatch_Count R wb) (\<lambda>r w'. w' = w \<and> r = to_int32 (wb_Count R b)) w"
  using assms
  by (auto simp: WriteBatch_Count_def rdb_writebatch_count_def live_nonnull)

lemma wp_WriteBatch_Destroy:
  assumes "c_ok w" "live_wb w wb b"
  shows "wp (WriteBatch_Destroy wb) (\<lambda>r w'. c_ok w' \<and> r = \<lparr>wb_c = 0\<rparr> \<and> eng w' = eng w \<and>
    go_same w w' \<and> c_heap w' = (c_heap w)(wb_c wb := None)) w"
  using assms
  by (auto simp: WriteBatch_Destroy_def rdb_writebatch_destroy_def live_nonnull)

subsection \<open>Iterators\<close>

abbreviation live_it :: "('b, 'f, 'e) world \<Rightarrow> Iterator \<Rightarrow> nat \<Rightarrow> bool" where
  "live_it w it i \<equiv> c_heap w (itr_c it) = Some (Obj (ItObj i))"

lemma wp_DB_NewIterator:
  assumes "c_ok w" "live_db w db d" "live_ro w opts opt"
  shows "wp (DB_NewIterator R db opts) (\<lambda>r w'. c_ok w' \<and> eng w' = snd (db_NewIterator R d opt (eng w)) \<and>
    go_same w w' \<and> c_heap w (itr_c r) = None \<and>
    c_heap w' = (c_heap w)(itr_c r \<mapsto> Obj (ItObj (fst (db_NewIterator R d opt (eng w)))))) w"
  using assms
  by (cases "db_NewIterator R d opt (eng w)")
    (auto simp: DB_NewIterator_def rdb_create_iterator_def NewNativeIterator_def call_simps
      intro: c_ok_heap_upd)

text \<open>The positioning calls change the engine only.\<close>

lemma wp_Iterator_moves:
  assumes "c_ok w" "live_it w it i"
  shows "wp (SeekToFirst R it) Q w = Q () (w\<lparr>eng := snd (it_SeekToFirst R i (eng w))\<rparr>)"
    and "wp (SeekToLast R it) Q w = Q () (w\<lparr>eng := snd (it_SeekToLast R i (eng w))\<rparr>)"
    and "wp (Iterator_Next R it) Q w = Q () (w\<lparr>eng := snd (it_Next R i (eng w))\<rparr>)"
    and "wp (Iterator_Prev R it) Q w = Q () (w\<lparr>eng := snd (it_Prev R i (eng w))\<rparr>)"
    and "wp (Seek R it key) Q w = Q () (w\<lparr>eng := snd (it_Seek R i key (eng w))\<rparr>)"
    and "wp (SeekForPrev R it key) Q w = Q () (w\<lparr>eng := snd (it_SeekForPrev R i key (eng w))\<rparr>)"
  using assms
  by (simp_all add: SeekToFirst_def rdb_iter_seek_to_first_def SeekToLast_def rdb_iter_seek_to_last_def
      Iterator_Next_def rdb_iter_next_def Iterator_Prev_def rdb_iter_prev_def Seek_def rdb_iter_seek_def
      SeekForPrev_def rdb_iter_seek_for_prev_def live_nonnull split_def)

lemma wp_Iterator_Valid:
  assumes "c_ok w" "live_it w it i"
  shows "wp (Iterator_Valid R it) Q w =
    Q (fst (it_Valid R i (eng w))) (w\<lparr>eng := snd (it_Valid R i (eng w))\<rparr>)"
  using assms
  by (simp add: Iterator_Valid_def rdb_iter_valid_def live_nonnull split_def)

text \<open>A slice handed out by an iterator reads as the engine's bytes and is never freed.\<close>

lemma wp_Iterator_Key:
  assumes "c_ok w" "live_it w it i"
  shows "wp (Iterator_Key R it) Q w =
    Q (Some \<lparr>sl_data = Borrowed (fst (it_key R i (eng w))),
         sl_size = length (fst (it_key R i (eng w))), sl_freed = True\<rparr>)
      (w\<lparr>eng := snd (it_key R i (eng w))\<rparr>)"
  using assms
  by (simp add: Iterator_Key_def rdb_iter_key_def live_nonnull split_def)

lemma wp_Iterator_Value:
  assumes "c_ok w" "live_it w it i"
  shows "wp (Iterator_Value R it) Q w =
    Q (Some \<lparr>sl_data = Borrowed (fst (it_value R i (eng w))),
         sl_size = length (fst (it_value R i (eng w))), sl_freed = True\<rparr>)
      (w\<lparr>eng := snd (it_value R i (eng w))\<rparr>)"
  using assms
  by (simp add: Iterator_Value_def rdb_iter_value_def live_nonnull split_def)

lemma wp_Iterator_Err:
  assumes "c_ok w" "live_it w it i"
  shows "wp (Iterator_Err R it) (\<lambda>r w'. mem_same w w' \<and>
     (r, eng w') = map_prod status_error id (it_status R i (eng w))) w"
  using assms
  by (cases "it_status R i (eng w)")
    (auto simp: Iterator_Err_def rdb_iter_get_error_def call_simps intro!: mem_same_frame)

lemma wp_Iterator_Close:
  assumes "c_ok w" "live_it w it i"
  shows "wp (Iterator_Close R it) (\<lambda>r w'. c_ok w' \<and> r = \<lparr>itr_c = 0\<rparr> \<and>
    eng w' = snd (it_delete R i (eng w)) \<and> go_same w w' \<and>
    c_heap w' = (c_heap w)(itr_c it := None)) w"
  using assms
  by (cases "it_delete R i (eng w)")
    (auto simp: Iterator_Close_def rdb_iter_destroy_def call_simps intro: c_ok_heap_del)

subsection \<open>Slices returned by lookups\<close>

lemma wp_h_bytes_block:
  assumes "c_heap w p = Some (Chars v)" "length v < 2 ^ 63"
  shows "wp (h_bytes (Slice_Data (NewSlice (CPtr p) (length v)))) Q w = Q v w"
  using assms by (simp add: h_bytes_def Slice_Data_def NewSlice_def charToByte_def)

lemma wp_h_bytes_null [simp]: "wp (h_bytes (Slice_Data (NewSlice Null 0))) Q w = Q [] w"
  by (simp add: h_bytes_def Slice_Data_def NewSlice_def charToByte_def c_read_def)

lemma wp_h_bytes_borrowed:
  assumes "length v < 2 ^ 63"
  shows "wp (h_bytes (Slice_Data \<lparr>sl_data = Borrowed v, sl_size = length v, sl_freed = b\<rparr>)) Q w = Q v w"
  using assms by (simp add: h_bytes_def Slice_Data_def charToByte_def c_read_def)

lemma wp_Slice_Free:
  assumes "c_ok w" "c_heap w p = Some (Chars v)"
  shows "wp (Slice_Free (NewSlice (CPtr p) n)) (\<lambda>s w'. sl_freed s \<and> c_ok w' \<and>
    w' = w\<lparr>c_heap := (c_heap w)(p := None)\<rparr>) w"
  using assms by (simp add: Slice_Free_def NewSlice_def)

lemma wp_ValidForPrefix:
  assumes "c_ok w" "live_it w it i"
    and "length (fst (it_key R i (snd (it_Valid R i (eng w))))) < 2 ^ 63"
  shows "wp (ValidForPrefix R it pre) (\<lambda>r w'. mem_same w w' \<and>
    r = (fst (it_Valid R i (eng w)) \<and> prefix pre (fst (it_key R i (snd (it_Valid R i (eng w))))))) w"
  using assms
  by (auto simp: ValidForPrefix_def rdb_iter_valid_def live_nonnull split_def
      wp_Iterator_Key [of "w\<lparr>eng := snd (it_Valid R i (eng w))\<rparr>" it i, simplified]
      wp_h_bytes_borrowed intro!: mem_same_frame)

end
