(* ===== verification/GoFmt.thy ===== *)
theory GoFmt
  imports Prelude
begin

text \<open>
  The parts of Go's \<open>fmt\<close> and \<open>strconv\<close> the programs use: zero-padded decimal output
  (\<open>%0wd\<close>), and \<open>ParseUint(s, 10, 64)\<close>. The lemmas give the decimal value of what is
  printed, its length, and that lexicographic and numeric order agree at a fixed width.
\<close>

section \<open>Printing decimals\<close>

definition digit :: "nat \<Rightarrow> char" where
  "digit d = char_of (48 + d)"

fun dec :: "nat \<Rightarrow> string" where
  "dec n = (if n < 10 then [digit n] else dec (n div 10) @ [digit (n mod 10)])"

declare dec.simps [simp del]

definition pad0 :: "nat \<Rightarrow> string \<Rightarrow> string" where
  "pad0 w s = replicate (w - length s) (CHR ''0'') @ s"

text \<open>\<open>%0wd\<close>: the width counts the sign, and the zeros come after it.\<close>

definition fmt_0d :: "nat \<Rightarrow> int \<Rightarrow> string" where
  "fmt_0d w i = (if i < 0 then CHR ''-'' # pad0 (w - 1) (dec (nat (- i))) else pad0 w (dec (nat i)))"

section \<open>strconv.ParseUint\<close>

text \<open>
  \<open>ParseUint(s, 10, 64)\<close> returns a value and whether there was an error: 0 on a syntax
  error, the largest 64-bit value when the number is out of range. The range test is done
  before each multiplication and after each addition, on 64-bit words.
\<close>

definition is_digit :: "char \<Rightarrow> bool" where
  "is_digit c \<longleftrightarrow> CHR ''0'' \<le> c \<and> c \<le> CHR ''9''"

definition dval :: "char \<Rightarrow> nat" where
  "dval c = of_char c - 48"

fun parse_digits :: "64 word \<Rightarrow> bytes \<Rightarrow> 64 word \<times> bool" where
  "parse_digits n [] = (n, False)"
| "parse_digits n (c # cs) =
     (if \<not> is_digit c then (0, True)
      else if n \<ge> 1844674407370955162 then (-1, True)
      else let n10 = n * 10; n1 = n10 + of_nat (dval c) in
        if n1 < n10 then (-1, True) else parse_digits n1 cs)"

definition ParseUint :: "bytes \<Rightarrow> 64 word \<times> bool" where
  "ParseUint s = (if s = [] then (0, True) else parse_digits 0 s)"

section \<open>The decimal value of a string\<close>

definition val_from :: "nat \<Rightarrow> string \<Rightarrow> nat" where
  "val_from a s = foldl (\<lambda>n c. 10 * n + dval c) a s"

abbreviation dec_val :: "string \<Rightarrow> nat" where
  "dec_val s \<equiv> val_from 0 s"

lemma val_from_simps [simp]:
  "val_from a [] = a"
  "val_from a (c # s) = val_from (10 * a + dval c) s"
  "val_from a (s @ t) = val_from (val_from a s) t"
  by (simp_all add: val_from_def)

lemma val_from_eq: "val_from a s = a * 10 ^ length s + dec_val s"
proof (induction s arbitrary: a)
  case (Cons c s)
  have "val_from (10 * a + dval c) s = (10 * a + dval c) * 10 ^ length s + dec_val s"
    and "val_from (dval c) s = dval c * 10 ^ length s + dec_val s"
    by (rule Cons.IH)+
  then show ?case by (simp add: add_mult_distrib)
qed simp

lemma of_char_digit: "d < 10 \<Longrightarrow> (of_char (digit d) :: nat) = 48 + d"
  by (simp add: digit_def)

lemma dval_digit [simp]: "d < 10 \<Longrightarrow> dval (digit d) = d"
  by (simp add: dval_def of_char_digit)

lemma is_digit_digit [simp]: "d < 10 \<Longrightarrow> is_digit (digit d)"
  by (simp add: is_digit_def less_eq_char_def of_char_digit)

lemma is_digit_bounds: "is_digit c \<longleftrightarrow> 48 \<le> (of_char c :: nat) \<and> (of_char c :: nat) \<le> 57"
  by (simp add: is_digit_def less_eq_char_def)

lemma dval_less: "is_digit c \<Longrightarrow> dval c < 10"
  by (auto simp: is_digit_bounds dval_def)

lemma digit_dval: "is_digit c \<Longrightarrow> digit (dval c) = c"
  by (simp add: is_digit_bounds dval_def digit_def)

lemma digit_zero: "CHR ''0'' = digit 0"
  by code_simp

lemma val_dec [simp]: "dec_val (dec n) = n"
proof (induction n rule: dec.induct)
  case (1 n)
  then show ?case
    by (cases "n < 10") (simp_all add: dec.simps [of n])
qed

lemma digits_dec [simp]: "list_all is_digit (dec n)"
proof (induction n rule: dec.induct)
  case (1 n)
  then show ?case
    by (cases "n < 10") (simp_all add: dec.simps [of n])
qed

lemma dec_nonempty [simp]: "dec n \<noteq> []"
  by (subst dec.simps) simp

lemma length_dec_le: "n < 10 ^ w \<Longrightarrow> 0 < w \<Longrightarrow> length (dec n) \<le> w"
proof (induction n arbitrary: w rule: dec.induct)
  case (1 n)
  show ?case
  proof (cases "n < 10")
    case True
    with 1(3) show ?thesis by (simp add: dec.simps [of n])
  next
    case False
    with 1(2,3) obtain v where w: "w = Suc v" "0 < v"
      by (cases w; cases "w = 1") auto
    with 1(2) have "n div 10 < 10 ^ v" by (simp add: div_less_iff_less_mult mult.commute)
    with 1(1) False w show ?thesis by (simp add: dec.simps [of n])
  qed
qed

lemma val_less: "list_all is_digit s \<Longrightarrow> dec_val s < 10 ^ length s"
proof (induction s)
  case (Cons c s)
  then have "dec_val s < 10 ^ length s" and c: "dval c \<le> 9"
    using dval_less [of c] by (simp_all add: less_Suc_eq_le [symmetric])
  moreover have "dval c * 10 ^ length s \<le> 9 * 10 ^ length s"
    using c by (rule mult_right_mono) simp
  moreover have "dec_val (c # s) = dval c * 10 ^ length s + dec_val s"
    by (simp add: val_from_eq [of "dval c"])
  ultimately have "dec_val (c # s) < 9 * 10 ^ length s + 10 ^ length s" by linarith
  then show ?case by simp
qed simp

lemma val_pad0 [simp]: "dec_val (pad0 w s) = dec_val s"
proof -
  have "dec_val (replicate k (CHR ''0'')) = 0" for k
    by (induction k) (simp_all add: digit_zero)
  then show ?thesis by (simp add: pad0_def)
qed

lemma digits_pad0 [simp]: "list_all is_digit (pad0 w s) = list_all is_digit s"
  by (induction "w - length s") (auto simp: pad0_def digit_zero list_all_iff)

lemma length_pad0: "length (pad0 w s) = max w (length s)"
  by (simp add: pad0_def max_def)

lemma length_pad0_dec: "n < 10 ^ w \<Longrightarrow> 0 < w \<Longrightarrow> length (pad0 w (dec n)) = w"
  using length_dec_le [of n w] by (simp add: length_pad0)

lemma pad0_dec_inj: "pad0 w (dec m) = pad0 w (dec n) \<Longrightarrow> m = n"
  by (metis val_dec val_pad0)

text \<open>At a fixed width, lexicographic order is numeric order.\<close>

lemma digits_less_iff:
  assumes "length s = length t" "list_all is_digit s" "list_all is_digit t"
  shows "s < t \<longleftrightarrow> dec_val s < dec_val t"
  using assms
proof (induction s t rule: list_induct2)
  case (Cons c s d t)
  have less: "dec_val s < 10 ^ length t" "dec_val t < 10 ^ length t"
    using val_less [of s] val_less [of t] Cons by simp_all
  have digs: "is_digit c" "is_digit d" using Cons.prems by simp_all
  have "c < d \<longleftrightarrow> dval c < dval d"
    using digs unfolding is_digit_bounds dval_def less_char_def by linarith
  moreover have "c = d \<longleftrightarrow> dval c = dval d"
    using digs digit_dval by metis
  moreover note cd = calculation
  have "dval c * 10 ^ length t + dec_val s < dval d * 10 ^ length t + dec_val t"
    if lt: "dval c < dval d"
  proof -
    have "(dval c + 1) * 10 ^ length t \<le> dval d * 10 ^ length t"
      using lt by (intro mult_right_mono) auto
    with less show ?thesis by (simp add: algebra_simps)
  qed
  moreover have "dval d * 10 ^ length t + dec_val t < dval c * 10 ^ length t + dec_val s"
    if lt: "dval d < dval c"
  proof -
    have "(dval d + 1) * 10 ^ length t \<le> dval c * 10 ^ length t"
      using lt by (intro mult_right_mono) auto
    with less show ?thesis by (simp add: algebra_simps)
  qed
  ultimately show ?case
    using Cons cd
    by (cases "dval c" "dval d" rule: linorder_cases)
      (auto simp: val_from_eq [of "dval c"] val_from_eq [of "dval d"])
qed simp

section \<open>ParseUint computes the decimal value\<close>

lemma val_from_ge: "a \<le> val_from a s"
proof (induction s arbitrary: a)
  case (Cons c s)
  show ?case using Cons.IH [of "10 * a + dval c"] by simp
qed simp

text \<open>One step: the product fits, and the sum wraps around exactly when it is too large.\<close>

lemma digit_step:
  fixes n :: "64 word"
  assumes "n < 1844674407370955162" "k < 10"
  shows "10 * unat n + k < 2 ^ 64 \<Longrightarrow> unat (n * 10 + of_nat k) = 10 * unat n + k"
    and "n * 10 + of_nat k < n * 10 \<longleftrightarrow> 2 ^ 64 \<le> 10 * unat n + k"
proof -
  have n: "unat n < 1844674407370955162" using assms(1) by (simp add: word_less_nat_alt)
  then have n10: "unat (n * 10) = 10 * unat n" by (simp add: unat_word_ariths)
  have sum: "unat (n * 10 + of_nat k) = (10 * unat n + k) mod 2 ^ 64"
    using assms(2) n10 by (simp add: unat_word_ariths(1) unat_of_nat mod_add_right_eq)
  then show "unat (n * 10 + of_nat k) = 10 * unat n + k" if "10 * unat n + k < 2 ^ 64" using that by simp
  have "10 * unat n + k - 18446744073709551616 < 18446744073709551616" using assms(2) n by linarith
  then show "n * 10 + of_nat k < n * 10 \<longleftrightarrow> 2 ^ 64 \<le> 10 * unat n + k"
    using sum n10 assms(2) n by (cases "10 * unat n + k < 2 ^ 64") (auto simp: word_less_nat_alt le_mod_geq)
qed

lemma parse_digits_eq:
  assumes "list_all is_digit s"
  shows "parse_digits n s =
    (if val_from (unat n) s < 2 ^ 64 then (of_nat (val_from (unat n) s), False) else (-1, True))"
  using assms
proof (induction s arbitrary: n)
  case Nil
  then show ?case using unsigned_less [of n] by simp
next
  case (Cons c s)
  then have d: "is_digit c" "dval c < 10" by (simp_all add: dval_less)
  note ge = val_from_ge [of "10 * unat n + dval c" s]
  show ?case
  proof (cases "n \<ge> 1844674407370955162")
    case True
    then have "2 ^ 64 \<le> val_from (10 * unat n + dval c) s" using ge by (simp add: word_le_nat_alt)
    with True d show ?thesis by simp
  next
    case False
    note step = digit_step [OF _ d(2), of n]
    show ?thesis
      using False d Cons.IH [of "n * 10 + of_nat (dval c)"] Cons.prems step ge
      by (cases "10 * unat n + dval c < 2 ^ 64") (auto simp: Let_def not_le)
  qed
qed

lemma ParseUint_empty [simp]: "ParseUint [] = (0, True)"
  by (simp add: ParseUint_def)

lemma ParseUint_digits:
  assumes "list_all is_digit s" "s \<noteq> []"
  shows "ParseUint s = (if dec_val s < 2 ^ 64 then (of_nat (dec_val s), False) else (-1, True))"
  using parse_digits_eq [OF assms(1), of 0] assms(2) by (simp add: ParseUint_def)

end
