(* ===== verification/Store.thy ===== *)
theory Store
  imports Rdb_Db GoFmt
begin

text \<open>
  The store of \<^verbatim>\<open>src/store/store.go\<close>: the handles a benchmark keeps for one RocksDB
  database, and its operations.
\<close>

section \<open>The store\<close>

record Store =
  s_db :: "DB option"
  s_opt :: Options
  s_blockopt :: ptr
  s_ropt :: ReadOptions
  s_wopt :: WriteOptions

definition setOpts ::
  "('b, 'f, 'e) rocksdb \<Rightarrow> ('b, 'f, 'e, Options \<times> ptr \<times> ReadOptions \<times> WriteOptions) rio" where
  "setOpts R =
     bnd (NewDefaultOptions R) (\<lambda>opt0.
     bnd (NewDefaultBlockBasedTableOptions R) (\<lambda>blockopt.
     bnd (SetBlockBasedTableFactory R opt0 blockopt) (\<lambda>opt.
     andthen (SetCreateIfMissing opt True)
     (bnd (NewBloomFilter R 16) (\<lambda>fp.
     andthen (SetFilterPolicy R blockopt fp)
     (bnd (NewDefaultReadOptions R) (\<lambda>ropt.
     bnd (NewDefaultWriteOptions R) (\<lambda>wopt.
     andthen (SetSync wopt False)
     (ret (opt, blockopt, ropt, wopt))))))))))"

text \<open>The constructors return the store even when opening fails, with a nil database.\<close>

definition mk_store ::
  "Options \<times> ptr \<times> ReadOptions \<times> WriteOptions \<Rightarrow> bytes + DB \<Rightarrow> Store \<times> bytes option" where
  "mk_store os r = (case os of (opt, blockopt, ropt, wopt) \<Rightarrow>
     (\<lparr>s_db = (case r of Inl e \<Rightarrow> None | Inr db \<Rightarrow> Some db), s_opt = opt,
       s_blockopt = blockopt, s_ropt = ropt, s_wopt = wopt\<rparr>,
      case r of Inl e \<Rightarrow> Some e | Inr db \<Rightarrow> None))"

definition NewStore ::
  "('b, 'f, 'e) rocksdb \<Rightarrow> bytes \<Rightarrow> ('b, 'f, 'e, Store \<times> bytes option) rio" where
  "NewStore R filepath =
     bnd (setOpts R) (\<lambda>(opt, blockopt, ropt, wopt).
     bnd (OpenDb R opt filepath) (\<lambda>r. ret (mk_store (opt, blockopt, ropt, wopt) r)))"

definition NewSyncStore ::
  "('b, 'f, 'e) rocksdb \<Rightarrow> bytes \<Rightarrow> ('b, 'f, 'e, Store \<times> bytes option) rio" where
  "NewSyncStore R filepath =
     bnd (setOpts R) (\<lambda>(opt, blockopt, ropt, wopt).
     andthen (SetSync wopt True)
     (bnd (OpenDb R opt filepath) (\<lambda>r. ret (mk_store (opt, blockopt, ropt, wopt) r))))"

definition NewReadOnlyStore ::
  "('b, 'f, 'e) rocksdb \<Rightarrow> bytes \<Rightarrow> ('b, 'f, 'e, Store \<times> bytes option) rio" where
  "NewReadOnlyStore R filepath =
     bnd (setOpts R) (\<lambda>(opt, blockopt, ropt, wopt).
     bnd (OpenDbForReadOnly R opt filepath False) (\<lambda>r.
       ret (mk_store (opt, blockopt, ropt, wopt) r)))"

text \<open>Every method goes through \<open>s.db\<close>; a nil database panics.\<close>

definition with_db :: "Store \<Rightarrow> (DB \<Rightarrow> ('b, 'f, 'e, 'a) rio) \<Rightarrow> ('b, 'f, 'e, 'a) rio" where
  "with_db s f = (case s_db s of None \<Rightarrow> fail NilDeref | Some db \<Rightarrow> f db)"

definition Store_Get ::
  "('b, 'f, 'e) rocksdb \<Rightarrow> Store \<Rightarrow> bytes \<Rightarrow> ('b, 'f, 'e, bytes + Slice) rio" where
  "Store_Get R s key = with_db s (\<lambda>db.
     bnd (DB_Get R db (s_ropt s) key) (\<lambda>r. case r of
       Inl err \<Rightarrow> ret (Inl err)
     | Inr valSlice \<Rightarrow> ret (Inr valSlice)))"

definition Store_SetOne ::
  "('b, 'f, 'e) rocksdb \<Rightarrow> Store \<Rightarrow> bytes \<Rightarrow> bytes \<Rightarrow> ('b, 'f, 'e, bytes option) rio" where
  "Store_SetOne R s k val = with_db s (\<lambda>db. DB_Put R db (s_wopt s) k val)"

definition Store_Delete ::
  "('b, 'f, 'e) rocksdb \<Rightarrow> Store \<Rightarrow> bytes \<Rightarrow> ('b, 'f, 'e, bytes option) rio" where
  "Store_Delete R s k = with_db s (\<lambda>db. DB_Delete R db (s_wopt s) k)"

definition Store_NewIterator ::
  "('b, 'f, 'e) rocksdb \<Rightarrow> Store \<Rightarrow> ('b, 'f, 'e, Iterator) rio" where
  "Store_NewIterator R s =
     bnd (NewDefaultReadOptions R) (\<lambda>ro.
     andthen (SetFillCache ro False) (with_db s (\<lambda>db. DB_NewIterator R db ro)))"

definition Store_Close :: "('b, 'f, 'e) rocksdb \<Rightarrow> Store \<Rightarrow> ('b, 'f, 'e, unit) rio" where
  "Store_Close R s = with_db s (\<lambda>db. DB_Close R db)"

definition MemtableSize :: "('b, 'f, 'e) rocksdb \<Rightarrow> Store \<Rightarrow> ('b, 'f, 'e, 64 word) rio" where
  "MemtableSize R s = with_db s (\<lambda>db.
     bnd (DB_GetProperty R db ''rocksdb.cur-size-all-mem-tables'') (\<lambda>v. ret (fst (ParseUint v))))"

definition IndexFilterblockSize ::
  "('b, 'f, 'e) rocksdb \<Rightarrow> Store \<Rightarrow> ('b, 'f, 'e, 64 word) rio" where
  "IndexFilterblockSize R s = with_db s (\<lambda>db.
     bnd (DB_GetProperty R db ''rocksdb.estimate-table-readers-mem'') (\<lambda>v. ret (fst (ParseUint v))))"

definition Store_NewWriteBatch ::
  "('b, 'f, 'e) rocksdb \<Rightarrow> Store \<Rightarrow> ('b, 'f, 'e, WriteBatch) rio" where
  "Store_NewWriteBatch R s = NewWriteBatch R"

definition Store_WriteBatch ::
  "('b, 'f, 'e) rocksdb \<Rightarrow> Store \<Rightarrow> WriteBatch \<Rightarrow> ('b, 'f, 'e, bytes option) rio" where
  "Store_WriteBatch R s wb = with_db s (\<lambda>db. DB_Write R db (s_wopt s) wb)"

definition Store_NewCheckpoint ::
  "('b, 'f, 'e) rocksdb \<Rightarrow> Store \<Rightarrow> ('b, 'f, 'e, bytes + Checkpoint) rio" where
  "Store_NewCheckpoint R s = with_db s (\<lambda>db. DB_NewCheckpoint R db)"

definition Store_NewSnapshot ::
  "('b, 'f, 'e) rocksdb \<Rightarrow> Store \<Rightarrow> ('b, 'f, 'e, Snapshot) rio" where
  "Store_NewSnapshot R s = with_db s (\<lambda>db. DB_NewSnapshot R db)"

definition Store_SetSnapshot :: "Store \<Rightarrow> Snapshot option \<Rightarrow> ('b, 'f, 'e, unit) rio" where
  "Store_SetSnapshot s snap = SetSnapshot (s_ropt s) snap"

definition Store_GetStats :: "('b, 'f, 'e) rocksdb \<Rightarrow> Store \<Rightarrow> ('b, 'f, 'e, bytes) rio" where
  "Store_GetStats R s = with_db s (\<lambda>db. DB_GetStats R db)"

section \<open>What the constructors build\<close>

text \<open>Everything allocated before is still there, unchanged.\<close>

definition heap_keeps :: "('b, 'f, 'e) world \<Rightarrow> ('b, 'f, 'e) world \<Rightarrow> bool" where
  "heap_keeps w w' \<longleftrightarrow> c_heap w \<subseteq>\<^sub>m c_heap w'"

lemma heap_keepsI: "c_ok w \<Longrightarrow> (\<And>p. p < c_brk w \<Longrightarrow> c_heap w' p = c_heap w p) \<Longrightarrow> heap_keeps w w'"
  unfolding heap_keeps_def map_le_def using c_ok_live_less by (metis domD)

lemma heap_keepsD: "heap_keeps w w' \<Longrightarrow> c_heap w p = Some x \<Longrightarrow> c_heap w' p = Some x"
  by (metis domI heap_keeps_def map_le_def)

lemma heap_keeps_refl [simp]: "heap_keeps w w"
  by (simp add: heap_keeps_def)

lemma heap_keeps_trans: "heap_keeps w w1 \<Longrightarrow> heap_keeps w1 w2 \<Longrightarrow> heap_keeps w w2"
  unfolding heap_keeps_def by (rule map_le_trans)

lemma heap_keeps_alloc: "c_heap w p = None \<Longrightarrow> c_heap w' = (c_heap w)(p \<mapsto> x) \<Longrightarrow> heap_keeps w w'"
  by (auto simp: heap_keeps_def map_le_def)

lemma heap_keeps_upd:
  "heap_keeps w w1 \<Longrightarrow> c_heap w p = None \<Longrightarrow> c_heap w2 = (c_heap w1)(p \<mapsto> x) \<Longrightarrow> heap_keeps w w2"
  by (auto simp: heap_keeps_def map_le_def)

lemma heap_keeps_same: "heap_keeps w w1 \<Longrightarrow> c_heap w2 = c_heap w1 \<Longrightarrow> heap_keeps w w2"
  by (simp add: heap_keeps_def)

lemma c_okI: "0 < c_brk w \<Longrightarrow> c_heap w 0 = None \<Longrightarrow> (\<And>p. c_brk w \<le> p \<Longrightarrow> c_heap w p = None) \<Longrightarrow> c_ok w"
  unfolding c_ok_def by blast

lemmas setOpts_defs =
  NewDefaultOptions_def rdb_options_create_def NewNativeOptions_def
  NewDefaultBlockBasedTableOptions_def rdb_block_based_options_create_def
  NewNativeBlockBasedTableOptions_def SetBlockBasedTableFactory_def
  rdb_options_set_block_based_table_factory_def fp_share_def
  SetCreateIfMissing_def rdb_options_set_create_if_missing_def boolToChar_def
  NewBloomFilter_def rdb_filterpolicy_create_bloom_def rdb_filterpolicy_create_bloom_format_def
  NewNativeFilterPolicy_def SetFilterPolicy_def rdb_block_based_options_set_filter_policy_def
  fp_own_def fp_release_def NewDefaultReadOptions_def rdb_readoptions_create_def
  NewNativeReadOptions_def NewDefaultWriteOptions_def rdb_writeoptions_create_def
  NewNativeWriteOptions_def SetSync_def rdb_writeoptions_set_sync_def to_cint_def

text \<open>
  The options a store opens its database with: the table factory was built from the default
  table options, before the Bloom filter was set on them.
\<close>

definition store_options :: "('b, 'f, 'e) rocksdb \<Rightarrow> 'f options" where
  "store_options R = (def_options R)\<lparr>create_if_missing := True,
     table_factory := NewBlockBasedTableFactory R (def_table_options R)\<rparr>"

definition opts_built ::
  "('b, 'f, 'e) rocksdb \<Rightarrow> bool \<Rightarrow> ('b, 'f, 'e) world \<Rightarrow> Options \<times> ptr \<times> ReadOptions \<times> WriteOptions \<Rightarrow>
   ('b, 'f, 'e) world \<Rightarrow> bool" where
  "opts_built R sy w = (\<lambda>(opt, blockopt, ropt, wopt) w'. c_ok w' \<and> heap_keeps w w' \<and>
     eng w' = snd (NewBloomFilterPolicy R 16 True (eng w)) \<and>
     c_heap w' (op_c opt) = Some (Obj (OptObj (store_options R))) \<and>
     live_ro w' ropt (def_readoptions R) \<and>
     live_wo w' wopt ((def_writeoptions R)\<lparr>sync := sy\<rparr>) \<and>
     c_heap w (ro_c ropt) = None \<and> c_heap w (wo_c wopt) = None \<and>
     (case go_heap w' blockopt of
        Some (GBbto b) \<Rightarrow> bo_cFp b \<noteq> 0 \<and>
          c_heap w' (bo_c b) =
            Some (Obj (BbtoObj ((def_table_options R)\<lparr>filter_policy := bo_cFp b\<rparr>))) \<and>
          c_heap w' (bo_cFp b) = Some (Obj (FpObj
            (BloomFilter (fst (NewBloomFilterPolicy R 16 True (eng w)))) 1))
      | _ \<Rightarrow> False))"

lemma wp_setOpts:
  assumes "c_ok w" "filter_policy (def_table_options R) = 0"
  shows "wp (setOpts R) (opts_built R False w) w"
  using assms c_ok_brk [OF assms(1)]
  by (auto simp add: setOpts_def setOpts_defs split_def Let_def opts_built_def store_options_def
      intro!: c_okI heap_keepsI)

lemma wp_SetSync_built:
  assumes "opts_built R sy w (opt, blockopt, ropt, wopt) w1"
  shows "wp (SetSync wopt sy') (\<lambda>_. opts_built R sy' w (opt, blockopt, ropt, wopt)) w1"
  using assms
  by (auto simp: opts_built_def SetSync_def rdb_writeoptions_set_sync_def live_nonnull boolToChar_def
      c_ok_upd split: option.splits gobj.splits intro: heap_keeps_upd)

text \<open>A store whose handles are live: the database, the read options, the write options.\<close>

definition store_live ::
  "('b, 'f, 'e) world \<Rightarrow> Store \<Rightarrow> nat \<Rightarrow> readoptions \<Rightarrow> writeoptions \<Rightarrow> bool" where
  "store_live w s d ro wo \<longleftrightarrow> (case s_db s of None \<Rightarrow> False | Some db \<Rightarrow> live_db w db d) \<and>
     live_ro w (s_ropt s) ro \<and> live_wo w (s_wopt s) wo"

lemma store_liveE:
  assumes "store_live w s d ro wo"
  obtains db where "s_db s = Some db" "live_db w db d" "live_ro w (s_ropt s) ro"
    "live_wo w (s_wopt s) wo"
  using assms by (auto simp: store_live_def split: option.splits)

lemma store_live_same: "store_live w s d ro wo \<Longrightarrow> c_heap w' = c_heap w \<Longrightarrow> store_live w' s d ro wo"
  by (simp add: store_live_def split: option.splits)

lemma store_live_keeps: "store_live w s d ro wo \<Longrightarrow> heap_keeps w w' \<Longrightarrow> store_live w' s d ro wo"
  by (auto simp: store_live_def split: option.splits dest: heap_keepsD)

text \<open>Outcome of opening a database for a store.\<close>

definition opened ::
  "('b, 'f, 'e) rocksdb \<Rightarrow> bool \<Rightarrow> (status \<times> nat) \<times> 'e \<Rightarrow> ('b, 'f, 'e) world \<Rightarrow>
   Store \<times> bytes option \<Rightarrow> ('b, 'f, 'e) world \<Rightarrow> bool" where
  "opened R sy res w = (\<lambda>(s, err) w'. c_ok w' \<and> heap_keeps w w' \<and> eng w' = snd res \<and>
     (if st_ok (fst (fst res))
      then err = None \<and>
        store_live w' s (snd (fst res)) (def_readoptions R) ((def_writeoptions R)\<lparr>sync := sy\<rparr>)
      else err = Some (cstr (st_text (fst (fst res)))) \<and> s_db s = None))"

lemma opened_built:
  assumes "opts_built R sy w (opt, blockopt, ropt, wopt) w1" "open_post res opt path w1 r w2"
  shows "opened R sy res w (mk_store (opt, blockopt, ropt, wopt) r) w2"
  using assms
  by (auto simp: opts_built_def open_post_def opened_def mk_store_def store_live_def mem_same_def
      split: prod.splits if_splits intro: heap_keeps_trans heap_keeps_alloc heap_keeps_same
      dest: heap_keepsD [OF heap_keeps_alloc])

lemma opts_built_opt:
  "opts_built R sy w (opt, blockopt, ropt, wopt) w1 \<Longrightarrow> c_ok w1"
  "opts_built R sy w (opt, blockopt, ropt, wopt) w1 \<Longrightarrow>
     c_heap w1 (op_c opt) = Some (Obj (OptObj (store_options R)))"
  "opts_built R sy w (opt, blockopt, ropt, wopt) w1 \<Longrightarrow>
     eng w1 = snd (NewBloomFilterPolicy R 16 True (eng w))"
  by (auto simp: opts_built_def)

lemma opts_built_bbto:
  assumes "opts_built R sy w (opt, blockopt, ropt, wopt) w1"
  obtains b where "go_heap w1 blockopt = Some (GBbto b)"
    "c_heap w1 (bo_c b) = Some (Obj (BbtoObj ((def_table_options R)\<lparr>filter_policy := bo_cFp b\<rparr>)))"
    "c_heap w1 (bo_cFp b) = Some (Obj (FpObj (BloomFilter (fst (NewBloomFilterPolicy R 16 True (eng w)))) 1))"
proof (cases "go_heap w1 blockopt")
  case None
  then show ?thesis using assms by (simp add: opts_built_def)
next
  case (Some g)
  then show ?thesis using assms that by (cases g) (auto simp: opts_built_def)
qed

text \<open>The engine state the store's database is opened in (the Bloom policy exists by then).\<close>

abbreviation eng_open :: "('b, 'f, 'e) rocksdb \<Rightarrow> ('b, 'f, 'e) world \<Rightarrow> 'e" where
  "eng_open R w \<equiv> snd (NewBloomFilterPolicy R 16 True (eng w))"

lemma wp_OpenDb_built:
  assumes "opts_built R sy w (opt, blockopt, ropt, wopt) w1"
  shows "wp (OpenDb R opt path) (\<lambda>r. opened R sy
      (db_Open R (store_options R) (cstr path) (eng_open R w)) w
      (mk_store (opt, blockopt, ropt, wopt) r)) w1"
  by (rule wp_mono [OF wp_OpenDb [OF opts_built_opt(1,2) [OF assms]]])
    (use opened_built [OF assms] opts_built_opt(3) [OF assms] in auto)

lemma wp_OpenDbForReadOnly_built:
  assumes "opts_built R sy w (opt, blockopt, ropt, wopt) w1"
  shows "wp (OpenDbForReadOnly R opt path b) (\<lambda>r. opened R sy
      (db_OpenForReadOnly R (store_options R) (cstr path) b (eng_open R w)) w
      (mk_store (opt, blockopt, ropt, wopt) r)) w1"
  by (rule wp_mono [OF wp_OpenDbForReadOnly [OF opts_built_opt(1,2) [OF assms]]])
    (use opened_built [OF assms] opts_built_opt(3) [OF assms] in auto)

lemma wp_NewStore:
  assumes "c_ok w" "filter_policy (def_table_options R) = 0"
  shows "wp (NewStore R path)
           (opened R False (db_Open R (store_options R) (cstr path) (eng_open R w)) w) w"
  unfolding NewStore_def split_def wp_bnd wp_ret
  by (rule wp_mono [OF wp_setOpts [OF assms]]) (auto intro: wp_OpenDb_built)

lemma wp_NewSyncStore:
  assumes "c_ok w" "filter_policy (def_table_options R) = 0"
  shows "wp (NewSyncStore R path)
           (opened R True (db_Open R (store_options R) (cstr path) (eng_open R w)) w) w"
  unfolding NewSyncStore_def split_def wp_bnd wp_ret
  by (rule wp_mono [OF wp_setOpts [OF assms]])
    (auto intro!: wp_mono [OF wp_SetSync_built] intro: wp_OpenDb_built)

lemma wp_NewReadOnlyStore:
  assumes "c_ok w" "filter_policy (def_table_options R) = 0"
  shows "wp (NewReadOnlyStore R path)
           (opened R False (db_OpenForReadOnly R (store_options R) (cstr path) False (eng_open R w)) w) w"
  unfolding NewReadOnlyStore_def split_def wp_bnd wp_ret
  by (rule wp_mono [OF wp_setOpts [OF assms]]) (auto intro: wp_OpenDbForReadOnly_built)

end
