(* ===== verification/RocksSpec.thy ===== *)
theory RocksSpec
  imports Rdbc
begin

text \<open>
  What the Go code relies on RocksDB for, as documented: an abstract state of open databases,
  snapshots, iterators, checkpoints and directories, and one law per call. Every call may
  fail with a status; the laws say what a success means and what a failure leaves alone. A value
  is a C++ string, so it is shorter than $2^{63}$ bytes. The locales \<open>rocks_kv\<close>, \<open>rocks_snap\<close>, \<open>rocks_iter\<close> and \<open>rocks_dir\<close> group the laws by
  client. The reference engine at the end is an executable engine that meets all of them.
\<close>

section \<open>Abstract state\<close>

type_synonym contents = "bytes \<Rightarrow> bytes option"

record adb =
  ad_name :: bytes
  ad_rw :: bool
  ad_kv :: contents

text \<open>
  An iterator walks a fixed sequence, the contents of its view in key order. A position
  outside the sequence means not valid; a failed move makes the iterator invalid and its
  status not ok.
\<close>

record aiter =
  ai_seq :: "(bytes \<times> bytes) list"
  ai_pos :: nat
  ai_failed :: bool

record astate =
  a_db :: "nat \<Rightarrow> adb option"
  a_snap :: "nat \<Rightarrow> contents option"
  a_it :: "nat \<Rightarrow> aiter option"
  a_cp :: "nat \<Rightarrow> nat option"
  a_disk :: "bytes \<Rightarrow> contents option"

text \<open>What a read with the given options sees: the snapshot if one is set.\<close>

definition a_view :: "astate \<Rightarrow> adb \<Rightarrow> readoptions \<Rightarrow> contents" where
  "a_view a db ro = (if snapshot ro = 0 then ad_kv db
     else case a_snap a (snapshot ro) of None \<Rightarrow> Map.empty | Some m \<Rightarrow> m)"

definition a_write :: "nat \<Rightarrow> adb \<Rightarrow> contents \<Rightarrow> astate \<Rightarrow> astate" where
  "a_write d db m a = a\<lparr>a_db := (a_db a)(d \<mapsto> db\<lparr>ad_kv := m\<rparr>)\<rparr>"

fun apply_ops :: "(bytes \<times> bytes option) list \<Rightarrow> contents \<Rightarrow> contents" where
  "apply_ops [] m = m"
| "apply_ops ((k, v) # ops) m = apply_ops ops (m(k := v))"

definition key_sorted :: "(bytes \<times> bytes) list \<Rightarrow> bool" where
  "key_sorted xs \<longleftrightarrow> sorted_wrt (<) (map fst xs)"

definition a_move :: "nat \<Rightarrow> aiter \<Rightarrow> nat \<Rightarrow> bool \<Rightarrow> astate \<Rightarrow> astate" where
  "a_move i x p failed a = a\<lparr>a_it := (a_it a)(i \<mapsto> x\<lparr>ai_pos := p, ai_failed := failed\<rparr>)\<rparr>"

text \<open>A move reaches its target or fails; where the seeks and the steps lead.\<close>

definition moved :: "nat \<Rightarrow> aiter \<Rightarrow> nat \<Rightarrow> astate \<Rightarrow> astate \<Rightarrow> bool" where
  "moved i x p a a' \<longleftrightarrow> a' = a_move i x p False a \<or> a' = a_move i x (length (ai_seq x)) True a"

definition seek_pos :: "bytes \<Rightarrow> (bytes \<times> bytes) list \<Rightarrow> nat" where
  "seek_pos k xs = length (takeWhile (\<lambda>x. fst x < k) xs)"

definition seek_prev_pos :: "bytes \<Rightarrow> (bytes \<times> bytes) list \<Rightarrow> nat" where
  "seek_prev_pos k xs =
     (let n = length (takeWhile (\<lambda>x. fst x \<le> k) xs) in if n = 0 then length xs else n - 1)"

definition last_pos :: "(bytes \<times> bytes) list \<Rightarrow> nat" where
  "last_pos xs = (if xs = [] then 0 else length xs - 1)"

definition prev_pos :: "nat \<Rightarrow> (bytes \<times> bytes) list \<Rightarrow> nat" where
  "prev_pos p xs = (if p = 0 then length xs else p - 1)"

section \<open>The laws\<close>

locale rocks_kv =
  fixes R :: "('b, 'f, 'e) rocksdb"
    and \<alpha> :: "'e \<Rightarrow> astate"
    and bops :: "'b \<Rightarrow> (bytes \<times> bytes option) list"
  assumes get_law: "db_Get R d ro k e = ((s, v), e') \<Longrightarrow> a_db (\<alpha> e) d = Some db \<Longrightarrow>
      snapshot ro = 0 \<or> a_snap (\<alpha> e) (snapshot ro) \<noteq> None \<Longrightarrow>
      \<alpha> e' = \<alpha> e \<and> (st_ok s \<longrightarrow> a_view (\<alpha> e) db ro k = Some v \<and> length v < 2 ^ 63) \<and>
      (\<not> st_ok s \<and> st_notfound s \<longrightarrow> a_view (\<alpha> e) db ro k = None)"
    and put_law: "db_Put R d wo k v e = (s, e') \<Longrightarrow> a_db (\<alpha> e) d = Some db \<Longrightarrow>
      \<exists>m. \<alpha> e' = a_write d db m (\<alpha> e) \<and> (st_ok s \<longrightarrow> ad_rw db \<and> m = (ad_kv db)(k \<mapsto> v))"
    and delete_law: "db_Delete R d wo k e = (s, e') \<Longrightarrow> a_db (\<alpha> e) d = Some db \<Longrightarrow>
      \<exists>m. \<alpha> e' = a_write d db m (\<alpha> e) \<and> (st_ok s \<longrightarrow> ad_rw db \<and> m = (ad_kv db)(k := None))"
    and write_law: "db_Write R d wo b e = (s, e') \<Longrightarrow> a_db (\<alpha> e) d = Some db \<Longrightarrow>
      \<exists>m. \<alpha> e' = a_write d db m (\<alpha> e) \<and>
          (st_ok s \<longrightarrow> ad_rw db \<and> m = apply_ops (bops b) (ad_kv db))"
    and batch_new: "bops (wb_new R) = []"
    and batch_put: "bops (wb_Put R b k v) = bops b @ [(k, Some v)]"
    and batch_delete: "bops (wb_Delete R b k) = bops b @ [(k, None)]"
    and batch_clear: "bops (wb_Clear R b) = []"
    and batch_count: "wb_Count R b = length (bops b)"
    and default_snapshot: "snapshot (def_readoptions R) = 0"
    and default_policy: "filter_policy (def_table_options R) = 0"
    and bloom_law: "NewBloomFilterPolicy R n orig e = (fp, e') \<Longrightarrow> \<alpha> e' = \<alpha> e"

text \<open>An engine that never rejects a batch on a writable database (no full disk, no broken file).\<close>

definition accepts :: "('b, 'f, 'e) rocksdb \<Rightarrow> ('e \<Rightarrow> astate) \<Rightarrow> bool" where
  "accepts R \<alpha> \<longleftrightarrow> (\<forall>d wo b e db s e'. db_Write R d wo b e = (s, e') \<and> a_db (\<alpha> e) d = Some db \<and> ad_rw db \<longrightarrow>
     st_ok s)"

text \<open>An engine that answers every lookup in an open database with the value or that there is none.\<close>

definition serves :: "('b, 'f, 'e) rocksdb \<Rightarrow> ('e \<Rightarrow> astate) \<Rightarrow> bool" where
  "serves R \<alpha> \<longleftrightarrow> (\<forall>d ro k e db s v e'. db_Get R d ro k e = ((s, v), e') \<and> a_db (\<alpha> e) d = Some db \<longrightarrow>
     st_ok s \<or> st_notfound s)"

text \<open>An engine that makes every checkpoint of an open database in a directory that does not exist.\<close>

definition saves :: "('b, 'f, 'e) rocksdb \<Rightarrow> ('e \<Rightarrow> astate) \<Rightarrow> bool" where
  "saves R \<alpha> \<longleftrightarrow> (\<forall>c dir e d db s e'. cp_CreateCheckpoint R c dir e = (s, e') \<and> a_cp (\<alpha> e) c = Some d \<and>
     a_db (\<alpha> e) d = Some db \<and> a_disk (\<alpha> e) dir = None \<longrightarrow> st_ok s)"

text \<open>An engine that makes snapshots: \<open>GetSnapshot\<close> returns no null pointer for an open database.\<close>

definition snapshots :: "('b, 'f, 'e) rocksdb \<Rightarrow> ('e \<Rightarrow> astate) \<Rightarrow> bool" where
  "snapshots R \<alpha> \<longleftrightarrow> (\<forall>d e. a_db (\<alpha> e) d \<noteq> None \<longrightarrow> fst (db_GetSnapshot R d e) \<noteq> 0)"

locale rocks_snap = rocks_kv +
  assumes snapshot_law: "db_GetSnapshot R d e = (sn, e') \<Longrightarrow> a_db (\<alpha> e) d = Some db \<Longrightarrow>
      if sn = 0 then \<alpha> e' = \<alpha> e
      else a_snap (\<alpha> e) sn = None \<and>
           \<alpha> e' = (\<alpha> e)\<lparr>a_snap := (a_snap (\<alpha> e))(sn \<mapsto> ad_kv db)\<rparr>"
    and release_law: "db_ReleaseSnapshot R d sn e = (u, e') \<Longrightarrow>
      \<alpha> e' = (\<alpha> e)\<lparr>a_snap := (a_snap (\<alpha> e))(sn := None)\<rparr>"

locale rocks_iter = rocks_kv +
  assumes iterator_law: "db_NewIterator R d ro e = (i, e') \<Longrightarrow> a_db (\<alpha> e) d = Some db \<Longrightarrow>
      snapshot ro = 0 \<or> a_snap (\<alpha> e) (snapshot ro) \<noteq> None \<Longrightarrow>
      a_it (\<alpha> e) i = None \<and>
      (\<exists>xs. key_sorted xs \<and> map_of xs = a_view (\<alpha> e) db ro \<and>
        \<alpha> e' = (\<alpha> e)\<lparr>a_it := (a_it (\<alpha> e))
          (i \<mapsto> \<lparr>ai_seq = xs, ai_pos = length xs, ai_failed = False\<rparr>)\<rparr>)"
    and valid_law: "it_Valid R i e = (b, e') \<Longrightarrow> a_it (\<alpha> e) i = Some x \<Longrightarrow>
      \<alpha> e' = \<alpha> e \<and> b = (ai_pos x < length (ai_seq x))"
    and first_law: "it_SeekToFirst R i e = (u, e') \<Longrightarrow> a_it (\<alpha> e) i = Some x \<Longrightarrow>
      moved i x 0 (\<alpha> e) (\<alpha> e')"
    and last_law: "it_SeekToLast R i e = (u, e') \<Longrightarrow> a_it (\<alpha> e) i = Some x \<Longrightarrow>
      moved i x (last_pos (ai_seq x)) (\<alpha> e) (\<alpha> e')"
    and seek_law: "it_Seek R i k e = (u, e') \<Longrightarrow> a_it (\<alpha> e) i = Some x \<Longrightarrow>
      moved i x (seek_pos k (ai_seq x)) (\<alpha> e) (\<alpha> e')"
    and seek_prev_law: "it_SeekForPrev R i k e = (u, e') \<Longrightarrow> a_it (\<alpha> e) i = Some x \<Longrightarrow>
      moved i x (seek_prev_pos k (ai_seq x)) (\<alpha> e) (\<alpha> e')"
    and next_law: "it_Next R i e = (u, e') \<Longrightarrow> a_it (\<alpha> e) i = Some x \<Longrightarrow>
      ai_pos x < length (ai_seq x) \<Longrightarrow> moved i x (Suc (ai_pos x)) (\<alpha> e) (\<alpha> e')"
    and prev_law: "it_Prev R i e = (u, e') \<Longrightarrow> a_it (\<alpha> e) i = Some x \<Longrightarrow>
      ai_pos x < length (ai_seq x) \<Longrightarrow> moved i x (prev_pos (ai_pos x) (ai_seq x)) (\<alpha> e) (\<alpha> e')"
    and key_law: "it_key R i e = (k, e') \<Longrightarrow> a_it (\<alpha> e) i = Some x \<Longrightarrow>
      ai_pos x < length (ai_seq x) \<Longrightarrow> \<alpha> e' = \<alpha> e \<and> k = fst (ai_seq x ! ai_pos x)"
    and value_law: "it_value R i e = (v, e') \<Longrightarrow> a_it (\<alpha> e) i = Some x \<Longrightarrow>
      ai_pos x < length (ai_seq x) \<Longrightarrow> \<alpha> e' = \<alpha> e \<and> v = snd (ai_seq x ! ai_pos x)"
    and it_status_law: "it_status R i e = (s, e') \<Longrightarrow> a_it (\<alpha> e) i = Some x \<Longrightarrow>
      \<alpha> e' = \<alpha> e \<and> st_ok s = (\<not> ai_failed x)"
    and it_delete_law: "it_delete R i e = (u, e') \<Longrightarrow>
      \<alpha> e' = (\<alpha> e)\<lparr>a_it := (a_it (\<alpha> e))(i := None)\<rparr>"

text \<open>
  Directories: opening, closing and checkpoints. A directory has one writer at a time. A
  database may only be closed when its iterators are gone; nothing is promised otherwise.
\<close>

definition disk_contents :: "astate \<Rightarrow> bytes \<Rightarrow> contents" where
  "disk_contents a n = (case a_disk a n of None \<Rightarrow> Map.empty | Some m \<Rightarrow> m)"

locale rocks_dir = rocks_kv +
  assumes open_law: "db_Open R opt n e = ((s, d), e') \<Longrightarrow> st_ok s \<Longrightarrow>
      a_db (\<alpha> e) d = None \<and> (create_if_missing opt \<or> a_disk (\<alpha> e) n \<noteq> None) \<and>
      \<alpha> e' = (\<alpha> e)\<lparr>
        a_db := (a_db (\<alpha> e))(d \<mapsto> \<lparr>ad_name = n, ad_rw = True, ad_kv = disk_contents (\<alpha> e) n\<rparr>),
        a_disk := (a_disk (\<alpha> e))(n \<mapsto> disk_contents (\<alpha> e) n)\<rparr>"
    and open_ro_law: "db_OpenForReadOnly R opt n b e = ((s, d), e') \<Longrightarrow> st_ok s \<Longrightarrow>
      a_db (\<alpha> e) d = None \<and> a_disk (\<alpha> e) n \<noteq> None \<and>
      \<alpha> e' = (\<alpha> e)\<lparr>a_db := (a_db (\<alpha> e))
        (d \<mapsto> \<lparr>ad_name = n, ad_rw = False, ad_kv = disk_contents (\<alpha> e) n\<rparr>)\<rparr>"
    and close_law: "db_delete R d e = (u, e') \<Longrightarrow> a_db (\<alpha> e) d = Some db \<Longrightarrow>
      a_it (\<alpha> e) = Map.empty \<Longrightarrow>
      \<alpha> e' = (\<alpha> e)\<lparr>a_db := (a_db (\<alpha> e))(d := None),
        a_disk := (if ad_rw db then (a_disk (\<alpha> e))(ad_name db \<mapsto> ad_kv db) else a_disk (\<alpha> e))\<rparr>"
    and checkpoint_law: "cp_Create R d e = ((s, c), e') \<Longrightarrow> st_ok s \<Longrightarrow>
      a_cp (\<alpha> e) c = None \<and> \<alpha> e' = (\<alpha> e)\<lparr>a_cp := (a_cp (\<alpha> e))(c \<mapsto> d)\<rparr>"
    and save_law: "cp_CreateCheckpoint R c dir e = (s, e') \<Longrightarrow> a_cp (\<alpha> e) c = Some d \<Longrightarrow>
      a_db (\<alpha> e) d = Some db \<Longrightarrow> st_ok s \<Longrightarrow>
      a_disk (\<alpha> e) dir = None \<and>
      \<alpha> e' = (\<alpha> e)\<lparr>a_disk := (a_disk (\<alpha> e))(dir \<mapsto> ad_kv db)\<rparr>"
    and cp_delete_law: "cp_delete R c e = (u, e') \<Longrightarrow>
      \<alpha> e' = (\<alpha> e)\<lparr>a_cp := (a_cp (\<alpha> e))(c := None)\<rparr>"

section \<open>A reference engine\<close>

text \<open>
  Association lists throughout, newest entry first; an iterator sorts the keys when it is
  created; a fresh number is one more than every number in use. No call fails but a write to
  a read-only database, a read of an oversized value, an open of a missing or already open
  directory, and a checkpoint into an existing directory.
\<close>

type_synonym kvlist = "(bytes \<times> bytes) list"

record engine_state =
  e_dbs :: "(nat \<times> (bytes \<times> bool \<times> kvlist)) list"
  e_snaps :: "(nat \<times> kvlist) list"
  e_its :: "(nat \<times> aiter) list"
  e_cps :: "(nat \<times> nat) list"
  e_dirs :: "(bytes \<times> kvlist) list"

definition fresh :: "(nat \<times> 'a) list \<Rightarrow> nat" where
  "fresh xs = Suc (fold (\<lambda>x. max (fst x)) xs 0)"

definition kv_del :: "'k \<Rightarrow> ('k \<times> 'v) list \<Rightarrow> ('k \<times> 'v) list" where
  "kv_del k m = filter (\<lambda>x. fst x \<noteq> k) m"

definition kv_sort :: "kvlist \<Rightarrow> kvlist" where
  "kv_sort m = map (\<lambda>k. (k, case map_of m k of None \<Rightarrow> [] | Some v \<Rightarrow> v)) (sort (remdups (map fst m)))"

fun kv_apply :: "(bytes \<times> bytes option) list \<Rightarrow> kvlist \<Rightarrow> kvlist" where
  "kv_apply [] m = m"
| "kv_apply ((k, Some v) # ops) m = kv_apply ops ((k, v) # m)"
| "kv_apply ((k, None) # ops) m = kv_apply ops (kv_del k m)"

definition ok_status :: status where
  "ok_status = \<lparr>st_ok = True, st_notfound = False, st_text = ''OK''\<rparr>"

definition bad_status :: "string \<Rightarrow> status" where
  "bad_status t = \<lparr>st_ok = False, st_notfound = False, st_text = t\<rparr>"

definition missing_status :: status where
  "missing_status = \<lparr>st_ok = False, st_notfound = True, st_text = ''NotFound: ''\<rparr>"

definition ref_update :: "nat \<Rightarrow> (kvlist \<Rightarrow> kvlist) \<Rightarrow> engine_state \<Rightarrow> status \<times> engine_state" where
  "ref_update d f e = (case map_of (e_dbs e) d of
     None \<Rightarrow> (bad_status ''no database'', e)
   | Some (n, rw, m) \<Rightarrow>
       if rw then (ok_status, e\<lparr>e_dbs := (d, (n, rw, f m)) # e_dbs e\<rparr>)
       else (bad_status ''Not implemented: Not supported operation in read only mode.'', e))"

definition ref_view :: "engine_state \<Rightarrow> nat \<Rightarrow> readoptions \<Rightarrow> kvlist" where
  "ref_view e d ro = (if snapshot ro = 0
     then (case map_of (e_dbs e) d of None \<Rightarrow> [] | Some (n, rw, m) \<Rightarrow> m)
     else (case map_of (e_snaps e) (snapshot ro) of None \<Rightarrow> [] | Some m \<Rightarrow> m))"

definition ref_get :: "nat \<Rightarrow> readoptions \<Rightarrow> bytes \<Rightarrow> engine_state \<Rightarrow> (status \<times> bytes) \<times> engine_state" where
  "ref_get d ro k e = ((case map_of (ref_view e d ro) k of
     None \<Rightarrow> (missing_status, [])
   | Some v \<Rightarrow> if int (length v) < 2 ^ 63 then (ok_status, v) else (bad_status ''Corruption'', [])), e)"

definition ref_it :: "nat \<Rightarrow> (aiter \<Rightarrow> nat) \<Rightarrow> engine_state \<Rightarrow> unit \<times> engine_state" where
  "ref_it i f e = ((), case map_of (e_its e) i of
     None \<Rightarrow> e
   | Some x \<Rightarrow> e\<lparr>e_its := (i, x\<lparr>ai_pos := f x, ai_failed := False\<rparr>) # e_its e\<rparr>)"

definition ref_item :: "nat \<Rightarrow> engine_state \<Rightarrow> bytes \<times> bytes" where
  "ref_item i e = (case map_of (e_its e) i of
     None \<Rightarrow> ([], [])
   | Some x \<Rightarrow> if ai_pos x < length (ai_seq x) then ai_seq x ! ai_pos x else ([], []))"

definition ref_open :: "'f options \<Rightarrow> bytes \<Rightarrow> engine_state \<Rightarrow> (status \<times> nat) \<times> engine_state" where
  "ref_open opt n e =
     (if list_ex (\<lambda>(d, (n', rw, m)). n' = n \<and> rw \<and> map_of (e_dbs e) d = Some (n', rw, m)) (e_dbs e)
      then ((bad_status ''IO error: lock: already held by process'', 0), e)
      else case map_of (e_dirs e) n of
        None \<Rightarrow> if create_if_missing opt
          then let d = fresh (e_dbs e) in ((ok_status, d),
            e\<lparr>e_dbs := (d, (n, True, [])) # e_dbs e, e_dirs := (n, []) # e_dirs e\<rparr>)
          else ((bad_status ''Invalid argument: does not exist'', 0), e)
      | Some m \<Rightarrow> let d = fresh (e_dbs e) in ((ok_status, d), e\<lparr>e_dbs := (d, (n, True, m)) # e_dbs e\<rparr>))"

definition ref_open_ro :: "bytes \<Rightarrow> engine_state \<Rightarrow> (status \<times> nat) \<times> engine_state" where
  "ref_open_ro n e = (case map_of (e_dirs e) n of
     None \<Rightarrow> ((bad_status ''Invalid argument: does not exist'', 0), e)
   | Some m \<Rightarrow> let d = fresh (e_dbs e) in ((ok_status, d), e\<lparr>e_dbs := (d, (n, False, m)) # e_dbs e\<rparr>))"

definition ref_close :: "nat \<Rightarrow> engine_state \<Rightarrow> unit \<times> engine_state" where
  "ref_close d e = ((), case map_of (e_dbs e) d of
     None \<Rightarrow> e
   | Some (n, rw, m) \<Rightarrow> e\<lparr>e_dbs := kv_del d (e_dbs e),
       e_dirs := (if rw then (n, m) # e_dirs e else e_dirs e)\<rparr>)"

definition ref_save :: "nat \<Rightarrow> bytes \<Rightarrow> engine_state \<Rightarrow> status \<times> engine_state" where
  "ref_save c dir e = (case map_of (e_cps e) c of
     None \<Rightarrow> (bad_status ''no checkpoint'', e)
   | Some d \<Rightarrow> (case map_of (e_dbs e) d of
       None \<Rightarrow> (bad_status ''no database'', e)
     | Some (n, rw, m) \<Rightarrow>
         if map_of (e_dirs e) dir = None then (ok_status, e\<lparr>e_dirs := (dir, m) # e_dirs e\<rparr>)
         else (bad_status ''Invalid argument: Directory exists'', e)))"

definition ref_rocksdb :: "((bytes \<times> bytes option) list, table_options, engine_state) rocksdb" where
  "ref_rocksdb = \<lparr>
     def_options = \<lparr>create_if_missing = False, table_factory =
       \<lparr>block_size = 4096, filter_policy = 0, no_block_cache = False, block_cache = 0,
        block_cache_compressed = 0, whole_key_filtering = True\<rparr>\<rparr>,
     def_readoptions = \<lparr>fill_cache = True, snapshot = 0\<rparr>,
     def_writeoptions = \<lparr>sync = False\<rparr>,
     def_table_options = \<lparr>block_size = 4096, filter_policy = 0, no_block_cache = False,
       block_cache = 0, block_cache_compressed = 0, whole_key_filtering = True\<rparr>,
     NewBlockBasedTableFactory = (\<lambda>t. t),
     db_Open = ref_open,
     db_OpenForReadOnly = (\<lambda>opt n b. ref_open_ro n),
     db_delete = ref_close,
     db_Get = ref_get,
     db_Put = (\<lambda>d wo k v. ref_update d (\<lambda>m. (k, v) # m)),
     db_Delete = (\<lambda>d wo k. ref_update d (kv_del k)),
     db_Write = (\<lambda>d wo b. ref_update d (kv_apply b)),
     db_GetProperty = (\<lambda>d n e. (None, e)),
     db_NewIterator = (\<lambda>d ro e. let i = fresh (e_its e); xs = kv_sort (ref_view e d ro) in
       (i, e\<lparr>e_its := (i, \<lparr>ai_seq = xs, ai_pos = length xs, ai_failed = False\<rparr>) # e_its e\<rparr>)),
     db_GetSnapshot = (\<lambda>d e. let s = fresh (e_snaps e) in
       case map_of (e_dbs e) d of
         None \<Rightarrow> (0, e)
       | Some (n, rw, m) \<Rightarrow> (s, e\<lparr>e_snaps := (s, m) # e_snaps e\<rparr>)),
     db_ReleaseSnapshot = (\<lambda>d s e. ((), e\<lparr>e_snaps := kv_del s (e_snaps e)\<rparr>)),
     wb_new = [],
     wb_from = (\<lambda>bs. []),
     wb_Put = (\<lambda>b k v. b @ [(k, Some v)]),
     wb_Delete = (\<lambda>b k. b @ [(k, None)]),
     wb_Clear = (\<lambda>b. []),
     wb_Count = length,
     it_Valid = (\<lambda>i e. (case map_of (e_its e) i of
       None \<Rightarrow> False | Some x \<Rightarrow> ai_pos x < length (ai_seq x), e)),
     it_SeekToFirst = (\<lambda>i. ref_it i (\<lambda>x. 0)),
     it_SeekToLast = (\<lambda>i. ref_it i (\<lambda>x. last_pos (ai_seq x))),
     it_Seek = (\<lambda>i k. ref_it i (\<lambda>x. seek_pos k (ai_seq x))),
     it_SeekForPrev = (\<lambda>i k. ref_it i (\<lambda>x. seek_prev_pos k (ai_seq x))),
     it_Next = (\<lambda>i. ref_it i (\<lambda>x. Suc (ai_pos x))),
     it_Prev = (\<lambda>i. ref_it i (\<lambda>x. prev_pos (ai_pos x) (ai_seq x))),
     it_key = (\<lambda>i e. (fst (ref_item i e), e)),
     it_value = (\<lambda>i e. (snd (ref_item i e), e)),
     it_status = (\<lambda>i e. (case map_of (e_its e) i of
       None \<Rightarrow> ok_status | Some x \<Rightarrow> if ai_failed x then bad_status ''Corruption'' else ok_status, e)),
     it_delete = (\<lambda>i e. ((), e\<lparr>e_its := kv_del i (e_its e)\<rparr>)),
     cp_Create = (\<lambda>d e. let c = fresh (e_cps e) in ((ok_status, c), e\<lparr>e_cps := (c, d) # e_cps e\<rparr>)),
     cp_CreateCheckpoint = ref_save,
     cp_delete = (\<lambda>c e. ((), e\<lparr>e_cps := kv_del c (e_cps e)\<rparr>)),
     NewLRUCache = (\<lambda>n e. (1, e)),
     NewBloomFilterPolicy = (\<lambda>n b e. (1, e)),
     fp_CreateFilter = (\<lambda>p ks e. ([], e)),
     fp_KeyMayMatch = (\<lambda>p k f e. (True, e)),
     fp_delete = (\<lambda>p e. ((), e))\<rparr>"

definition ref_abs :: "engine_state \<Rightarrow> astate" where
  "ref_abs e = \<lparr>
     a_db = (\<lambda>d. map_option (\<lambda>(n, rw, m). \<lparr>ad_name = n, ad_rw = rw, ad_kv = map_of m\<rparr>)
               (map_of (e_dbs e) d)),
     a_snap = (\<lambda>s. map_option map_of (map_of (e_snaps e) s)),
     a_it = map_of (e_its e),
     a_cp = map_of (e_cps e),
     a_disk = (\<lambda>n. map_option map_of (map_of (e_dirs e) n))\<rparr>"

subsection \<open>It meets the laws\<close>

lemma fold_max_ge:
  fixes xs :: "(nat \<times> 'a) list"
  shows "b \<le> fold (\<lambda>x. max (fst x)) xs b"
    and "x \<in> set xs \<Longrightarrow> fst x \<le> fold (\<lambda>x. max (fst x)) xs b"
proof (induction xs arbitrary: b)
  case (Cons y ys)
  { case 1
    show ?case using Cons.IH(1) [of "max (fst y) b"] by simp
  next
    case 2
    then show ?case using Cons.IH(1) [of "max (fst y) b"] Cons.IH(2) by auto }
qed simp_all

lemma fresh_not_in [simp]: "map_of xs (fresh xs) = None"
proof -
  have "fresh xs \<notin> fst ` set xs"
    using fold_max_ge(2) [of _ xs 0] by (force simp: fresh_def)
  then show ?thesis by (simp add: map_of_eq_None_iff)
qed

lemma fresh_nonzero [simp]: "fresh xs \<noteq> 0"
  by (simp add: fresh_def)

lemma map_of_kv_del [simp]: "map_of (kv_del k m) = (map_of m)(k := None)"
  by (induction m) (auto simp: kv_del_def)

lemma map_of_kv_apply [simp]: "map_of (kv_apply ops m) = apply_ops ops (map_of m)"
  by (induction ops m rule: kv_apply.induct) (simp_all add: fun_upd_def)

lemma key_sorted_kv_sort [simp]: "key_sorted (kv_sort m)"
  by (simp add: key_sorted_def kv_sort_def comp_def strict_sorted_iff)

lemma map_of_kv_sort [simp]: "map_of (kv_sort m) = map_of m"
proof
  fix k :: bytes
  have *: "map_of (map (\<lambda>k. (k, f k)) ks) k = (if k \<in> set ks then Some (f k) else None)"
    for f :: "bytes \<Rightarrow> bytes" and ks
    by (induction ks) auto
  show "map_of (kv_sort m) k = map_of m k"
  proof (cases "map_of m k")
    case None
    then have "k \<notin> set (map fst m)" by (simp add: map_of_eq_None_iff)
    with None show ?thesis by (simp add: kv_sort_def *)
  next
    case (Some v)
    then have "k \<in> set (map fst m)" by (force dest: map_of_SomeD)
    with Some show ?thesis by (simp add: kv_sort_def *)
  qed
qed

lemma ref_abs_simps [simp]:
  "a_db (ref_abs e) d = map_option (\<lambda>(n, rw, m). \<lparr>ad_name = n, ad_rw = rw, ad_kv = map_of m\<rparr>)
     (map_of (e_dbs e) d)"
  "a_snap (ref_abs e) s = map_option map_of (map_of (e_snaps e) s)"
  "a_it (ref_abs e) = map_of (e_its e)"
  "a_cp (ref_abs e) = map_of (e_cps e)"
  "a_disk (ref_abs e) n = map_option map_of (map_of (e_dirs e) n)"
  by (simp_all add: ref_abs_def)

lemma astate_eqI:
  "a_db a = a_db b \<Longrightarrow> a_snap a = a_snap b \<Longrightarrow> a_it a = a_it b \<Longrightarrow> a_cp a = a_cp b \<Longrightarrow>
   a_disk a = a_disk b \<Longrightarrow> a = (b :: astate)"
  by simp

text \<open>Writing: the abstract effect of an update of one database's list.\<close>

lemma ref_update_law:
  assumes "ref_update d f e = (s, e')" "a_db (ref_abs e) d = Some db"
    and "\<And>m. map_of (f m) = g (map_of m)"
  shows "\<exists>m. ref_abs e' = a_write d db m (ref_abs e) \<and> (st_ok s \<longrightarrow> ad_rw db \<and> m = g (ad_kv db))"
proof -
  obtain n rw m where db: "map_of (e_dbs e) d = Some (n, rw, m)"
      "db = \<lparr>ad_name = n, ad_rw = rw, ad_kv = map_of m\<rparr>"
    using assms(2) by auto
  show ?thesis
  proof (cases rw)
    case True
    then show ?thesis using assms(1,3) db
      by (intro exI [of _ "g (map_of m)"] conjI astate_eqI)
        (auto simp: ref_update_def ok_status_def a_write_def fun_eq_iff)
  next
    case False
    then show ?thesis using assms(1) db
      by (intro exI [of _ "map_of m"] conjI astate_eqI)
        (auto simp: ref_update_def bad_status_def a_write_def fun_eq_iff)
  qed
qed

lemma ref_moved:
  "map_of (e_its e) i = Some x \<Longrightarrow> f x = p \<Longrightarrow> ref_it i f e = (u, e') \<Longrightarrow> moved i x p (ref_abs e) (ref_abs e')"
  by (auto simp: ref_it_def moved_def a_move_def fun_eq_iff intro!: astate_eqI disjI1)

lemmas ref_calls = ref_rocksdb_def ref_get_def ref_view_def ref_item_def ok_status_def
  bad_status_def missing_status_def a_view_def

interpretation ref: rocks_kv ref_rocksdb ref_abs "\<lambda>b. b"
proof unfold_locales
  fix d ro k e s v e' db
  assume "db_Get ref_rocksdb d ro k e = ((s, v), e')" "a_db (ref_abs e) d = Some db"
    "snapshot ro = 0 \<or> a_snap (ref_abs e) (snapshot ro) \<noteq> None"
  then show "ref_abs e' = ref_abs e \<and>
      (st_ok s \<longrightarrow> a_view (ref_abs e) db ro k = Some v \<and> length v < 2 ^ 63) \<and>
      (\<not> st_ok s \<and> st_notfound s \<longrightarrow> a_view (ref_abs e) db ro k = None)"
    by (auto simp: ref_calls split: option.splits if_splits)
next
  fix d wo k v e s e' db
  assume "db_Put ref_rocksdb d wo k v e = (s, e')" "a_db (ref_abs e) d = Some db"
  then show "\<exists>m. ref_abs e' = a_write d db m (ref_abs e) \<and>
      (st_ok s \<longrightarrow> ad_rw db \<and> m = (ad_kv db)(k \<mapsto> v))"
    using ref_update_law [of d "\<lambda>m. (k, v) # m" e s e' db "\<lambda>m. m(k \<mapsto> v)"]
    by (auto simp: ref_rocksdb_def fun_upd_def)
next
  fix d wo k e s e' db
  assume "db_Delete ref_rocksdb d wo k e = (s, e')" "a_db (ref_abs e) d = Some db"
  then show "\<exists>m. ref_abs e' = a_write d db m (ref_abs e) \<and>
      (st_ok s \<longrightarrow> ad_rw db \<and> m = (ad_kv db)(k := None))"
    using ref_update_law [of d "kv_del k" e s e' db "\<lambda>m. m(k := None)"] by (simp add: ref_rocksdb_def)
next
  fix d wo b e s e' db
  assume "db_Write ref_rocksdb d wo b e = (s, e')" "a_db (ref_abs e) d = Some db"
  then show "\<exists>m. ref_abs e' = a_write d db m (ref_abs e) \<and>
      (st_ok s \<longrightarrow> ad_rw db \<and> m = apply_ops b (ad_kv db))"
    using ref_update_law [of d "kv_apply b" e s e' db "apply_ops b"] by (simp add: ref_rocksdb_def)
qed (simp_all add: ref_rocksdb_def)

interpretation ref: rocks_snap ref_rocksdb ref_abs "\<lambda>b. b"
  by unfold_locales
    (auto simp: ref_rocksdb_def Let_def fun_eq_iff intro!: astate_eqI)

interpretation ref: rocks_iter ref_rocksdb ref_abs "\<lambda>b. b"
proof unfold_locales
  fix d ro e i e' db
  assume new: "db_NewIterator ref_rocksdb d ro e = (i, e')" "a_db (ref_abs e) d = Some db"
    "snapshot ro = 0 \<or> a_snap (ref_abs e) (snapshot ro) \<noteq> None"
  then have "map_of (ref_view e d ro) = a_view (ref_abs e) db ro"
    by (auto simp: ref_view_def a_view_def)
  with new show "a_it (ref_abs e) i = None \<and>
      (\<exists>xs. key_sorted xs \<and> map_of xs = a_view (ref_abs e) db ro \<and>
        ref_abs e' = (ref_abs e)\<lparr>a_it := (a_it (ref_abs e))
          (i \<mapsto> \<lparr>ai_seq = xs, ai_pos = length xs, ai_failed = False\<rparr>)\<rparr>)"
    by (auto simp: ref_rocksdb_def Let_def fun_eq_iff
        intro!: exI [of _ "kv_sort (ref_view e d ro)"] astate_eqI)
qed (auto simp: ref_rocksdb_def ref_item_def ok_status_def bad_status_def fun_eq_iff
      intro: ref_moved intro!: astate_eqI split: if_splits)

interpretation ref: rocks_dir ref_rocksdb ref_abs "\<lambda>b. b"
  by unfold_locales
    (auto simp: ref_rocksdb_def ref_open_def ref_open_ro_def ref_close_def ref_save_def
      disk_contents_def ok_status_def bad_status_def Let_def fun_eq_iff
      intro!: astate_eqI split: option.splits if_splits)

lemma ref_accepts: "accepts ref_rocksdb ref_abs"
  by (auto simp: accepts_def ref_rocksdb_def ref_update_def ok_status_def split: option.splits)

lemma ref_saves: "saves ref_rocksdb ref_abs"
  by (auto simp: saves_def ref_rocksdb_def ref_save_def ok_status_def split: option.splits)

lemma ref_snapshots: "snapshots ref_rocksdb ref_abs"
  by (auto simp: snapshots_def ref_rocksdb_def Let_def fresh_def split: option.splits)

end
