(* ===== verification/StoreSpec.thy ===== *)
theory StoreSpec
  imports Store RocksSpec
begin

text \<open>
  What the Go store promises a client: a map with errors, and that the calls of
  \<^verbatim>\<open>store.go\<close>, through the binding and the shim, implement it on any engine that meets the
  laws of \<open>RocksSpec\<close>. Snapshots, checkpoints, reopening and iteration follow.
\<close>

section \<open>The contract: a finite map with errors\<close>

text \<open>
  A client's calls. The outcome of a call is the error's text, or the value found by a
  lookup (\<open>None\<close> for a missing key and for every write).
\<close>

datatype kv_op =
    KGet bytes
  | KSet bytes bytes
  | KDelete bytes
  | KWrite "(bytes \<times> bytes option) list"

type_synonym outcome = "bytes + bytes option"

fun kv_step :: "kv_op \<Rightarrow> contents \<Rightarrow> bytes option \<times> contents" where
  "kv_step (KGet k) m = (m k, m)"
| "kv_step (KSet k v) m = (None, m(k \<mapsto> v))"
| "kv_step (KDelete k) m = (None, m(k := None))"
| "kv_step (KWrite ops) m = (None, apply_ops ops m)"

fun kv_run :: "kv_op list \<Rightarrow> contents \<Rightarrow> bytes option list \<times> contents" where
  "kv_run [] m = ([], m)"
| "kv_run (c # cs) m = (case kv_step c m of (x, m1) \<Rightarrow> case kv_run cs m1 of (xs, m2) \<Rightarrow> (x # xs, m2))"

definition no_error :: "outcome list \<Rightarrow> bool" where
  "no_error rs \<longleftrightarrow> list_all (\<lambda>r. \<not> isl r) rs"

text \<open>
  What a client relies on: an invariant that ties the state to a map, and one law, that a
  call with a nil error does what the map does.
\<close>

locale kv_client =
  fixes rep :: "'s \<Rightarrow> contents \<Rightarrow> bool"
    and call :: "kv_op \<Rightarrow> ('s, outcome) io"
  assumes call_law: "rep w m \<Longrightarrow>
    wp (call c) (\<lambda>r w'. \<exists>m'. rep w' m' \<and> (\<forall>x. r = Inr x \<longrightarrow> kv_step c m = (x, m'))) w"
begin

lemma run_law:
  assumes "rep w m"
  shows "wp (io_map cs call) (\<lambda>rs w'. \<exists>m'. rep w' m' \<and>
    (no_error rs \<longrightarrow> (\<exists>xs. rs = map Inr xs \<and> kv_run cs m = (xs, m')))) w"
  using assms
proof (induction cs arbitrary: w m)
  case Nil
  then show ?case by (auto simp: no_error_def)
next
  case (Cons c cs)
  show ?case
    unfolding io_map.simps wp_bnd
  proof (rule wp_mono [OF call_law [OF Cons.prems, of c]], elim exE conjE)
    fix r :: outcome and w1 :: 's and m1
    assume m1: "rep w1 m1" "\<forall>x. r = Inr x \<longrightarrow> kv_step c m = (x, m1)"
    show "wp (io_map cs call) (\<lambda>x. wp (ret (r # x)) (\<lambda>rs w'. \<exists>m'. rep w' m' \<and>
        (no_error rs \<longrightarrow> (\<exists>xs. rs = map Inr xs \<and> kv_run (c # cs) m = (xs, m'))))) w1"
      by (rule wp_mono [OF Cons.IH [OF m1(1)]])
        (use m1(2) in \<open>cases r; fastforce simp: no_error_def\<close>)
  qed
qed

end

section \<open>The Go store as a client sees it\<close>

text \<open>
  One call through the store: a lookup reads the slice and frees it, a batch is created,
  filled, written and destroyed.
\<close>

definition batch_op ::
  "('b, 'f, 'e) rocksdb \<Rightarrow> WriteBatch \<Rightarrow> bytes \<times> bytes option \<Rightarrow> ('b, 'f, 'e, unit) rio" where
  "batch_op R wb x = (case x of (k, Some v) \<Rightarrow> WriteBatch_Put R wb k v
     | (k, None) \<Rightarrow> WriteBatch_Delete R wb k)"

definition err_outcome :: "bytes option \<Rightarrow> outcome" where
  "err_outcome r = (case r of None \<Rightarrow> Inr None | Some e \<Rightarrow> Inl e)"

definition slice_outcome :: "bytes + Slice \<Rightarrow> ('b, 'f, 'e, outcome) rio" where
  "slice_outcome r = (case r of
     Inl e \<Rightarrow> ret (Inl e)
   | Inr sl \<Rightarrow> bnd (h_bytes (Slice_Data sl)) (\<lambda>bs. andthen (Slice_Free sl)
       (ret (Inr (if h_data (Slice_Data sl) = Null then None else Some bs)))))"

fun store_op :: "('b, 'f, 'e) rocksdb \<Rightarrow> Store \<Rightarrow> kv_op \<Rightarrow> ('b, 'f, 'e, outcome) rio" where
  "store_op R s (KGet k) = bnd (Store_Get R s k) slice_outcome"
| "store_op R s (KSet k v) = bnd (Store_SetOne R s k v) (\<lambda>r. ret (err_outcome r))"
| "store_op R s (KDelete k) = bnd (Store_Delete R s k) (\<lambda>r. ret (err_outcome r))"
| "store_op R s (KWrite ops) =
     bnd (Store_NewWriteBatch R s) (\<lambda>wb.
     andthen (io_for ops (batch_op R wb))
     (bnd (Store_WriteBatch R s wb) (\<lambda>r.
     andthen (WriteBatch_Destroy wb) (ret (err_outcome r)))))"

definition store_run ::
  "('b, 'f, 'e) rocksdb \<Rightarrow> Store \<Rightarrow> kv_op list \<Rightarrow> ('b, 'f, 'e, outcome list) rio" where
  "store_run R s cs = io_map cs (store_op R s)"

lemma a_write_simps [simp]:
  "a_db (a_write d db m a) d = Some (db\<lparr>ad_kv := m\<rparr>)"
  "a_write d (db\<lparr>ad_kv := m\<rparr>) m' (a_write d db m a) = a_write d db m' a"
  "a_snap (a_write d db m a) = a_snap a" "a_it (a_write d db m a) = a_it a"
  "a_cp (a_write d db m a) = a_cp a" "a_disk (a_write d db m a) = a_disk a"
  by (simp_all add: a_write_def)

lemma a_write_self [simp]: "a_db a d = Some db \<Longrightarrow> a_write d db (ad_kv db) a = a"
  by (simp add: a_write_def fun_upd_idem)

lemma fun_upd_None_id [simp]: "h p = None \<Longrightarrow> h(p := None) = h"
  by (simp add: fun_upd_idem)

lemma c_ok_unalloc:
  "c_ok w' \<Longrightarrow> c_heap w' = (c_heap w)(p \<mapsto> x) \<Longrightarrow> c_heap w p = None \<Longrightarrow> c_ok (w'\<lparr>c_heap := c_heap w\<rparr>)"
  by (rule c_ok_heap_del [of w' _ p]) simp_all

lemma wp_slice_outcome:
  "wp (slice_outcome (Inl e)) Q w = Q (Inl e) w"
  "wp (slice_outcome (Inr (NewSlice Null 0))) Q w = Q (Inr None) w"
  by (simp_all add: slice_outcome_def)
    (simp add: Slice_Free_def Slice_Data_def charToByte_def NewSlice_def)

lemma wp_slice_outcome_value:
  assumes "c_heap w p = Some (Chars v)" "length v < 2 ^ 63"
  shows "wp (slice_outcome (Inr (NewSlice (CPtr p) (length v)))) Q w =
    Q (Inr (Some v)) (w\<lparr>c_heap := (c_heap w)(p := None)\<rparr>)"
  using assms
  by (simp add: slice_outcome_def wp_h_bytes_block)
    (simp add: Slice_Free_def Slice_Data_def charToByte_def NewSlice_def)

text \<open>Filling a batch appends its operations in order and touches only the batch.\<close>

definition batch_at ::
  "('b \<Rightarrow> (bytes \<times> bytes option) list) \<Rightarrow> ('b, 'f, 'e) world \<Rightarrow> WriteBatch \<Rightarrow>
     (bytes \<times> bytes option) list \<Rightarrow> ('b, 'f, 'e) world \<Rightarrow> bool" where
  "batch_at bops w wb ops w' \<longleftrightarrow> c_ok w' \<and> eng w' = eng w \<and> go_same w w' \<and> c_heap w (wb_c wb) = None \<and>
     (\<exists>b. bops b = ops \<and> c_heap w' = (c_heap w)(wb_c wb \<mapsto> Obj (WbObj b)))"

context rocks_kv
begin

lemma status_error_None [simp]: "status_error s = None \<longleftrightarrow> st_ok s"
  by (simp add: status_error_def)

text \<open>Lookups: the slice holds the value, and reading and freeing it leaves memory as it was.\<close>

lemma wp_get:
  assumes "c_ok w" "store_live w s d ro wo" "a_db (\<alpha> (eng w)) d = Some db"
    and "snapshot ro = 0 \<or> a_snap (\<alpha> (eng w)) (snapshot ro) \<noteq> None"
  shows "wp (store_op R s (KGet k)) (\<lambda>r w'. mem_same w w' \<and> \<alpha> (eng w') = \<alpha> (eng w) \<and>
    (\<forall>x. r = Inr x \<longrightarrow> x = a_view (\<alpha> (eng w)) db ro k)) w"
proof -
  obtain gd where gd: "s_db s = Some gd" "live_db w gd d" "live_ro w (s_ropt s) ro"
    using assms(2) by (elim store_liveE)
  obtain st v e' where g: "db_Get R d ro k (eng w) = ((st, v), e')"
    by (metis prod.exhaust)
  note law = get_law [OF g assms(3,4)]
  show ?thesis
    unfolding store_op.simps wp_bnd Store_Get_def with_db_def gd(1) option.case
    by (rule wp_mono [OF wp_DB_Get [OF assms(1) gd(2,3)]])
      (use law assms(1) in \<open>auto simp: g get_outcome_def wp_slice_outcome wp_slice_outcome_value
          mem_same_def intro: c_ok_unalloc split: if_splits\<close>)
qed

text \<open>The slice a lookup hands out, as long as it is not freed.\<close>

lemma wp_get_slice:
  assumes "c_ok w" "store_live w s d ro wo" "a_db (\<alpha> (eng w)) d = Some db"
    and "snapshot ro = 0 \<or> a_snap (\<alpha> (eng w)) (snapshot ro) \<noteq> None"
  shows "wp (Store_Get R s k) (\<lambda>r w'. c_ok w' \<and> heap_keeps w w' \<and> \<alpha> (eng w') = \<alpha> (eng w) \<and> (case r of
    Inl e \<Rightarrow> \<not> serves R \<alpha>
  | Inr sl \<Rightarrow> (case a_view (\<alpha> (eng w)) db ro k of
      None \<Rightarrow> sl = NewSlice Null 0 \<and> c_heap w' = c_heap w
    | Some v \<Rightarrow> length v < 2 ^ 63 \<and> (\<exists>p. sl = NewSlice (CPtr p) (length v) \<and> c_heap w p = None \<and>
        c_heap w' = (c_heap w)(p \<mapsto> Chars v))))) w"
proof -
  obtain gd where gd: "s_db s = Some gd" "live_db w gd d" "live_ro w (s_ropt s) ro"
    using assms(2) by (elim store_liveE)
  obtain st v e' where g: "db_Get R d ro k (eng w) = ((st, v), e')"
    by (metis prod.exhaust)
  note law = get_law [OF g assms(3,4)]
  have "\<not> serves R \<alpha>" if "\<not> st_ok st" "\<not> st_notfound st"
    using that g assms(3) unfolding serves_def by blast
  with law show ?thesis
    unfolding Store_Get_def with_db_def gd(1) option.case wp_bnd
    by (intro wp_mono [OF wp_DB_Get [OF assms(1) gd(2,3)]])
      (auto simp: g get_outcome_def mem_same_def intro: heap_keeps_same [OF heap_keeps_refl] heap_keeps_alloc split: if_splits)
qed

lemma wp_set:
  assumes "c_ok w" "store_live w s d ro wo" "a_db (\<alpha> (eng w)) d = Some db"
  shows "wp (store_op R s (KSet k v)) (\<lambda>r w'. mem_same w w' \<and>
    (\<exists>m. \<alpha> (eng w') = a_write d db m (\<alpha> (eng w)) \<and>
      (\<forall>x. r = Inr x \<longrightarrow> ad_rw db \<and> x = None \<and> m = (ad_kv db)(k \<mapsto> v)))) w"
proof -
  obtain gd where gd: "s_db s = Some gd" "live_db w gd d" "live_wo w (s_wopt s) wo"
    using assms(2) by (elim store_liveE)
  show ?thesis
    unfolding store_op.simps wp_bnd wp_ret Store_SetOne_def with_db_def gd(1) option.case
    by (rule wp_mono [OF wp_DB_Put [OF assms(1) gd(2,3)]])
      (use put_law [OF _ assms(3), of wo k v] in
        \<open>auto simp: map_prod_def err_outcome_def split: prod.splits option.splits\<close>)
qed

lemma wp_delete:
  assumes "c_ok w" "store_live w s d ro wo" "a_db (\<alpha> (eng w)) d = Some db"
  shows "wp (store_op R s (KDelete k)) (\<lambda>r w'. mem_same w w' \<and>
    (\<exists>m. \<alpha> (eng w') = a_write d db m (\<alpha> (eng w)) \<and>
      (\<forall>x. r = Inr x \<longrightarrow> ad_rw db \<and> x = None \<and> m = (ad_kv db)(k := None)))) w"
proof -
  obtain gd where gd: "s_db s = Some gd" "live_db w gd d" "live_wo w (s_wopt s) wo"
    using assms(2) by (elim store_liveE)
  show ?thesis
    unfolding store_op.simps wp_bnd wp_ret Store_Delete_def with_db_def gd(1) option.case
    by (rule wp_mono [OF wp_DB_Delete [OF assms(1) gd(2,3)]])
      (use delete_law [OF _ assms(3), of wo k] in
        \<open>auto simp: map_prod_def err_outcome_def split: prod.splits option.splits\<close>)
qed

lemma wp_batch_new: "c_ok w \<Longrightarrow> wp (Store_NewWriteBatch R s) (\<lambda>wb. batch_at bops w wb []) w"
  unfolding Store_NewWriteBatch_def
  by (rule wp_mono [OF wp_NewWriteBatch]) (use batch_new in \<open>auto simp: batch_at_def\<close>)

lemma wp_batch_op:
  assumes "batch_at bops w wb ops w1"
  shows "wp (batch_op R wb x) (\<lambda>_. batch_at bops w wb (ops @ [x])) w1"
proof -
  obtain b where b: "bops b = ops" "live_wb w1 wb b" "c_ok w1"
    using assms by (auto simp: batch_at_def)
  obtain k vo where x: "x = (k, vo)" by (cases x)
  show ?thesis
  proof (cases vo)
    case None
    then show ?thesis unfolding x batch_op_def
      by (simp, intro wp_mono [OF wp_WriteBatch_Delete [OF b(3,2)]])
        (use assms b in \<open>auto simp: batch_at_def batch_delete [symmetric]\<close>)
  next
    case (Some v)
    then show ?thesis unfolding x batch_op_def
      by (simp, intro wp_mono [OF wp_WriteBatch_Put [OF b(3,2)]])
        (use assms b in \<open>auto simp: batch_at_def batch_put [symmetric]\<close>)
  qed
qed

lemma wp_batch_fill:
  "batch_at bops w wb [] w1 \<Longrightarrow> wp (io_for ops (batch_op R wb)) (\<lambda>_. batch_at bops w wb ops) w1"
  by (rule wp_io_for [where I = "batch_at bops w wb"]) (auto intro: wp_batch_op)

lemma wp_batch_write:
  assumes "store_live w s d ro wo" "a_db (\<alpha> (eng w)) d = Some db" "batch_at bops w wb ops w1"
  shows "wp (Store_WriteBatch R s wb) (\<lambda>r w2. mem_same w1 w2 \<and>
    (r \<noteq> None \<longrightarrow> \<not> (ad_rw db \<and> accepts R \<alpha>)) \<and>
    (\<exists>m. \<alpha> (eng w2) = a_write d db m (\<alpha> (eng w)) \<and>
      (r = None \<longrightarrow> ad_rw db \<and> m = apply_ops ops (ad_kv db)))) w1"
proof -
  obtain b where b: "bops b = ops" "live_wb w1 wb b" "c_ok w1" "eng w1 = eng w"
    using assms(3) by (auto simp: batch_at_def)
  have keeps: "heap_keeps w w1"
    using assms(3) unfolding batch_at_def by (blast intro: heap_keeps_alloc)
  obtain gd where gd: "s_db s = Some gd" "live_db w1 gd d" "live_wo w1 (s_wopt s) wo"
    using store_live_keeps [OF assms(1) keeps] by (elim store_liveE)
  obtain st e' where st: "db_Write R d wo b (eng w) = (st, e')" by fastforce
  have acc: "st_ok st" if "ad_rw db" "accepts R \<alpha>"
    using that st assms(2) unfolding accepts_def by blast
  show ?thesis
    unfolding Store_WriteBatch_def with_db_def gd(1) option.case
    by (rule wp_mono [OF wp_DB_Write [OF b(3) gd(2,3) b(2)]])
      (use write_law [OF st assms(2)] b acc in \<open>auto simp: st\<close>)
qed

lemma wp_batch_destroy:
  assumes "batch_at bops w wb ops w1" "mem_same w1 w2"
  shows "wp (WriteBatch_Destroy wb) (\<lambda>_ w3. mem_same w w3 \<and> eng w3 = eng w2) w2"
proof -
  obtain b where b: "live_wb w2 wb b" "c_ok w2"
    using assms by (auto simp: batch_at_def mem_same_def)
  show ?thesis
    by (rule wp_mono [OF wp_WriteBatch_Destroy [OF b(2,1)]])
      (use assms in \<open>auto simp: batch_at_def mem_same_def\<close>)
qed

lemma wp_batch:
  assumes "c_ok w" "store_live w s d ro wo" "a_db (\<alpha> (eng w)) d = Some db"
  shows "wp (store_op R s (KWrite ops)) (\<lambda>r w'. mem_same w w' \<and>
    (isl r \<longrightarrow> \<not> (ad_rw db \<and> accepts R \<alpha>)) \<and>
    (\<exists>m. \<alpha> (eng w') = a_write d db m (\<alpha> (eng w)) \<and>
      (\<forall>x. r = Inr x \<longrightarrow> ad_rw db \<and> x = None \<and> m = apply_ops ops (ad_kv db)))) w"
  unfolding store_op.simps wp_bnd wp_ret
  by (rule wp_mono [OF wp_batch_new [OF assms(1)]], rule wp_mono [OF wp_batch_fill], assumption,
      rule wp_mono [OF wp_batch_write [OF assms(2,3)]], assumption,
      rule wp_mono [OF wp_batch_destroy [where ops = ops]])
    (auto simp: err_outcome_def split: option.splits)

end

section \<open>The store refines the map\<close>

text \<open>
  An open store: its handles are live in the world \<open>w0\<close> and its database is open in the
  engine. The invariant says that memory is as it was and that, of everything the engine
  knows, only this database's contents may differ.
\<close>

definition store_rep ::
  "('e \<Rightarrow> astate) \<Rightarrow> ('b, 'f, 'e) world \<Rightarrow> nat \<Rightarrow> adb \<Rightarrow> ('b, 'f, 'e) world \<Rightarrow> contents \<Rightarrow> bool" where
  "store_rep \<alpha> w0 d db w m \<longleftrightarrow> mem_same w0 w \<and> \<alpha> (eng w) = a_write d db m (\<alpha> (eng w0))"

locale open_store = rocks_kv R \<alpha> bops
  for R :: "('b, 'f, 'e) rocksdb" and \<alpha> bops +
  fixes w0 :: "('b, 'f, 'e) world" and s d db ro wo
  assumes w0_ok: "c_ok w0"
    and handles: "store_live w0 s d ro wo"
    and is_open: "a_db (\<alpha> (eng w0)) d = Some db"
    and no_snapshot: "snapshot ro = 0"
begin

lemma rep_live:
  assumes "store_rep \<alpha> w0 d db w m"
  shows "c_ok w" "store_live w s d ro wo" "a_db (\<alpha> (eng w)) d = Some (db\<lparr>ad_kv := m\<rparr>)"
  using assms handles by (auto simp: store_rep_def mem_same_def intro: store_live_same)

lemma rep_step:
  assumes "store_rep \<alpha> w0 d db w m" "mem_same w w'"
    and "\<alpha> (eng w') = a_write d (db\<lparr>ad_kv := m\<rparr>) m' (\<alpha> (eng w))"
  shows "store_rep \<alpha> w0 d db w' m'"
  using assms by (auto simp: store_rep_def intro: mem_same_trans)

lemma rep_read:
  "store_rep \<alpha> w0 d db w m \<Longrightarrow> mem_same w w' \<Longrightarrow> \<alpha> (eng w') = \<alpha> (eng w) \<Longrightarrow> store_rep \<alpha> w0 d db w' m"
  by (auto simp: store_rep_def intro: mem_same_trans)

lemma rep_init: "store_rep \<alpha> w0 d db w0 (ad_kv db)"
  using w0_ok is_open by (simp add: store_rep_def)

end

sublocale open_store \<subseteq> client: kv_client "store_rep \<alpha> w0 d db" "store_op R s"
proof
  fix w m c
  assume rep: "store_rep \<alpha> w0 d db w m"
  note live = rep_live [OF rep]
  show "wp (store_op R s c) (\<lambda>r w'. \<exists>m'. store_rep \<alpha> w0 d db w' m' \<and>
      (\<forall>x. r = Inr x \<longrightarrow> kv_step c m = (x, m'))) w"
  proof (cases c)
    case (KGet k)
    show ?thesis unfolding KGet
      by (rule wp_mono [OF wp_get [OF live]])
        (use no_snapshot rep_read [OF rep] in \<open>auto simp: a_view_def\<close>)
  next
    case (KSet k v)
    show ?thesis unfolding KSet
      by (rule wp_mono [OF wp_set [OF live]]) (use rep_step [OF rep] in fastforce)
  next
    case (KDelete k)
    show ?thesis unfolding KDelete
      by (rule wp_mono [OF wp_delete [OF live]]) (use rep_step [OF rep] in fastforce)
  next
    case (KWrite ops)
    show ?thesis unfolding KWrite
      by (rule wp_mono [OF wp_batch [OF live]]) (use rep_step [OF rep] in fastforce)
  qed
qed

declare store_op.simps [simp del]

section \<open>Snapshots, checkpoints, reopening\<close>

lemma wp_Store_SetSnapshot:
  assumes "c_ok w" "store_live w s d ro wo"
    and "case sn of None \<Rightarrow> x = 0 | Some t \<Rightarrow> c_heap w (sn_c t) = Some (Obj (SnapObj x))"
  shows "wp (Store_SetSnapshot s sn) (\<lambda>_ w'. c_ok w' \<and> store_live w' s d (ro\<lparr>snapshot := x\<rparr>) wo \<and>
    eng w' = eng w \<and> c_heap w' = (c_heap w)(ro_c (s_ropt s) \<mapsto> Obj (RoObj (ro\<lparr>snapshot := x\<rparr>)))) w"
proof -
  obtain gd where gd: "s_db s = Some gd" "live_db w gd d" "live_ro w (s_ropt s) ro"
      "live_wo w (s_wopt s) wo"
    using assms(2) by (elim store_liveE)
  have "db_c gd \<noteq> ro_c (s_ropt s)" "wo_c (s_wopt s) \<noteq> ro_c (s_ropt s)"
    using gd by auto
  with assms gd show ?thesis
    by (cases sn) (auto simp: Store_SetSnapshot_def SetSnapshot_def rdb_readoptions_set_snapshot_def
        live_nonnull store_live_def c_ok_upd)
qed

text \<open>
  Take a snapshot, make any calls, read a key under the snapshot, drop the snapshot from the
  read options and read the key again (\<^verbatim>\<open>TestSnapshot\<close> with any calls in between).
\<close>

definition read_at ::
  "('b, 'f, 'e) rocksdb \<Rightarrow> Store \<Rightarrow> Snapshot option \<Rightarrow> bytes \<Rightarrow> ('b, 'f, 'e, outcome) rio" where
  "read_at R s sn k = andthen (Store_SetSnapshot s sn) (store_op R s (KGet k))"

definition snapshot_session ::
  "('b, 'f, 'e) rocksdb \<Rightarrow> Store \<Rightarrow> kv_op list \<Rightarrow> bytes \<Rightarrow>
     ('b, 'f, 'e, outcome list \<times> outcome \<times> outcome) rio" where
  "snapshot_session R s cs k =
     bnd (Store_NewSnapshot R s) (\<lambda>sn.
     bnd (store_run R s cs) (\<lambda>rs.
     bnd (read_at R s (Some sn) k) (\<lambda>r1.
     bnd (read_at R s None k) (\<lambda>r2. ret (rs, r1, r2)))))"

text \<open>Any sequence of calls on an open store.\<close>

context open_store
begin

lemma run_open:
  "wp (store_run R s cs) (\<lambda>rs w'. mem_same w0 w' \<and>
    (\<exists>m. \<alpha> (eng w') = a_write d db m (\<alpha> (eng w0)) \<and>
      (no_error rs \<longrightarrow> (\<exists>xs. rs = map Inr xs \<and> kv_run cs (ad_kv db) = (xs, m))))) w0"
  using client.run_law [OF rep_init, of cs] by (simp add: store_run_def store_rep_def conj_assoc)

end

lemma wp_store_run:
  assumes "rocks_kv R \<alpha> bops" "c_ok w" "store_live w s d ro wo" "a_db (\<alpha> (eng w)) d = Some db"
    and "snapshot ro = 0"
  shows "wp (store_run R s cs) (\<lambda>rs w'. mem_same w w' \<and>
    (\<exists>m. \<alpha> (eng w') = a_write d db m (\<alpha> (eng w)) \<and>
      (no_error rs \<longrightarrow> (\<exists>xs. rs = map Inr xs \<and> kv_run cs (ad_kv db) = (xs, m))))) w"
proof -
  have os: "open_store R \<alpha> bops w s d db ro wo"
    using assms by (simp add: open_store_def open_store_axioms_def)
  show ?thesis by (rule open_store.run_open [OF os])
qed

text \<open>A read-only database accepts no write.\<close>

definition is_write :: "kv_op \<Rightarrow> bool" where
  "is_write c = (case c of KGet k \<Rightarrow> False | _ \<Rightarrow> True)"

context rocks_kv
begin

lemma wp_read_only:
  assumes "c_ok w" "store_live w s d ro wo" "a_db (\<alpha> (eng w)) d = Some db" "\<not> ad_rw db" "is_write c"
  shows "wp (store_op R s c) (\<lambda>r w'. mem_same w w' \<and> isl r) w"
proof -
  have isl: "isl r" if "\<forall>x. r = Inr x \<longrightarrow> ad_rw db \<and> P x" for r :: outcome and P
    using that assms(4) by (cases r) auto
  show ?thesis
  proof (cases c)
    case (KGet k)
    then show ?thesis using assms(5) by (simp add: is_write_def)
  next
    case (KSet k v)
    show ?thesis unfolding KSet by (rule wp_mono [OF wp_set [OF assms(1-3)]]) (auto dest: isl)
  next
    case (KDelete k)
    show ?thesis unfolding KDelete by (rule wp_mono [OF wp_delete [OF assms(1-3)]]) (auto dest: isl)
  next
    case (KWrite ops)
    show ?thesis unfolding KWrite by (rule wp_mono [OF wp_batch [OF assms(1-3)]]) (auto dest: isl)
  qed
qed

end

context rocks_snap
begin

lemma wp_snapshot_new:
  assumes "c_ok w" "store_live w s d ro wo" "a_db (\<alpha> (eng w)) d = Some db"
    and "fst (db_GetSnapshot R d (eng w)) = x" "x \<noteq> 0"
  shows "wp (Store_NewSnapshot R s) (\<lambda>sn w'. c_ok w' \<and> heap_keeps w w' \<and>
    c_heap w' (sn_c sn) = Some (Obj (SnapObj x)) \<and>
    \<alpha> (eng w') = (\<alpha> (eng w))\<lparr>a_snap := (a_snap (\<alpha> (eng w)))(x \<mapsto> ad_kv db)\<rparr>) w"
proof -
  obtain gd where gd: "s_db s = Some gd" "live_db w gd d"
    using assms(2) by (elim store_liveE)
  obtain e' where e': "db_GetSnapshot R d (eng w) = (x, e')"
    using assms(4) by (metis prod.collapse)
  show ?thesis
    unfolding Store_NewSnapshot_def with_db_def gd(1) option.case
    by (rule wp_mono [OF wp_DB_NewSnapshot [OF assms(1) gd(2)]])
      (use snapshot_law [OF e' assms(3)] assms(5) in \<open>auto simp: e' intro: heap_keeps_alloc\<close>)
qed

text \<open>A read under the snapshot reads the snapshot's contents.\<close>

lemma wp_read_at:
  assumes "c_ok w" "store_live w s d ro wo" "a_db (\<alpha> (eng w)) d = Some db"
    and "case sn of None \<Rightarrow> x = 0 \<and> m = ad_kv db
      | Some t \<Rightarrow> c_heap w (sn_c t) = Some (Obj (SnapObj x)) \<and> x \<noteq> 0 \<and> a_snap (\<alpha> (eng w)) x = Some m"
  shows "wp (read_at R s sn k) (\<lambda>r w'. c_ok w' \<and>
    store_live w' s d (ro\<lparr>snapshot := x\<rparr>) wo \<and> \<alpha> (eng w') = \<alpha> (eng w) \<and>
    (\<forall>v. r = Inr v \<longrightarrow> v = m k)) w"
  unfolding read_at_def
proof (rule wp_seq)
  show "wp (Store_SetSnapshot s sn) (\<lambda>_ w'. c_ok w' \<and> store_live w' s d (ro\<lparr>snapshot := x\<rparr>) wo \<and>
      eng w' = eng w) w"
    by (rule wp_mono [OF wp_Store_SetSnapshot [OF assms(1,2)]])
      (use assms(4) in \<open>auto split: option.splits\<close>)
next
  fix w' :: "('a, 'b, 'c) world"
  assume w': "c_ok w' \<and> store_live w' s d (ro\<lparr>snapshot := x\<rparr>) wo \<and> eng w' = eng w"
  have view: "a_view (\<alpha> (eng w')) db (ro\<lparr>snapshot := x\<rparr>) = m"
    "snapshot (ro\<lparr>snapshot := x\<rparr>) = 0 \<or> a_snap (\<alpha> (eng w')) (snapshot (ro\<lparr>snapshot := x\<rparr>)) \<noteq> None"
    using assms(4) w' by (auto simp: a_view_def split: option.splits)
  show "wp (store_op R s (KGet k)) (\<lambda>r w'. c_ok w' \<and> store_live w' s d (ro\<lparr>snapshot := x\<rparr>) wo \<and>
      \<alpha> (eng w') = \<alpha> (eng w) \<and> (\<forall>v. r = Inr v \<longrightarrow> v = m k)) w'"
    by (rule wp_mono [OF wp_get [of w' s d "ro\<lparr>snapshot := x\<rparr>" wo db]])
      (use w' view assms(3) in \<open>auto simp: mem_same_def intro: store_live_same\<close>)
qed

lemma wp_snapshot_session:
  assumes "c_ok w" "store_live w s d ro wo" "a_db (\<alpha> (eng w)) d = Some db" "snapshot ro = 0"
    and "fst (db_GetSnapshot R d (eng w)) \<noteq> 0"
  shows "wp (snapshot_session R s cs k) (\<lambda>(rs, r1, r2) _.
    (\<forall>v. r1 = Inr v \<longrightarrow> v = ad_kv db k) \<and>
    (\<forall>v. no_error rs \<and> r2 = Inr v \<longrightarrow> v = snd (kv_run cs (ad_kv db)) k)) w"
proof -
  define x where "x = fst (db_GetSnapshot R d (eng w))"
  obtain sn w1 where s1: "Store_NewSnapshot R s w = Inr (sn, w1)" "c_ok w1" "heap_keeps w w1"
      "c_heap w1 (sn_c sn) = Some (Obj (SnapObj x))"
      "\<alpha> (eng w1) = (\<alpha> (eng w))\<lparr>a_snap := (a_snap (\<alpha> (eng w)))(x \<mapsto> ad_kv db)\<rparr>"
    using wp_snapshot_new [OF assms(1-3) x_def [symmetric]] assms(5) by (auto simp: x_def elim: wpE)
  have live1: "store_live w1 s d ro wo" "a_db (\<alpha> (eng w1)) d = Some db"
    using store_live_keeps [OF assms(2) s1(3)] assms(3) s1(5) by simp_all
  obtain rs w2 m where s2: "store_run R s cs w1 = Inr (rs, w2)" "mem_same w1 w2"
      "\<alpha> (eng w2) = a_write d db m (\<alpha> (eng w1))"
      "no_error rs \<longrightarrow> (\<exists>xs. rs = map Inr xs \<and> kv_run cs (ad_kv db) = (xs, m))"
    using wp_store_run [OF rocks_kv_axioms s1(2) live1 assms(4), of cs] by (auto elim: wpE)
  have h2: "c_ok w2" "c_heap w2 = c_heap w1" using s2(2) by (simp_all add: mem_same_def)
  have live2: "store_live w2 s d ro wo" "a_db (\<alpha> (eng w2)) d = Some (db\<lparr>ad_kv := m\<rparr>)"
    using store_live_same [OF live1(1) h2(2)] s2(3) by simp_all
  obtain r1 w3 where s3: "read_at R s (Some sn) k w2 = Inr (r1, w3)"
      "c_ok w3" "store_live w3 s d (ro\<lparr>snapshot := x\<rparr>) wo" "\<alpha> (eng w3) = \<alpha> (eng w2)"
      "\<forall>v. r1 = Inr v \<longrightarrow> v = ad_kv db k"
    using wp_read_at [OF h2(1) live2, where sn = "Some sn" and x = x and m = "ad_kv db" and k = k] s1(4,5) s2(3) h2(2) assms(5)
    by (auto simp: x_def elim!: wpE)
  obtain r2 w4 where s4: "read_at R s None k w3 = Inr (r2, w4)"
      "\<forall>v. r2 = Inr v \<longrightarrow> v = m k"
    using wp_read_at [OF s3(2,3), where db = "db\<lparr>ad_kv := m\<rparr>" and sn = None and x = 0 and m = m and k = k] s3(4) live2(2)
    by (auto elim!: wpE)
  have "snapshot_session R s cs k w = Inr ((rs, r1, r2), w4)"
    using s1(1) s2(1) s3(1) s4(1) by (simp add: snapshot_session_def bnd_Inr)
  then show ?thesis
    using s2(4) s3(5) s4(2) by (auto simp: wp_def)
qed

end

text \<open>Opening a store: what its database holds is what the directory held.\<close>

definition open_result ::
  "('b, 'f, 'e) rocksdb \<Rightarrow> ('e \<Rightarrow> astate) \<Rightarrow> bytes \<Rightarrow> ('b, 'f, 'e) world \<Rightarrow> Store \<Rightarrow>
     ('b, 'f, 'e) world \<Rightarrow> bool" where
  "open_result R \<alpha> n w s w' \<longleftrightarrow> (\<exists>d wo. store_live w' s d (def_readoptions R) wo \<and>
     a_db (\<alpha> (eng w)) d = None \<and>
     \<alpha> (eng w') = (\<alpha> (eng w))\<lparr>
       a_db := (a_db (\<alpha> (eng w)))
         (d \<mapsto> \<lparr>ad_name = n, ad_rw = True, ad_kv = disk_contents (\<alpha> (eng w)) n\<rparr>),
       a_disk := (a_disk (\<alpha> (eng w)))(n \<mapsto> disk_contents (\<alpha> (eng w)) n)\<rparr>)"

text \<open>Open a store, use it, close it, open it again and look a key up.\<close>

definition reopen_session ::
  "('b, 'f, 'e) rocksdb \<Rightarrow> bytes \<Rightarrow> kv_op list \<Rightarrow> bytes \<Rightarrow> ('b, 'f, 'e, outcome list \<times> outcome) rio" where
  "reopen_session R path cs k =
     bnd (NewStore R path) (\<lambda>(s, e0). case e0 of Some e \<Rightarrow> ret ([], Inl e) | None \<Rightarrow>
     bnd (store_run R s cs) (\<lambda>rs.
     andthen (Store_Close R s)
     (bnd (NewStore R path) (\<lambda>(s2, e1). case e1 of Some e \<Rightarrow> ret (rs, Inl e) | None \<Rightarrow>
     bnd (store_op R s2 (KGet k)) (\<lambda>r. ret (rs, r))))))"

text \<open>
  Save a checkpoint, use the store, open the checkpoint as a store of its own and look a key
  up in it (\<^verbatim>\<open>TestCheckpoint\<close> with any calls in between).
\<close>

definition checkpoint_save ::
  "('b, 'f, 'e) rocksdb \<Rightarrow> Store \<Rightarrow> bytes \<Rightarrow> ('b, 'f, 'e, bytes option) rio" where
  "checkpoint_save R s dir =
     bnd (Store_NewCheckpoint R s) (\<lambda>c. case c of Inl e \<Rightarrow> ret (Some e) | Inr cp \<Rightarrow>
     bnd (Checkpoint_Save R cp dir) (\<lambda>e.
     andthen (Checkpoint_Destroy R cp) (ret e)))"

definition checkpoint_session ::
  "('b, 'f, 'e) rocksdb \<Rightarrow> Store \<Rightarrow> bytes \<Rightarrow> kv_op list \<Rightarrow> bytes \<Rightarrow> ('b, 'f, 'e, outcome) rio" where
  "checkpoint_session R s dir cs k =
     bnd (checkpoint_save R s dir) (\<lambda>e0. case e0 of Some e \<Rightarrow> ret (Inl e) | None \<Rightarrow>
     bnd (store_run R s cs) (\<lambda>rs.
     bnd (NewStore R dir) (\<lambda>(s2, e1). case e1 of Some e \<Rightarrow> ret (Inl e) | None \<Rightarrow>
     store_op R s2 (KGet k))))"

context rocks_dir
begin

lemma wp_open:
  assumes "c_ok w"
  shows "wp (NewStore R path) (\<lambda>(s, err) w'. c_ok w' \<and> heap_keeps w w' \<and>
    (err = None \<longrightarrow> open_result R \<alpha> (cstr path) w s w')) w"
proof -
  have e: "\<alpha> (eng_open R w) = \<alpha> (eng w)"
    using bloom_law [of 16 True "eng w"] by (metis prod.collapse)
  obtain st d e' where o: "db_Open R (store_options R) (cstr path) (eng_open R w) = ((st, d), e')"
    by (metis prod.exhaust)
  show ?thesis
    by (rule wp_mono [OF wp_NewStore [OF assms default_policy]])
      (use open_law [OF o] e in \<open>auto simp: o opened_def open_result_def split: if_splits\<close>)
qed

text \<open>The first read of a freshly opened store.\<close>

lemma wp_open_get:
  assumes "c_ok w" "open_result R \<alpha> n w0 s w"
  shows "wp (store_op R s (KGet k)) (\<lambda>r _. \<forall>v. r = Inr v \<longrightarrow> v = disk_contents (\<alpha> (eng w0)) n k) w"
proof -
  obtain d wo where live: "store_live w s d (def_readoptions R) wo"
    and db: "a_db (\<alpha> (eng w)) d = Some \<lparr>ad_name = n, ad_rw = True, ad_kv = disk_contents (\<alpha> (eng w0)) n\<rparr>"
    using assms(2) by (auto simp: open_result_def)
  show ?thesis
    by (rule wp_mono [OF wp_get [OF assms(1) live db]])
      (use default_snapshot in \<open>auto simp: a_view_def\<close>)
qed

lemma wp_close:
  assumes "c_ok w" "store_live w s d ro wo" "a_db (\<alpha> (eng w)) d = Some db" "ad_rw db"
    and "a_it (\<alpha> (eng w)) = Map.empty"
  shows "wp (Store_Close R s) (\<lambda>_ w'. c_ok w' \<and>
    disk_contents (\<alpha> (eng w')) (ad_name db) = ad_kv db) w"
proof -
  obtain gd where gd: "s_db s = Some gd" "live_db w gd d"
    using assms(2) by (elim store_liveE)
  show ?thesis
    unfolding Store_Close_def with_db_def gd(1) option.case
    by (rule wp_mono [OF wp_DB_Close [OF assms(1) gd(2)]])
      (use close_law [OF _ assms(3,5)] assms(4) in
        \<open>auto simp: disk_contents_def map_prod_def prod_eq_iff split: prod.splits\<close>)
qed

lemma wp_reopen_session:
  assumes "c_ok w" "a_it (\<alpha> (eng w)) = Map.empty"
  shows "wp (reopen_session R path cs k) (\<lambda>(rs, r) _. \<forall>v. no_error rs \<and> r = Inr v \<longrightarrow>
    v = snd (kv_run cs (disk_contents (\<alpha> (eng w)) (cstr path))) k) w"
proof -
  let ?m = "disk_contents (\<alpha> (eng w)) (cstr path)"
  have second: "wp (NewStore R path) (\<lambda>(s2, e1). wp (case e1 of Some e \<Rightarrow> ret (rs, Inl e) | None \<Rightarrow>
      bnd (store_op R s2 (KGet k)) (\<lambda>r. ret (rs, r)))
      (\<lambda>(rs, r) _. \<forall>v. no_error rs \<and> r = Inr v \<longrightarrow> v = snd (kv_run cs ?m) k)) w3"
    if "c_ok w3" "no_error rs \<longrightarrow> disk_contents (\<alpha> (eng w3)) (cstr path) = snd (kv_run cs ?m)" for w3 rs
    by (rule wp_mono [OF wp_open [OF that(1)]])
      (use that in \<open>auto split: option.splits intro!: wp_mono [OF wp_open_get]\<close>)
  have first: "wp (store_run R s cs) (\<lambda>rs. wp (Store_Close R s) (\<lambda>_ w3. c_ok w3 \<and>
      (no_error rs \<longrightarrow> disk_contents (\<alpha> (eng w3)) (cstr path) = snd (kv_run cs ?m)))) w1"
    if w1: "c_ok w1" "open_result R \<alpha> (cstr path) w s w1" for s w1
  proof -
    obtain d wo where live: "store_live w1 s d (def_readoptions R) wo"
      and db: "a_db (\<alpha> (eng w1)) d = Some \<lparr>ad_name = cstr path, ad_rw = True, ad_kv = ?m\<rparr>" (is "_ = Some ?db")
      and it: "a_it (\<alpha> (eng w1)) = Map.empty"
      using w1(2) assms(2) by (auto simp: open_result_def)
    have close: "wp (Store_Close R s) (\<lambda>_ w3. c_ok w3 \<and> disk_contents (\<alpha> (eng w3)) (cstr path) = m) w2"
      if "mem_same w1 w2" "\<alpha> (eng w2) = a_write d ?db m (\<alpha> (eng w1))" for w2 m
      by (rule wp_mono [OF wp_close [of w2 s d "def_readoptions R" wo "?db\<lparr>ad_kv := m\<rparr>"]])
        (use that store_live_same [OF live] it in \<open>auto simp: mem_same_def a_write_def\<close>)
    show ?thesis
      by (rule wp_mono [OF wp_store_run [OF rocks_kv_axioms w1(1) live db default_snapshot]])
        (auto intro!: wp_mono [OF close])
  qed
  show ?thesis
    unfolding reopen_session_def split_def wp_bnd
    by (rule wp_mono [OF wp_open [OF assms(1)]])
      (auto split: option.splits intro!: wp_mono [OF first] second [unfolded split_def] elim!: wp_mono)
qed

end

text \<open>A checkpoint object of the database \<open>d\<close>, made in the state \<open>w\<close>.\<close>

definition checkpoint_at ::
  "('e \<Rightarrow> astate) \<Rightarrow> nat \<Rightarrow> ('b, 'f, 'e) world \<Rightarrow> Checkpoint \<Rightarrow> ('b, 'f, 'e) world \<Rightarrow> bool" where
  "checkpoint_at \<alpha> d w cp w' \<longleftrightarrow> c_ok w' \<and> c_heap w (cp_c cp) = None \<and>
     (\<exists>c. c_heap w' = (c_heap w)(cp_c cp \<mapsto> Obj (ChkObj c)) \<and>
       \<alpha> (eng w') = (\<alpha> (eng w))\<lparr>a_cp := (a_cp (\<alpha> (eng w)))(c \<mapsto> d)\<rparr>)"

context rocks_dir
begin

lemma wp_checkpoint_new:
  assumes "c_ok w" "store_live w s d ro wo"
  shows "wp (Store_NewCheckpoint R s) (\<lambda>r w1. \<forall>cp. r = Inr cp \<longrightarrow> checkpoint_at \<alpha> d w cp w1) w"
proof -
  obtain gd where gd: "s_db s = Some gd" "live_db w gd d"
    using assms(2) by (elim store_liveE)
  obtain st c e1 where c: "cp_Create R d (eng w) = ((st, c), e1)"
    by (metis prod.exhaust)
  show ?thesis
    unfolding Store_NewCheckpoint_def with_db_def gd(1) option.case
    by (rule wp_mono [OF wp_DB_NewCheckpoint [OF assms(1) gd(2)]])
      (use checkpoint_law [OF c] in \<open>auto simp: c checkpoint_at_def split: if_splits\<close>)
qed

lemma wp_save_destroy:
  assumes "checkpoint_at \<alpha> d w cp w1" "a_db (\<alpha> (eng w)) d = Some db"
  shows "wp (Checkpoint_Save R cp dir) (\<lambda>e. wp (Checkpoint_Destroy R cp) (\<lambda>_ w'.
    (e \<noteq> None \<longrightarrow> \<not> (saves R \<alpha> \<and> a_disk (\<alpha> (eng w)) (cstr dir) = None)) \<and>
    (e = None \<longrightarrow> c_ok w' \<and> heap_keeps w w' \<and>
      a_db (\<alpha> (eng w')) d = Some db \<and> disk_contents (\<alpha> (eng w')) (cstr dir) = ad_kv db))) w1"
proof -
  obtain c where w1: "c_ok w1" "c_heap w (cp_c cp) = None" "c_heap w1 = (c_heap w)(cp_c cp \<mapsto> Obj (ChkObj c))"
      "\<alpha> (eng w1) = (\<alpha> (eng w))\<lparr>a_cp := (a_cp (\<alpha> (eng w)))(c \<mapsto> d)\<rparr>"
    using assms(1) by (auto simp: checkpoint_at_def)
  have chk: "c_heap w1 (cp_c cp) = Some (Obj (ChkObj c))" using w1(3) by simp
  have a1: "a_cp (\<alpha> (eng w1)) c = Some d" "a_db (\<alpha> (eng w1)) d = Some db" using w1(4) assms(2) by simp_all
  show ?thesis
  proof (rule wp_mono [OF wp_Checkpoint_Save [OF w1(1) chk]], elim conjE)
    fix e w2
    assume w2: "mem_same w1 w2" "(e, eng w2) = map_prod status_error id (cp_CreateCheckpoint R c (cstr dir) (eng w1))"
    then have h2: "c_ok w2" "c_heap w2 = c_heap w1" by (simp_all add: mem_same_def)
    obtain st2 where st2: "cp_CreateCheckpoint R c (cstr dir) (eng w1) = (st2, eng w2)" "e = status_error st2"
      using w2(2) by (cases "cp_CreateCheckpoint R c (cstr dir) (eng w1)") auto
    have ok: "e = None" if "saves R \<alpha>" "a_disk (\<alpha> (eng w)) (cstr dir) = None"
      using that st2 a1 w1(4) unfolding saves_def by fastforce
    have "heap_keeps w w2" by (rule heap_keeps_alloc [OF w1(2)]) (simp only: h2(2) w1(3))
    then show "wp (Checkpoint_Destroy R cp) (\<lambda>_ w'. (e \<noteq> None \<longrightarrow> \<not> (saves R \<alpha> \<and> a_disk (\<alpha> (eng w)) (cstr dir) = None)) \<and>
        (e = None \<longrightarrow> c_ok w' \<and> heap_keeps w w' \<and>
          a_db (\<alpha> (eng w')) d = Some db \<and> disk_contents (\<alpha> (eng w')) (cstr dir) = ad_kv db)) w2"
      by (intro wp_mono [OF wp_Checkpoint_Destroy [OF h2(1), of cp c]])
        (use save_law [OF st2(1) a1] cp_delete_law [of c "eng w2"] st2(2) chk h2 a1 ok in
          \<open>auto simp: mem_same_def disk_contents_def prod_eq_iff intro: heap_keeps_same\<close>)
  qed
qed

lemma wp_checkpoint_save:
  assumes "c_ok w" "store_live w s d ro wo" "a_db (\<alpha> (eng w)) d = Some db"
  shows "wp (checkpoint_save R s dir) (\<lambda>e w'. e = None \<longrightarrow> c_ok w' \<and> heap_keeps w w' \<and>
    a_db (\<alpha> (eng w')) d = Some db \<and> disk_contents (\<alpha> (eng w')) (cstr dir) = ad_kv db) w"
  unfolding checkpoint_save_def wp_bnd
  by (rule wp_mono [OF wp_checkpoint_new [OF assms(1,2)]])
    (auto split: sum.splits intro!: wp_mono [OF wp_save_destroy [OF _ assms(3)]] elim!: wp_mono)

lemma wp_checkpoint_session:
  assumes "c_ok w" "store_live w s d ro wo" "a_db (\<alpha> (eng w)) d = Some db" "snapshot ro = 0"
  shows "wp (checkpoint_session R s dir cs k) (\<lambda>r _. \<forall>v. r = Inr v \<longrightarrow> v = ad_kv db k) w"
proof -
  have second: "wp (NewStore R dir) (\<lambda>(s2, e1). wp (case e1 of Some e \<Rightarrow> ret (Inl e) | None \<Rightarrow>
      store_op R s2 (KGet k)) (\<lambda>r _. \<forall>v. r = Inr v \<longrightarrow> v = ad_kv db k)) w3"
    if "c_ok w3" "disk_contents (\<alpha> (eng w3)) (cstr dir) = ad_kv db" for w3
    by (rule wp_mono [OF wp_open [OF that(1)]])
      (use that in \<open>auto split: option.splits intro!: wp_mono [OF wp_open_get]\<close>)
  have run: "wp (store_run R s cs) (\<lambda>_ w3. c_ok w3 \<and> disk_contents (\<alpha> (eng w3)) (cstr dir) = ad_kv db) w1"
    if w1: "c_ok w1" "heap_keeps w w1" "a_db (\<alpha> (eng w1)) d = Some db"
      "disk_contents (\<alpha> (eng w1)) (cstr dir) = ad_kv db" for w1
    by (rule wp_mono [OF wp_store_run [OF rocks_kv_axioms w1(1)
        store_live_keeps [OF assms(2) w1(2)] w1(3) assms(4)]])
      (use w1(4) in \<open>auto simp: mem_same_def disk_contents_def\<close>)
  show ?thesis
    unfolding checkpoint_session_def split_def wp_bnd
    by (rule wp_mono [OF wp_checkpoint_save [OF assms(1-3)]])
      (auto split: option.splits intro!: wp_mono [OF run] second [unfolded split_def])
qed

end

section \<open>A concrete store\<close>

text \<open>
  An empty engine and an empty memory; and a store as \<open>NewStore\<close> leaves it on the reference
  engine, with the database numbered 1 in directory \<open>db\<close>.
\<close>

type_synonym ref_world = "((bytes \<times> bytes option) list, table_options, engine_state) world"

definition engine_init :: engine_state where
  "engine_init = \<lparr>e_dbs = [], e_snaps = [], e_its = [], e_cps = [], e_dirs = []\<rparr>"

definition world_init :: ref_world where
  "world_init = \<lparr>c_heap = Map.empty, c_brk = 1, go_heap = Map.empty, go_brk = 1,
     filterPolicies = [], eng = engine_init\<rparr>"

definition store_one :: Store where
  "store_one = \<lparr>s_db = Some \<lparr>db_c = 1, db_name = ''db'', db_opts = \<lparr>op_c = 2, op_bbto = 0\<rparr>\<rparr>,
     s_opt = \<lparr>op_c = 2, op_bbto = 0\<rparr>, s_blockopt = 0, s_ropt = \<lparr>ro_c = 3\<rparr>, s_wopt = \<lparr>wo_c = 4\<rparr>\<rparr>"

definition world_open :: "bool \<Rightarrow> ref_world" where
  "world_open rw = \<lparr>c_heap = [1 \<mapsto> Obj (DbObj 1), 2 \<mapsto> Obj (OptObj (store_options ref_rocksdb)),
       3 \<mapsto> Obj (RoObj (def_readoptions ref_rocksdb)), 4 \<mapsto> Obj (WoObj \<lparr>sync = False\<rparr>)],
     c_brk = 5, go_heap = Map.empty, go_brk = 1, filterPolicies = [],
     eng = engine_init\<lparr>e_dbs := [(1, (''db'', rw, [(''k'', ''neo'')]))],
       e_dirs := [(''db'', [(''k'', ''neo'')])]\<rparr>\<rparr>"

lemma c_ok_world_init: "c_ok world_init"
  by (simp add: c_ok_def world_init_def)

lemma c_ok_world_open: "c_ok (world_open rw)"
  by (simp add: c_ok_def world_open_def)

lemma store_one_live:
  "store_live (world_open rw) store_one 1 (def_readoptions ref_rocksdb) \<lparr>sync = False\<rparr>"
  by (simp add: store_live_def world_open_def store_one_def)

lemma store_one_open:
  "a_db (ref_abs (eng (world_open rw))) 1 =
     Some \<lparr>ad_name = ''db'', ad_rw = rw, ad_kv = [''k'' \<mapsto> ''neo'']\<rparr>"
  by (simp add: world_open_def engine_init_def fun_eq_iff)

lemma ref_snapshot_zero: "snapshot (def_readoptions ref_rocksdb) = 0"
  by (simp add: ref_rocksdb_def)

lemmas store_one_facts = c_ok_world_open store_one_live store_one_open ref_snapshot_zero

interpretation one: open_store ref_rocksdb ref_abs "\<lambda>b. b" "world_open True" store_one 1
  "\<lparr>ad_name = ''db'', ad_rw = True, ad_kv = [''k'' \<mapsto> ''neo'']\<rparr>" "def_readoptions ref_rocksdb"
  "\<lparr>sync = False\<rparr>"
  by unfold_locales (rule store_one_facts)+

section \<open>Properties of the store\<close>

text \<open>
  C1. The store implements a map: any sequence of Get, SetOne, Delete and batch writes on an open
  store returns (no fault in Go, in the shim or in memory handling), leaves memory exactly as
  it was (every C string, value and batch freed), changes nothing of the engine but this
  database's contents, and if no call reports an error, its results and the final contents
  are those of the map.
\<close>

theorem store_refines_map:
  assumes "rocks_kv R \<alpha> bops" and "c_ok w" and "store_live w s d ro wo"
    and "a_db (\<alpha> (eng w)) d = Some db" and "snapshot ro = 0"
  shows "wp (store_run R s cs) (\<lambda>rs w'. mem_same w w' \<and>
    (\<exists>m. \<alpha> (eng w') = a_write d db m (\<alpha> (eng w)) \<and>
      (no_error rs \<longrightarrow> (\<exists>xs. rs = map Inr xs \<and> kv_run cs (ad_kv db) = (xs, m))))) w"
  using assms by (rule wp_store_run)

theorem store_refines_map_witness:
  "map_sum id fst (store_run ref_rocksdb store_one
       [KSet ''k'' ''x'', KGet ''k'', KDelete ''k'', KGet ''k''] (world_open True)) =
     Inr [Inr None, Inr (Some ''x''), Inr None, Inr None] \<and>
   wp (store_run ref_rocksdb store_one [KSet ''k'' ''x'', KGet ''k'', KDelete ''k'', KGet ''k''])
     (\<lambda>rs w'. mem_same (world_open True) w' \<and>
        (no_error rs \<longrightarrow> rs = [Inr None, Inr (Some ''x''), Inr None, Inr None])) (world_open True)"
  by (rule conjI, code_simp, rule wp_mono [OF store_refines_map [OF ref.rocks_kv_axioms store_one_facts]]) auto

text \<open>
  C7. Snapshot isolation: a lookup under a snapshot returns what the key held when the
  snapshot was taken, whatever was written since; after SetSnapshot(nil) lookups return the
  current contents again.
\<close>

theorem snapshot_isolation:
  assumes "rocks_snap R \<alpha> bops" and "c_ok w" and "store_live w s d ro wo"
    and "a_db (\<alpha> (eng w)) d = Some db" and "snapshot ro = 0"
    and "fst (db_GetSnapshot R d (eng w)) \<noteq> 0"
  shows "wp (snapshot_session R s cs k) (\<lambda>(rs, r1, r2) _.
    (\<forall>v. r1 = Inr v \<longrightarrow> v = ad_kv db k) \<and>
    (\<forall>v. no_error rs \<and> r2 = Inr v \<longrightarrow> v = snd (kv_run cs (ad_kv db)) k)) w"
  using assms by (rule rocks_snap.wp_snapshot_session)

theorem snapshot_isolation_witness:
  "map_sum id fst (snapshot_session ref_rocksdb store_one [KSet ''k'' ''trinity''] ''k'' (world_open True)) =
     Inr ([Inr None], Inr (Some ''neo''), Inr (Some ''trinity'')) \<and>
   wp (snapshot_session ref_rocksdb store_one [KSet ''k'' ''trinity''] ''k'') (\<lambda>(rs, r1, r2) _.
     (\<forall>v. r1 = Inr v \<longrightarrow> v = Some ''neo'') \<and>
     (\<forall>v. no_error rs \<and> r2 = Inr v \<longrightarrow> v = Some ''trinity'')) (world_open True)"
  by (rule conjI, code_simp, rule wp_mono [OF snapshot_isolation [OF ref.rocks_snap_axioms store_one_facts]])
    (auto simp: ref_rocksdb_def world_open_def engine_init_def Let_def)

text \<open>
  C9. Checkpoints: a store opened on a saved checkpoint holds the contents of the moment the
  checkpoint was saved, not what was written to the original store afterwards.
\<close>

theorem checkpoint_contents:
  assumes "rocks_dir R \<alpha> bops" and "c_ok w" and "store_live w s d ro wo"
    and "a_db (\<alpha> (eng w)) d = Some db" and "snapshot ro = 0"
  shows "wp (checkpoint_session R s dir cs k) (\<lambda>r _. \<forall>v. r = Inr v \<longrightarrow> v = ad_kv db k) w"
  using assms by (rule rocks_dir.wp_checkpoint_session)

theorem checkpoint_contents_witness:
  "wp (checkpoint_session ref_rocksdb store_one ''db/checkpoint'' [KSet ''k'' ''trinity''] ''k'')
     (\<lambda>r _. \<forall>v. r = Inr v \<longrightarrow> v = Some ''neo'') (world_open True)"
  by (rule wp_mono [OF checkpoint_contents [OF ref.rocks_dir_axioms store_one_facts]]) simp

text \<open>
  C8. Reopening: what was written to a store before Close is what a store opened on the same
  path reads.
\<close>

theorem reopen_contents:
  assumes "rocks_dir R \<alpha> bops" and "c_ok w" and "a_it (\<alpha> (eng w)) = Map.empty"
  shows "wp (reopen_session R path cs k) (\<lambda>(rs, r) _. \<forall>v. no_error rs \<and> r = Inr v \<longrightarrow>
    v = snd (kv_run cs (disk_contents (\<alpha> (eng w)) (cstr path))) k) w"
  using assms by (rule rocks_dir.wp_reopen_session)

theorem reopen_contents_witness:
  "wp (reopen_session ref_rocksdb ''db'' [KSet ''k'' ''neo''] ''k'') (\<lambda>(rs, r) _.
     \<forall>v. no_error rs \<and> r = Inr v \<longrightarrow> v = Some ''neo'') world_init"
  by (rule wp_mono [OF reopen_contents [OF ref.rocks_dir_axioms c_ok_world_init]]) (auto simp: world_init_def engine_init_def)



end
