(* ===== verification/RdbProps.thy ===== *)
theory RdbProps
  imports StoreSpec
begin

text \<open>
  Properties of the binding and of the store that do not need the engine's laws: what opening
  does, which options take effect, how values, slices, filters and errors cross the boundary,
  and who frees what.
\<close>

text \<open>Every operation that reaches the database panics on a nil one instead of touching the engine.\<close>

lemma failed_store_panics:
  assumes "opened R sy res w (s, Some err) w'"
  shows "Store_Get R s k w' = Inl NilDeref \<and> Store_SetOne R s k v w' = Inl NilDeref \<and>
    Store_Delete R s k w' = Inl NilDeref \<and> Store_WriteBatch R s wb w' = Inl NilDeref \<and>
    Store_NewSnapshot R s w' = Inl NilDeref \<and> Store_NewCheckpoint R s w' = Inl NilDeref \<and>
    Store_Close R s w' = Inl NilDeref \<and> MemtableSize R s w' = Inl NilDeref"
proof -
  have "s_db s = None" using assms by (auto simp: opened_def split: if_splits)
  then show ?thesis
    by (simp add: Store_Get_def Store_SetOne_def Store_Delete_def Store_WriteBatch_def
        Store_NewSnapshot_def Store_NewCheckpoint_def Store_Close_def MemtableSize_def with_db_def)
qed



text \<open>
  C37. The Bloom filter of setOpts never takes effect: the table factory in the options a
  store opens its database with was built from the default table options, before the filter
  was set on them, although the store's own table options do hold a live Bloom filter.
\<close>

theorem bloom_filter_not_in_effect:
  assumes "c_ok w" and "filter_policy (def_table_options R) = 0"
  shows "wp (setOpts R) (\<lambda>(opt, blockopt, ropt, wopt) w'.
    (\<exists>o'. c_heap w' (op_c opt) = Some (Obj (OptObj o')) \<and> create_if_missing o' \<and>
       table_factory o' = NewBlockBasedTableFactory R (def_table_options R)) \<and>
    (\<exists>b t p rep. go_heap w' blockopt = Some (GBbto b) \<and> c_heap w' (bo_c b) = Some (Obj (BbtoObj t)) \<and>
       filter_policy t = p \<and> c_heap w' p = Some (Obj (FpObj (BloomFilter rep) 1)))) w"
  by (rule wp_mono [OF wp_setOpts [OF assms]], clarify, frule opts_built_opt(2), erule opts_built_bbto)
    (simp add: store_options_def)

theorem bloom_filter_not_in_effect_witness:
  "wp (setOpts ref_rocksdb) (\<lambda>(opt, blockopt, ropt, wopt) w'.
    (\<exists>o'. c_heap w' (op_c opt) = Some (Obj (OptObj o')) \<and> filter_policy (table_factory o') = 0)) world_init"
  by (rule wp_mono [OF bloom_filter_not_in_effect [OF c_ok_world_init]])
    (auto simp: ref_rocksdb_def)

text \<open>
  A size from $2^{31}$ up to $2^{32}$ is negative as a C int, and \<open>C.GoBytes\<close> panics on it.
\<close>

lemma DB_GetBytes_large:
  assumes "c_ok w" "live_db w db d" "live_ro w opts opt"
    and "db_Get R d opt key (eng w) = ((s, v), e)" "st_ok s" "2 ^ 31 \<le> length v" "length v < 2 ^ 32"
  shows "DB_GetBytes R db opts key w = Inl (Panic ''gobytes: length out of range'')"
proof -
  have len: "to_int32 (length v) < 0"
    using assms(6,7) by (simp add: to_int32_neg)
  have "db_c db \<noteq> 0" "ro_c opts \<noteq> 0"
    using live_nonnull [OF assms(1)] assms(2,3) by blast+
  with assms(1-5) len show ?thesis
    by (simp add: DB_GetBytes_def rdb_get_def get_db_def get_ro_def c_get_def CopyString_def c_malloc_def
        c_new_def engine_def bnd_def GoBytes_def split_def)
qed

text \<open>
  C38. GetBytes by the size of the value the engine found: below 2 GiB it returns the engine's
  answer (the value, nothing, or the error's text) and frees every C block it received; from
  2 GiB up to 4 GiB the call panics, because the size is converted to a C int.
\<close>

theorem get_bytes_by_size:
  assumes "c_ok w" and "live_db w db d" and "live_ro w opts opt"
    and "db_Get R d opt key (eng w) = ((s, v), e)" and "st_ok s" and "length v < 2 ^ 32"
  shows "if length v < 2 ^ 31
    then wp (DB_GetBytes R db opts key) (\<lambda>r w'. mem_same w w' \<and> eng w' = e \<and> r = get_outcome (s, v)) w
    else DB_GetBytes R db opts key w = Inl (Panic ''gobytes: length out of range'')"
  using wp_DB_GetBytes [OF assms(1-3), of R key] DB_GetBytes_large [OF assms(1-5) _ assms(6)] assms(4)
  by simp

definition huge_rocksdb :: "((bytes \<times> bytes option) list, table_options, engine_state) rocksdb" where
  "huge_rocksdb = ref_rocksdb\<lparr>db_Get := (\<lambda>d ro k e. ((ok_status, replicate (2 ^ 31) NUL), e))\<rparr>"

theorem get_bytes_by_size_witness:
  "wp (DB_GetBytes ref_rocksdb \<lparr>db_c = 1, db_name = ''db'', db_opts = \<lparr>op_c = 2, op_bbto = 0\<rparr>\<rparr>
      \<lparr>ro_c = 3\<rparr> ''k'') (\<lambda>r w'. mem_same (world_open True) w' \<and> r = Inr (Some ''neo'')) (world_open True) \<and>
   DB_GetBytes huge_rocksdb \<lparr>db_c = 1, db_name = ''db'', db_opts = \<lparr>op_c = 2, op_bbto = 0\<rparr>\<rparr>
     \<lparr>ro_c = 3\<rparr> ''k'' (world_open True) = Inl (Panic ''gobytes: length out of range'')"
  (is "?small \<and> ?large")
proof
  have "wp (DB_GetBytes ref_rocksdb \<lparr>db_c = 1, db_name = ''db'', db_opts = \<lparr>op_c = 2, op_bbto = 0\<rparr>\<rparr>
      \<lparr>ro_c = 3\<rparr> ''k'') (\<lambda>r w'. mem_same (world_open True) w' \<and> eng w' = eng (world_open True) \<and>
        r = get_outcome (ok_status, ''neo'')) (world_open True)"
    using get_bytes_by_size [OF c_ok_world_open, of True _ 1 _ "def_readoptions ref_rocksdb" ref_rocksdb "''k''"
        ok_status "''neo''" "eng (world_open True)"]
    by (simp add: world_open_def ref_rocksdb_def ref_get_def ref_view_def ok_status_def engine_init_def)
  then show ?small by (rule wp_mono) (simp add: get_outcome_def ok_status_def)
  show ?large
    using get_bytes_by_size [OF c_ok_world_open, of True _ 1 _ "def_readoptions ref_rocksdb" huge_rocksdb "''k''"
        ok_status "replicate (2 ^ 31) NUL" "eng (world_open True)"]
    by (simp add: world_open_def huge_rocksdb_def ok_status_def)
qed

definition concat_policy :: FilterPolicy where
  "concat_policy = UserPolicy concat (\<lambda>key filt. key \<noteq> [] \<and> set key \<subseteq> set filt) ''concat''"

definition world_policy :: ref_world where
  "world_policy = world_init\<lparr>filterPolicies := [concat_policy]\<rparr>"

text \<open>
  C36. The callback path of a Go filter policy: the filter RocksDB receives is the one the Go
  policy computes on the bytes of the keys, appended to what was in the output string. The
  block a non-empty filter is returned in is leaked: it is still allocated when the callback
  has handed the bytes over, because the adapter's delete handler does nothing.
\<close>

theorem create_filter_callback:
  assumes "c_ok w" and "list_all2 (readable w) keys kbs" and "idx < length (filterPolicies w)"
    and "length (CreateFilter (filterPolicies w ! idx) kbs) \<le> 2 ^ 24"
  shows "wp (fpolicy_CreateFilter R (GoFilter idx) keys dst) (\<lambda>r w'.
    r = dst @ CreateFilter (filterPolicies w ! idx) kbs \<and> eng w' = eng w \<and>
    (CreateFilter (filterPolicies w ! idx) kbs \<noteq> [] \<longrightarrow> (\<exists>p. c_heap w p = None \<and>
      c_heap w' = (c_heap w)(p \<mapsto> Chars (CreateFilter (filterPolicies w ! idx) kbs))))) w"
  by (rule wp_mono [OF wp_fpolicy_CreateFilter_go [OF assms]])
    (use assms(1) in \<open>auto simp: Let_def intro!: exI [of _ "c_brk w"]\<close>)

theorem create_filter_callback_witness:
  "wp (fpolicy_CreateFilter ref_rocksdb (GoFilter 0)
     [(Borrowed ''ab'', 2), (Borrowed ''c'', 1)] ''x'') (\<lambda>r w'. r = ''xabc'' \<and>
     (\<exists>p. c_heap world_policy p = None \<and> c_heap w' = (c_heap world_policy)(p \<mapsto> Chars ''abc'')))
     world_policy"
  by (rule wp_mono [OF create_filter_callback [where kbs = "[''ab'', ''c'']"]])
    (simp_all add: world_policy_def concat_policy_def c_ok_world_init readable_def c_read_def c_block_def
      bnd_def)

text \<open>
  C35. No false negatives across the boundary: if the Go policy matches every key of a set
  against the filter it builds for that set, then so does the adapter, given the bytes of the
  filter it built and any key of the set.
\<close>

theorem filter_no_false_negative:
  assumes "c_ok w" and "list_all2 (readable w) keys kbs" and "idx < length (filterPolicies w)"
    and "length (CreateFilter (filterPolicies w ! idx) kbs) \<le> 2 ^ 24"
    and "\<And>k. k \<in> set kbs \<Longrightarrow>
      KeyMayMatch (filterPolicies w ! idx) k (CreateFilter (filterPolicies w ! idx) kbs)"
    and "k \<in> set kbs" and "length k < 2 ^ 63"
  shows "wp (bnd (fpolicy_CreateFilter R (GoFilter idx) keys []) (\<lambda>f.
      fpolicy_KeyMayMatch R (GoFilter idx) (Borrowed k, length k) (Borrowed f, length f)))
    (\<lambda>r _. r) w"
proof (rule wp_seq [OF wp_fpolicy_CreateFilter_go [OF assms(1-4), of R "[]"]])
  have read: "readable w' (Borrowed b, length b) b" if "length b < 2 ^ 63" for w' :: "('a, 'b, 'c) world" and b
    using that by (simp add: readable_def c_read_def c_block_def bnd_def)
  fix f and w' :: "('a, 'b, 'c) world"
  assume "let flt = CreateFilter (filterPolicies w ! idx) kbs in f = [] @ flt \<and> eng w' = eng w \<and>
    c_ok w' \<and> filterPolicies w' = filterPolicies w \<and>
    c_heap w' = (if flt = [] then c_heap w else (c_heap w)(c_brk w \<mapsto> Chars flt))"
  then have f: "f = CreateFilter (filterPolicies w ! idx) kbs" "filterPolicies w' = filterPolicies w"
    by (simp_all add: Let_def)
  then show "wp (fpolicy_KeyMayMatch R (GoFilter idx) (Borrowed k, length k) (Borrowed f, length f))
      (\<lambda>r _. r) w'"
    by (intro wp_mono [OF wp_fpolicy_KeyMayMatch_go [OF read read]])
      (use assms(3-7) in \<open>auto intro: le_less_trans\<close>)
qed

theorem filter_no_false_negative_witness:
  "wp (bnd (fpolicy_CreateFilter ref_rocksdb (GoFilter 0) [(Borrowed ''ab'', 2)] []) (\<lambda>f.
      fpolicy_KeyMayMatch ref_rocksdb (GoFilter 0) (Borrowed ''ab'', length ''ab'') (Borrowed f, length f)))
    (\<lambda>r _. r) world_policy"
  by (rule filter_no_false_negative [where kbs = "[''ab'']"])
    (simp_all add: world_policy_def concat_policy_def c_ok_world_init readable_def c_read_def c_block_def
      bnd_def)

text \<open>
  The name of a Go filter policy cannot be read: the callback returns a pointer to the Go
  string's bytes, which no NUL terminates, and RocksDB reads it as a C string, past its end.
\<close>

lemma policy_name_unterminated:
  assumes "idx < length (filterPolicies w)" and "NUL \<notin> set (Name (filterPolicies w ! idx))"
  shows "fpolicy_Name_go idx w = Inl OutOfRange"
  using assms
  by (simp add: fpolicy_Name_go_def rdbc_filterpolicy_name_def policy_at_def stringToChar_def
      c_string_def c_block_def bnd_def)

text \<open>
  Freeing a slice is safe to repeat: the first Free of a lookup's slice releases its block,
  the second does nothing; a slice handed out by an iterator, which points into engine memory,
  is never freed at all.
\<close>

lemma slice_free_idempotent:
  assumes "c_heap w p = Some (Chars v)"
  shows "wp (bnd (Slice_Free (NewSlice (CPtr p) n)) Slice_Free)
      (\<lambda>_ w'. w' = w\<lparr>c_heap := (c_heap w)(p := None)\<rparr>) w"
    "wp (Slice_Free \<lparr>sl_data = Borrowed bs, sl_size = length bs, sl_freed = True\<rparr>) (\<lambda>_ w'. w' = w) w"
  using assms by (simp_all add: Slice_Free_def NewSlice_def)

text \<open>
  Destroying a checkpoint leaks its shim object: the engine's checkpoint is deleted, but
  the heap is exactly what it was, the \<open>rdb_checkpoint_t\<close> included, and the Go handle no
  longer points to it.
\<close>

lemma checkpoint_destroy_leaks:
  assumes "c_ok w" and "c_heap w (cp_c s) = Some (Obj (ChkObj c))"
  shows "wp (Checkpoint_Destroy R s) (\<lambda>r w'. c_heap w' (cp_c s) = Some (Obj (ChkObj c)) \<and>
    cp_c r = 0 \<and> eng w' = snd (cp_delete R c (eng w))) w"
  by (rule wp_mono [OF wp_Checkpoint_Destroy [OF assms]]) (use assms in \<open>simp add: mem_same_def\<close>)

text \<open>
  C39. MemtableSize reports the number the engine prints: if the property is the decimal of n
  and n fits 64 bits, the result is n; with no such property it is 0. The string is freed.
\<close>

theorem memtable_size_parses:
  assumes "c_ok w" and "store_live w s d ro wo"
    and "fst (db_GetProperty R d ''rocksdb.cur-size-all-mem-tables'' (eng w)) = map_option dec q"
    and "\<And>n. q = Some n \<Longrightarrow> n < 2 ^ 64"
  shows "wp (MemtableSize R s) (\<lambda>r w'. mem_same w w' \<and>
    unat r = (case q of None \<Rightarrow> 0 | Some n \<Rightarrow> n)) w"
proof -
  obtain gd where gd: "s_db s = Some gd" "live_db w gd d"
    using assms(2) by (elim store_liveE)
  have no_nul: "cstr (dec n) = dec n" for n
  proof (rule cstr_id)
    show "NUL \<notin> set (dec n)"
      using digits_dec [of n] by (auto simp: list_all_iff is_digit_bounds)
  qed
  have name: "cstr ''rocksdb.cur-size-all-mem-tables'' = ''rocksdb.cur-size-all-mem-tables''"
    by (simp add: cstr_def)
  show ?thesis
    unfolding MemtableSize_def with_db_def gd(1) option.case wp_bnd wp_ret
    by (rule wp_mono [OF wp_DB_GetProperty [OF assms(1) gd(2)]])
      (use assms(3,4) in \<open>auto simp: name no_nul ParseUint_digits unat_of_nat take_bit_nat_eq_self
        split: option.splits\<close>)
qed

definition mem_rocksdb :: "((bytes \<times> bytes option) list, table_options, engine_state) rocksdb" where
  "mem_rocksdb = ref_rocksdb\<lparr>db_GetProperty := (\<lambda>d n e. (Some (dec 4096), e))\<rparr>"

theorem memtable_size_parses_witness:
  "wp (MemtableSize mem_rocksdb store_one) (\<lambda>r w'. unat r = 4096) (world_open True)"
  by (rule wp_mono [OF memtable_size_parses [OF store_one_facts(1,2), where q = "Some 4096"]])
    (simp_all add: mem_rocksdb_def)

text \<open>
  A write batch counts the operations put into it, as long as they fit a C int: after
  filling a fresh batch with puts and deletes, Count is their number.
\<close>

lemma batch_count_fill:
  assumes "rocks_kv R \<alpha> bops" and "c_ok w" and "length ops < 2 ^ 31"
  shows "wp (bnd (Store_NewWriteBatch R s) (\<lambda>wb.
      andthen (io_for ops (batch_op R wb)) (WriteBatch_Count R wb)))
    (\<lambda>n _. n = int (length ops)) w"
proof (rule wp_seq [OF rocks_kv.wp_batch_new [OF assms(1,2)]], rule wp_seq [OF rocks_kv.wp_batch_fill [OF assms(1)]],
    assumption)
  fix wb u w'
  assume "batch_at bops w wb ops w'"
  then obtain b where "c_ok w'" "live_wb w' wb b" "bops b = ops" by (auto simp: batch_at_def)
  then show "wp (WriteBatch_Count R wb) (\<lambda>n _. n = int (length ops)) w'"
    by (intro wp_mono [OF wp_WriteBatch_Count])
      (use assms(3) rocks_kv.batch_count [OF assms(1), of b] in auto)
qed

end
