(* ===== verification/IterSpec.thy ===== *)
theory IterSpec
  imports StoreSpec
begin

text \<open>
  Iterators over a store: creating one, reading the item it is at, and the scan its
  documentation shows (\<^verbatim>\<open>rdb/iterator.go\<close>), restricted to a prefix with \<open>ValidForPrefix\<close>.
\<close>

section \<open>Prefixes in key order\<close>

lemma key_sorted_card:
  assumes "key_sorted xs" "map_of xs = m"
  shows "finite (dom m)" "card (dom m) = length xs"
proof -
  have "distinct (map fst xs)"
    using assms(1) by (simp add: key_sorted_def strict_sorted_iff)
  moreover have "dom m = fst ` set xs" using assms(2) dom_map_of_conv_image_fst by metis
  ultimately show "finite (dom m)" "card (dom m) = length xs"
    using distinct_card [of "map fst xs"] by simp_all
qed

section \<open>Creating an iterator\<close>

text \<open>The read options are made first, and nothing destroys them.\<close>

lemma wp_NewIterator_eq:
  assumes "c_ok w" "s_db s = Some db"
  shows "wp (Store_NewIterator R s) Q w = wp (DB_NewIterator R db \<lparr>ro_c = c_brk w\<rparr>) Q
    (w\<lparr>c_heap := (c_heap w)(c_brk w \<mapsto> Obj (RoObj ((def_readoptions R)\<lparr>fill_cache := False\<rparr>))), c_brk := Suc (c_brk w)\<rparr>)"
  using assms by (simp add: Store_NewIterator_def NewDefaultReadOptions_def rdb_readoptions_create_def
      NewNativeReadOptions_def SetFillCache_def rdb_readoptions_set_fill_cache_def boolToChar_def with_db_def)

context rocks_iter
begin

text \<open>\<open>Store.NewIterator\<close>: the iterator on the store's database.\<close>

lemma wp_Store_NewIterator:
  assumes "c_ok w" "store_live w s d ro wo"
  shows "wp (Store_NewIterator R s) (\<lambda>it w'. c_ok w' \<and> heap_keeps w w' \<and>
    live_it w' it (fst (db_NewIterator R d ((def_readoptions R)\<lparr>fill_cache := False\<rparr>) (eng w))) \<and>
    eng w' = snd (db_NewIterator R d ((def_readoptions R)\<lparr>fill_cache := False\<rparr>) (eng w))) w"
proof -
  obtain gd where gd: "s_db s = Some gd" "live_db w gd d"
    using assms(2) by (elim store_liveE)
  let ?ro = "(def_readoptions R)\<lparr>fill_cache := False\<rparr>"
  define w1 where "w1 = w\<lparr>c_heap := (c_heap w)(c_brk w \<mapsto> Obj (RoObj ?ro)), c_brk := Suc (c_brk w)\<rparr>"
  have w1: "c_ok w1" "live_db w1 gd d" "live_ro w1 \<lparr>ro_c = c_brk w\<rparr> ?ro" "eng w1 = eng w" "heap_keeps w w1"
    using assms(1) gd(2) c_ok_live_neq [OF assms(1) gd(2)]
    by (auto simp: w1_def intro!: heap_keeps_alloc)
  then show ?thesis
    unfolding wp_NewIterator_eq [OF assms(1) gd(1), where R = R, folded w1_def]
    by (auto intro!: wp_mono [OF wp_DB_NewIterator [OF w1(1-3)]]
        intro: heap_keeps_trans [OF w1(5)] heap_keeps_alloc)
qed

end

text \<open>The bytes with a given prefix are an interval of the byte order that starts at the prefix.\<close>

lemma prefix_not_less: "prefix p k \<Longrightarrow> \<not> k < (p :: bytes)"
  by (induction p arbitrary: k) (auto simp: prefix_def)

lemma prefix_interval:
  fixes p :: bytes
  assumes "\<not> k < p" "\<not> prefix p k" "k < k'"
  shows "\<not> prefix p k'"
  using assms
proof (induction p arbitrary: k k')
  case (Cons c p)
  then show ?case
    by (cases k; cases k') auto
qed simp

lemma takeWhile_prefix:
  fixes pre :: bytes
  assumes "key_sorted xs" "\<forall>x \<in> set xs. \<not> fst x < pre"
  shows "takeWhile (\<lambda>x. prefix pre (fst x)) xs = filter (\<lambda>x. prefix pre (fst x)) xs"
  using assms
proof (induction xs)
  case (Cons x xs)
  show ?case
  proof (cases "prefix pre (fst x)")
    case False
    then have "\<forall>y \<in> set xs. \<not> prefix pre (fst y)"
      using Cons.prems prefix_interval [of "fst x" pre] by (auto simp: key_sorted_def)
    with False show ?thesis by (simp add: filter_empty_conv)
  qed (use Cons in \<open>simp add: key_sorted_def\<close>)
qed simp

lemma dropWhile_ge:
  fixes pre :: bytes
  assumes "key_sorted xs"
  shows "\<forall>x \<in> set (dropWhile (\<lambda>x. fst x < pre) xs). \<not> fst x < pre"
  using assms
proof (induction xs)
  case (Cons x xs)
  have tail: "key_sorted xs" "\<forall>y \<in> set xs. fst x < fst y"
    using Cons.prems by (simp_all add: key_sorted_def)
  show ?case
  proof (cases "fst x < pre")
    case True
    with Cons.IH [OF tail(1)] show ?thesis by (simp only: dropWhile.simps if_True)
  next
    case False
    have "\<not> fst y < pre" if "y \<in> set xs" for y
      using tail(2) that False order.strict_trans by blast
    with False show ?thesis by simp
  qed
qed simp

lemma seek_prefix:
  fixes pre :: bytes
  assumes "key_sorted xs"
  shows "takeWhile (\<lambda>x. prefix pre (fst x)) (drop (seek_pos pre xs) xs) = filter (\<lambda>x. prefix pre (fst x)) xs"
proof -
  have less: "\<forall>x \<in> set (takeWhile (\<lambda>x. fst x < pre) xs). fst x < pre"
    using set_takeWhileD by fastforce
  have ge: "\<forall>x \<in> set (dropWhile (\<lambda>x. fst x < pre) xs). \<not> fst x < pre"
    using assms by (rule dropWhile_ge)
  have drop: "drop (seek_pos pre xs) xs = dropWhile (\<lambda>x. fst x < pre) xs"
    by (simp add: seek_pos_def dropWhile_eq_drop)
  have "key_sorted (dropWhile (\<lambda>x. fst x < pre) xs)"
    using assms by (metis key_sorted_def takeWhile_dropWhile_id sorted_wrt_append map_append)
  moreover have "filter (\<lambda>x. prefix pre (fst x)) (takeWhile (\<lambda>x. fst x < pre) xs) = []"
    using less prefix_not_less by (meson filter_False)
  then have "filter (\<lambda>x. prefix pre (fst x)) xs = filter (\<lambda>x. prefix pre (fst x)) (dropWhile (\<lambda>x. fst x < pre) xs)"
    by (metis append_Nil filter_append takeWhile_dropWhile_id)
  ultimately show ?thesis
    using takeWhile_prefix [OF _ ge] drop by simp
qed

lemma map_of_filter_key: "map_of (filter (\<lambda>x. P (fst x)) xs) = (\<lambda>k. if P k then map_of xs k else None)"
  by (induction xs) (auto simp: fun_eq_iff)

text \<open>Setting an iterator's state; deleting the iterator undoes its creation.\<close>

definition a_put :: "nat \<Rightarrow> aiter \<Rightarrow> astate \<Rightarrow> astate" where
  "a_put i x a = a\<lparr>a_it := (a_it a)(i \<mapsto> x)\<rparr>"

lemma a_put_simps [simp]:
  "a_it (a_put i x a) i = Some x" "a_put i y (a_put i x a) = a_put i y a"
  "a_it a i = Some x \<Longrightarrow> a_put i x a = a"
  by (simp_all add: a_put_def fun_upd_idem)

lemma a_move_put: "a_move i x p f a = a_put i (x\<lparr>ai_pos := p, ai_failed := f\<rparr>) a"
  by (simp add: a_move_def a_put_def)

lemma a_put_del: "a_it a i = None \<Longrightarrow> (a_put i x a)\<lparr>a_it := (a_it (a_put i x a))(i := None)\<rparr> = a"
  by (simp add: a_put_def fun_upd_idem)

lemma key_sorted_lookup: "key_sorted xs \<Longrightarrow> p \<in> set xs \<Longrightarrow> map_of xs (fst p) = Some (snd p)"
  by (cases p) (simp add: key_sorted_def strict_sorted_iff)

lemma seek_pos_le: "seek_pos k xs \<le> length xs"
  by (simp add: seek_pos_def length_takeWhile_le)

lemma prefix_filter_facts:
  assumes "key_sorted xs" "prefix ps (filter (\<lambda>p. P (fst p)) xs)"
  shows "key_sorted ps" "map_of ps \<subseteq>\<^sub>m map_of xs" "\<forall>k \<in> set (map fst ps). P k"
proof -
  obtain zs where zs: "filter (\<lambda>p. P (fst p)) xs = ps @ zs" using assms(2) by (auto simp: prefix_def)
  have "key_sorted (filter (\<lambda>p. P (fst p)) xs)"
    using assms(1) by (simp add: key_sorted_def sorted_wrt_map sorted_wrt_filter)
  then show sorted: "key_sorted ps" by (simp add: zs key_sorted_def sorted_wrt_append)
  have "\<forall>p \<in> set ps. p \<in> set xs \<and> P (fst p)" using zs by (metis (mono_tags, lifting) Un_iff mem_Collect_eq set_append set_filter)
  then show "\<forall>k \<in> set (map fst ps). P k" and "map_of ps \<subseteq>\<^sub>m map_of xs"
    using key_sorted_lookup [OF assms(1)] map_of_SomeD by (fastforce simp: map_le_def)+
qed

section \<open>Loops over an iterator\<close>

text \<open>
  The loop \<open>for itr.Seek(); test; itr.Next() { body }\<close> after its first move: the body works on
  the variables \<open>a\<close> of the loop and says whether it breaks. The loop may run \<open>fuel\<close> rounds.
\<close>

fun iter_for ::
  "('b, 'f, 'e) rocksdb \<Rightarrow> Iterator \<Rightarrow> ('b, 'f, 'e, bool) rio \<Rightarrow> ('a \<Rightarrow> ('b, 'f, 'e, bool \<times> 'a) rio) \<Rightarrow>
     nat \<Rightarrow> 'a \<Rightarrow> ('b, 'f, 'e, 'a) rio" where
  "iter_for R it test body 0 a = fail OutOfFuel"
| "iter_for R it test body (Suc n) a =
     bnd test (\<lambda>ok.
     if ok then bnd (body a) (\<lambda>(stop, a').
       if stop then ret a' else andthen (Iterator_Next R it) (iter_for R it test body n a'))
     else ret a)"

text \<open>An engine whose iterators never report an error.\<close>

definition never_fails :: "('e \<Rightarrow> astate) \<Rightarrow> bool" where
  "never_fails \<alpha> \<longleftrightarrow> (\<forall>e i x. a_it (\<alpha> e) i = Some x \<longrightarrow> \<not> ai_failed x)"

text \<open>
  An iterator over \<open>xs\<close> is at position \<open>j\<close>, unless it failed. How a loop ends: the iterator
  failed; or it came to the end or to an item the test refuses; or the body broke it off.
\<close>

definition iter_at :: "(bytes \<times> bytes) list \<Rightarrow> nat \<Rightarrow> aiter \<Rightarrow> bool" where
  "iter_at xs j x \<longleftrightarrow> ai_seq x = xs \<and> ai_pos x = (if ai_failed x then length xs else j)"

definition iter_end ::
  "(bytes \<times> bytes) list \<Rightarrow> (bytes \<times> bytes \<Rightarrow> bool) \<Rightarrow> (nat \<Rightarrow> 'a \<Rightarrow> bool) \<Rightarrow> (nat \<Rightarrow> 'a \<Rightarrow> bool) \<Rightarrow> aiter \<Rightarrow> 'a \<Rightarrow> bool" where
  "iter_end xs T I stop x r \<longleftrightarrow> (\<exists>j. if ai_failed x then j \<le> length xs \<and> I j r
     else j \<le> length xs \<and> I j r \<and> (j < length xs \<longrightarrow> \<not> T (xs ! j)) \<or> j < length xs \<and> stop j r)"

context rocks_iter
begin

lemma next_at:
  assumes "c_ok w" "live_it w it i" "a_it (\<alpha> (eng w)) i = Some x" "iter_at xs j x" "ai_pos x < length xs"
    and "\<And>w' x'. mem_same w w' \<Longrightarrow> \<alpha> (eng w') = a_put i x' (\<alpha> (eng w)) \<Longrightarrow> iter_at xs (Suc j) x' \<Longrightarrow> wp m Q w'"
  shows "wp (andthen (Iterator_Next R it) m) Q w"
proof -
  obtain e where nx: "it_Next R i (eng w) = ((), e)" by (cases "it_Next R i (eng w)") auto
  have j: "ai_seq x = xs" "ai_pos x = j" using assms(4,5) by (auto simp: iter_at_def split: if_splits)
  then obtain x' where "\<alpha> e = a_put i x' (\<alpha> (eng w))" "iter_at xs (Suc j) x'"
    using next_law [OF nx assms(3)] assms(5) by (auto simp: moved_def a_move_put iter_at_def)
  then show ?thesis
    using assms(6) [of "w\<lparr>eng := e\<rparr>" x'] mem_same_frame [OF assms(1), of "w\<lparr>eng := e\<rparr>"]
    by (simp add: wp_Iterator_moves(3) [OF assms(1,2)] nx)
qed

text \<open>
  The rule of the loop: an invariant of the variables at each position, kept by the body. The
  fuel is enough if the invariant cannot hold \<open>fuel\<close> positions after the first.
\<close>

lemma wp_iter_for:
  assumes test: "\<And>w x. c_ok w \<Longrightarrow> live_it w it i \<Longrightarrow> a_it (\<alpha> (eng w)) i = Some x \<Longrightarrow> ai_seq x = xs \<Longrightarrow>
      wp test (\<lambda>b w'. mem_same w w' \<and> \<alpha> (eng w') = \<alpha> (eng w) \<and>
        b = (ai_pos x < length xs \<and> T (xs ! ai_pos x))) w"
    and body: "\<And>w x a. c_ok w \<Longrightarrow> live_it w it i \<Longrightarrow> a_it (\<alpha> (eng w)) i = Some x \<Longrightarrow> ai_seq x = xs \<Longrightarrow>
      ai_pos x < length xs \<Longrightarrow> T (xs ! ai_pos x) \<Longrightarrow> I (ai_pos x) a \<Longrightarrow>
      wp (body a) (\<lambda>r w'. mem_same w w' \<and> \<alpha> (eng w') = \<alpha> (eng w) \<and>
        (if fst r then stop (ai_pos x) (snd r) else I (Suc (ai_pos x)) (snd r))) w"
    and start: "c_ok w" "live_it w it i" "a_it (\<alpha> (eng w)) i = Some x" "iter_at xs j x" "j \<le> length xs" "I j a"
    and fuel: "\<And>j' a. I j' a \<Longrightarrow> j' < j + fuel"
  shows "wp (iter_for R it test body fuel a) (\<lambda>r w'. mem_same w w' \<and>
    (\<exists>x'. \<alpha> (eng w') = a_put i x' (\<alpha> (eng w)) \<and> ai_seq x' = xs \<and> iter_end xs T I stop x' r)) w"
  using start fuel
proof (induction fuel arbitrary: w x j a)
  case 0
  then show ?case by fastforce
next
  case (Suc n)
  let ?Q = "\<lambda>r w'. mem_same w w' \<and>
    (\<exists>x'. \<alpha> (eng w') = a_put i x' (\<alpha> (eng w)) \<and> ai_seq x' = xs \<and> iter_end xs T I stop x' r)"
  have seq: "ai_seq x = xs" using Suc.prems(4) by (simp add: iter_at_def)
  have rest: "wp (bnd (body a) (\<lambda>(st, a'). if st then ret a'
      else andthen (Iterator_Next R it) (iter_for R it test body n a'))) ?Q w1"
    if w1: "mem_same w w1" "\<alpha> (eng w1) = \<alpha> (eng w)" and pos: "ai_pos x < length xs" "T (xs ! ai_pos x)" for w1
  proof -
    have j: "ai_pos x = j" "\<not> ai_failed x" using Suc.prems(4) pos(1) by (auto simp: iter_at_def split: if_splits)
    have live1: "c_ok w1" "live_it w1 it i" "a_it (\<alpha> (eng w1)) i = Some x"
      using w1 Suc.prems(1-3) by (auto simp: mem_same_def)
    have more: "wp (andthen (Iterator_Next R it) (iter_for R it test body n a')) ?Q w2"
      if w2: "mem_same w1 w2" "\<alpha> (eng w2) = \<alpha> (eng w1)" and kept: "I (Suc j) a'" for a' w2
    proof (rule next_at [where i = i and x = x and xs = xs and j = j])
      show "c_ok w2" "live_it w2 it i" "a_it (\<alpha> (eng w2)) i = Some x"
        using w2 live1 by (auto simp: mem_same_def)
      fix w3 x3
      assume w3: "mem_same w2 w3" "\<alpha> (eng w3) = a_put i x3 (\<alpha> (eng w2))" "iter_at xs (Suc j) x3"
      have same: "mem_same w w3" using mem_same_trans [OF w1(1) mem_same_trans [OF w2(1) w3(1)]] .
      have live3: "c_ok w3" "live_it w3 it i" "a_it (\<alpha> (eng w3)) i = Some x3"
        using w3 w2 live1 by (auto simp: mem_same_def)
      have "j' < Suc j + n" if "I j' a" for j' a using Suc.prems(7) [OF that] by simp
      then show "wp (iter_for R it test body n a') ?Q w3"
        using w3(2) w2(2) w1(2) pos j(1)
        by (intro wp_mono [OF Suc.IH [OF live3 w3(3) _ kept]]) (auto intro: mem_same_trans [OF same])
    qed (use Suc.prems(4) pos in auto)
    have broken: "?Q a' w2" if "mem_same w1 w2" "\<alpha> (eng w2) = \<alpha> (eng w1)" "stop j a'" for a' w2
      using that w1 mem_same_trans [OF w1(1)] j pos Suc.prems(3) seq
      by (auto simp: iter_end_def intro!: exI [of _ x])
    show ?thesis
      by (rule wp_seq [OF body [OF live1 seq pos]])
        (use Suc.prems(6) j more broken in \<open>auto split: if_splits\<close>)
  qed
  have ended: "?Q a w1" if "mem_same w w1" "\<alpha> (eng w1) = \<alpha> (eng w)" "\<not> (ai_pos x < length xs \<and> T (xs ! ai_pos x))" for w1
    using that Suc.prems(3-6) seq by (auto simp: iter_end_def iter_at_def intro!: exI [of _ x] exI [of _ j] split: if_splits)
  show ?case
    unfolding iter_for.simps
    by (rule wp_seq [OF test [OF Suc.prems(1-3) seq]]) (use rest ended in auto)
qed

text \<open>A new iterator over a store, moved to the first key or to the first key not below another.\<close>

lemma wp_scan_new:
  assumes "c_ok w" "store_live w s d ro wo" "a_db (\<alpha> (eng w)) d = Some db"
    and "\<And>it i xs w1 x. c_ok w1 \<Longrightarrow> heap_keeps w w1 \<Longrightarrow> live_it w1 it i \<Longrightarrow> a_it (\<alpha> (eng w)) i = None \<Longrightarrow>
      key_sorted xs \<Longrightarrow> map_of xs = ad_kv db \<Longrightarrow> \<alpha> (eng w1) = a_put i x (\<alpha> (eng w)) \<Longrightarrow> ai_seq x = xs \<Longrightarrow>
      wp (f it) Q w1"
  shows "wp (bnd (Store_NewIterator R s) f) Q w"
proof -
  let ?ro = "(def_readoptions R)\<lparr>fill_cache := False\<rparr>"
  obtain i e1 where new: "db_NewIterator R d ?ro (eng w) = (i, e1)" by fastforce
  from iterator_law [OF new assms(3)] default_snapshot obtain xs where
    "a_it (\<alpha> (eng w)) i = None" "key_sorted xs" "map_of xs = ad_kv db"
      "\<alpha> e1 = a_put i \<lparr>ai_seq = xs, ai_pos = length xs, ai_failed = False\<rparr> (\<alpha> (eng w))"
    by (auto simp: a_view_def a_put_def)
  with new assms(4) show ?thesis
    unfolding wp_bnd by (intro wp_mono [OF wp_Store_NewIterator [OF assms(1,2)]]) auto
qed

lemma wp_moved:
  assumes "c_ok w" "live_it w it i" "\<alpha> (eng w) = a_put i x a" "ai_seq x = xs" "wp mv Q w = Q () (w\<lparr>eng := e\<rparr>)"
    and "moved i x j (\<alpha> (eng w)) (\<alpha> e)"
    and "\<And>w' x'. mem_same w w' \<Longrightarrow> \<alpha> (eng w') = a_put i x' a \<Longrightarrow> iter_at xs j x' \<Longrightarrow> Q () w'"
  shows "wp mv Q w"
proof -
  obtain x' where "\<alpha> e = a_put i x' a" "iter_at xs j x'"
    using assms(3,4,6) by (auto simp: moved_def a_move_put iter_at_def)
  with assms(7) [of "w\<lparr>eng := e\<rparr>" x'] mem_same_frame [OF assms(1), of "w\<lparr>eng := e\<rparr>"] show ?thesis
    by (simp add: assms(5))
qed

lemma wp_scan_first:
  assumes "c_ok w" "store_live w s d ro wo" "a_db (\<alpha> (eng w)) d = Some db"
    and "\<And>it i xs w1 x. c_ok w1 \<Longrightarrow> heap_keeps w w1 \<Longrightarrow> live_it w1 it i \<Longrightarrow> a_it (\<alpha> (eng w)) i = None \<Longrightarrow>
      key_sorted xs \<Longrightarrow> map_of xs = ad_kv db \<Longrightarrow> \<alpha> (eng w1) = a_put i x (\<alpha> (eng w)) \<Longrightarrow> iter_at xs 0 x \<Longrightarrow>
      wp (f it) Q w1"
  shows "wp (bnd (Store_NewIterator R s) (\<lambda>it. andthen (SeekToFirst R it) (f it))) Q w"
proof (rule wp_scan_new [OF assms(1-3)])
  fix it i xs w1 x
  assume w1: "c_ok w1" "heap_keeps w w1" "live_it w1 it i" "a_it (\<alpha> (eng w)) i = None" "key_sorted xs"
    "map_of xs = ad_kv db" "\<alpha> (eng w1) = a_put i x (\<alpha> (eng w))" "ai_seq x = xs"
  obtain e where e: "it_SeekToFirst R i (eng w1) = ((), e)" by (cases "it_SeekToFirst R i (eng w1)") auto
  show "wp (andthen (SeekToFirst R it) (f it)) Q w1"
    unfolding wp_bnd
    by (rule wp_moved [OF w1(1,3,7,8), where e = e and j = 0])
      (use e w1 first_law [OF e, of x] in \<open>auto simp: wp_Iterator_moves(1) [OF w1(1,3)] mem_same_def
        intro!: assms(4) intro: heap_keeps_same\<close>)
qed

lemma wp_scan_seek:
  assumes "c_ok w" "store_live w s d ro wo" "a_db (\<alpha> (eng w)) d = Some db"
    and "\<And>it i xs w1 x. c_ok w1 \<Longrightarrow> heap_keeps w w1 \<Longrightarrow> live_it w1 it i \<Longrightarrow> a_it (\<alpha> (eng w)) i = None \<Longrightarrow>
      key_sorted xs \<Longrightarrow> map_of xs = ad_kv db \<Longrightarrow> \<alpha> (eng w1) = a_put i x (\<alpha> (eng w)) \<Longrightarrow>
      iter_at xs (seek_pos key xs) x \<Longrightarrow> wp (f it) Q w1"
  shows "wp (bnd (Store_NewIterator R s) (\<lambda>it. andthen (Seek R it key) (f it))) Q w"
proof (rule wp_scan_new [OF assms(1-3)])
  fix it i xs w1 x
  assume w1: "c_ok w1" "heap_keeps w w1" "live_it w1 it i" "a_it (\<alpha> (eng w)) i = None" "key_sorted xs"
    "map_of xs = ad_kv db" "\<alpha> (eng w1) = a_put i x (\<alpha> (eng w))" "ai_seq x = xs"
  obtain e where e: "it_Seek R i key (eng w1) = ((), e)" by (cases "it_Seek R i key (eng w1)") auto
  show "wp (andthen (Seek R it key) (f it)) Q w1"
    unfolding wp_bnd
    by (rule wp_moved [OF w1(1,3,7,8), where e = e and j = "seek_pos key xs"])
      (use e w1 seek_law [OF e, of x] in \<open>auto simp: wp_Iterator_moves(5) [OF w1(1,3)] mem_same_def
        intro!: assms(4) intro: heap_keeps_same\<close>)
qed

lemma wp_valid:
  assumes "c_ok w" "live_it w it i" "a_it (\<alpha> (eng w)) i = Some x"
  shows "wp (Iterator_Valid R it) (\<lambda>b w'. mem_same w w' \<and> \<alpha> (eng w') = \<alpha> (eng w) \<and>
    b = (ai_pos x < length (ai_seq x))) w"
  using valid_law [of i "eng w" _ _ x] assms
  by (cases "it_Valid R i (eng w)") (auto simp: wp_Iterator_Valid [OF assms(1,2)] intro!: mem_same_frame)

end

section \<open>The scan of a prefix\<close>

text \<open>Reading the current item through its slices.\<close>

definition slice_bytes :: "Slice option \<Rightarrow> ('b, 'f, 'e, bytes) rio" where
  "slice_bytes k = (case k of None \<Rightarrow> fail NilDeref | Some s \<Rightarrow> h_bytes (Slice_Data s))"

definition read_item :: "('b, 'f, 'e) rocksdb \<Rightarrow> Iterator \<Rightarrow> ('b, 'f, 'e, bytes \<times> bytes) rio" where
  "read_item R it =
     bnd (Iterator_Key R it) (\<lambda>k. bnd (slice_bytes k) (\<lambda>kb.
     bnd (Iterator_Value R it) (\<lambda>v. bnd (slice_bytes v) (\<lambda>vb. ret (kb, vb)))))"

definition collect_from ::
  "('b, 'f, 'e) rocksdb \<Rightarrow> Iterator \<Rightarrow> bytes \<Rightarrow> nat \<Rightarrow> ('b, 'f, 'e, (bytes \<times> bytes) list) rio" where
  "collect_from R it pre fuel =
     iter_for R it (ValidForPrefix R it pre) (\<lambda>ps. bnd (read_item R it) (\<lambda>p. ret (False, ps @ [p]))) fuel []"

text \<open>The documented use of an iterator, for the keys with a prefix.\<close>

definition prefix_session ::
  "('b, 'f, 'e) rocksdb \<Rightarrow> Store \<Rightarrow> bytes \<Rightarrow> nat \<Rightarrow> ('b, 'f, 'e, (bytes \<times> bytes) list \<times> bytes option) rio" where
  "prefix_session R s pre fuel =
     bnd (Store_NewIterator R s) (\<lambda>it.
     andthen (Seek R it pre)
     (bnd (collect_from R it pre fuel) (\<lambda>ps.
     bnd (Iterator_Err R it) (\<lambda>err.
     andthen (Iterator_Close R it) (ret (ps, err))))))"

text \<open>The items read from position \<open>p\<close> up to position \<open>j\<close>, all of which meet \<open>T\<close>.\<close>

definition items_read ::
  "(bytes \<times> bytes) list \<Rightarrow> (bytes \<times> bytes \<Rightarrow> bool) \<Rightarrow> nat \<Rightarrow> nat \<Rightarrow> (bytes \<times> bytes) list \<Rightarrow> bool" where
  "items_read xs T p j ps \<longleftrightarrow> p \<le> j \<and> j \<le> length xs \<and> ps = take (j - p) (drop p xs) \<and> list_all T ps"

lemma items_read_start: "p \<le> length xs \<Longrightarrow> items_read xs T p p []"
  by (simp add: items_read_def)

lemma items_read_next:
  "items_read xs T p j ps \<Longrightarrow> j < length xs \<Longrightarrow> T (xs ! j) \<Longrightarrow> items_read xs T p (Suc j) (ps @ [xs ! j])"
  by (auto simp: items_read_def take_Suc_conv_app_nth Suc_diff_le)

lemma items_read_end:
  assumes "items_read xs T p j ps"
  shows "prefix ps (takeWhile T (drop p xs))"
    and "(j < length xs \<Longrightarrow> \<not> T (xs ! j)) \<Longrightarrow> ps = takeWhile T (drop p xs)"
proof -
  have ps: "p \<le> j" "j \<le> length xs" "list_all T ps" "drop p xs = ps @ drop j xs"
    using assms by (auto simp: items_read_def) (metis append_take_drop_id drop_drop le_add_diff_inverse2)
  have T: "takeWhile T (drop p xs) = ps @ takeWhile T (drop j xs)"
    using ps(3) by (simp add: ps(4) list_all_iff)
  show "prefix ps (takeWhile T (drop p xs))" unfolding T by simp
  show "ps = takeWhile T (drop p xs)" if "j < length xs \<Longrightarrow> \<not> T (xs ! j)"
    unfolding T using that ps(2) by (cases "j < length xs") (auto simp: Cons_nth_drop_Suc [symmetric])
qed

context rocks_iter
begin

lemma wp_valid_prefix:
  assumes "c_ok w" "live_it w it i" "a_it (\<alpha> (eng w)) i = Some x"
    and "\<forall>p \<in> set (ai_seq x). length (fst p) < 2 ^ 63"
  shows "wp (ValidForPrefix R it pre) (\<lambda>r w'. mem_same w w' \<and> \<alpha> (eng w') = \<alpha> (eng w) \<and>
    r = (ai_pos x < length (ai_seq x) \<and> prefix pre (fst (ai_seq x ! ai_pos x)))) w"
proof -
  obtain b e1 where v: "it_Valid R i (eng w) = (b, e1)" by fastforce
  obtain k e2 where k: "it_key R i e1 = (k, e2)" by fastforce
  note valid = valid_law [OF v assms(3)]
  have "a_it (\<alpha> e1) i = Some x" using valid assms(3) by simp
  note key = key_law [OF k this]
  show ?thesis
    using assms valid key
    by (auto simp: ValidForPrefix_def rdb_iter_valid_def live_nonnull split_def v k
        wp_Iterator_Key [of "w\<lparr>eng := e1\<rparr>" it i, simplified] wp_h_bytes_borrowed
        intro!: mem_same_frame)
qed

lemma wp_read_item:
  assumes "c_ok w" "live_it w it i" "a_it (\<alpha> (eng w)) i = Some x" "ai_pos x < length (ai_seq x)"
    and "\<forall>p \<in> set (ai_seq x). length (fst p) < 2 ^ 63 \<and> length (snd p) < 2 ^ 63"
  shows "wp (read_item R it) (\<lambda>p w'. mem_same w w' \<and> \<alpha> (eng w') = \<alpha> (eng w) \<and>
    p = ai_seq x ! ai_pos x) w"
proof -
  obtain k e1 where k: "it_key R i (eng w) = (k, e1)" by fastforce
  obtain v e2 where v: "it_value R i e1 = (v, e2)" by fastforce
  note key = key_law [OF k assms(3,4)]
  have "a_it (\<alpha> e1) i = Some x" using key assms(3) by simp
  note val = value_law [OF v this assms(4)]
  show ?thesis
    using assms key val
    by (auto simp: read_item_def slice_bytes_def wp_Iterator_Key [OF assms(1,2)] k
        wp_Iterator_Value [of "w\<lparr>eng := e1\<rparr>" it i, simplified] v wp_h_bytes_borrowed intro!: mem_same_frame)
qed

lemma wp_collect_from:
  assumes "c_ok w" "live_it w it i" "a_it (\<alpha> (eng w)) i = Some x" "iter_at xs p x" "p \<le> length xs"
    and "length xs - p < fuel" "\<forall>p \<in> set xs. length (fst p) < 2 ^ 63 \<and> length (snd p) < 2 ^ 63"
  shows "wp (collect_from R it pre fuel) (\<lambda>ps w'. mem_same w w' \<and>
    (\<exists>x'. \<alpha> (eng w') = a_put i x' (\<alpha> (eng w)) \<and>
      prefix ps (takeWhile (\<lambda>p. prefix pre (fst p)) (drop p xs)) \<and>
      (\<not> ai_failed x' \<longrightarrow> ps = takeWhile (\<lambda>p. prefix pre (fst p)) (drop p xs)))) w"
proof -
  let ?T = "\<lambda>p. prefix pre (fst p)"
  let ?I = "items_read xs ?T p" and ?S = "\<lambda>(j :: nat) (ps :: (bytes \<times> bytes) list). False"
  have "wp (collect_from R it pre fuel) (\<lambda>ps w'. mem_same w w' \<and> (\<exists>x'. \<alpha> (eng w') = a_put i x' (\<alpha> (eng w)) \<and>
      ai_seq x' = xs \<and> iter_end xs ?T ?I ?S x' ps)) w"
    unfolding collect_from_def
  proof (rule wp_iter_for [OF _ _ assms(1-5)])
    show "wp (ValidForPrefix R it pre) (\<lambda>b w'. mem_same w w' \<and> \<alpha> (eng w') = \<alpha> (eng w) \<and>
        b = (ai_pos x < length xs \<and> ?T (xs ! ai_pos x))) w"
      if "c_ok w" "live_it w it i" "a_it (\<alpha> (eng w)) i = Some x" "ai_seq x = xs" for w x
      using wp_valid_prefix [OF that(1-3), of pre] that(4) assms(7) by simp
    show "wp (bnd (read_item R it) (\<lambda>p. ret (False, ps @ [p]))) (\<lambda>r w'. mem_same w w' \<and> \<alpha> (eng w') = \<alpha> (eng w) \<and>
        (if fst r then ?S (ai_pos x) (snd r) else ?I (Suc (ai_pos x)) (snd r))) w"
      if "c_ok w" "live_it w it i" "a_it (\<alpha> (eng w)) i = Some x" "ai_seq x = xs" "ai_pos x < length xs"
        "?T (xs ! ai_pos x)" "?I (ai_pos x) ps" for w x ps
      unfolding wp_bnd
      by (rule wp_mono [OF wp_read_item [OF that(1-3)]]) (use that(4-7) assms(7) items_read_next in auto)
  qed (use assms(5,6) in \<open>auto simp: items_read_def\<close>)
  then show ?thesis
    by (rule wp_mono) (auto simp: iter_end_def split: if_splits dest: items_read_end)
qed

text \<open>Asking for the error of an iterator and closing it, which undoes its creation.\<close>

lemma wp_err_close:
  assumes "c_ok w1" "live_it w1 it i" "\<alpha> (eng w1) = a_put i x a" "a_it a i = None"
  shows "wp (bnd (Iterator_Err R it) (\<lambda>err. andthen (Iterator_Close R it) (ret (ps, err))))
    (\<lambda>r w'. c_ok w' \<and> \<alpha> (eng w') = a \<and> fst r = ps \<and> (snd r = None \<longrightarrow> \<not> ai_failed x)) w1"
proof -
  obtain e e4 where err: "it_status R i (eng w1) = (e, e4)" by fastforce
  have "a_it (\<alpha> (eng w1)) i = Some x" using assms(3) by simp
  note status = it_status_law [OF err this]
  show ?thesis
    unfolding wp_bnd
    by (rule wp_mono [OF wp_Iterator_Err [OF assms(1,2)]], rule wp_mono [OF wp_Iterator_Close [where i = i]])
      (use err status assms a_put_del it_delete_law [of i e4] in \<open>auto simp: mem_same_def prod_eq_iff\<close>)
qed

lemma wp_prefix_session:
  assumes "c_ok w" "store_live w s d ro wo" "a_db (\<alpha> (eng w)) d = Some db"
    and "card (dom (ad_kv db)) < fuel"
    and "\<forall>k v. ad_kv db k = Some v \<longrightarrow> length k < 2 ^ 63 \<and> length v < 2 ^ 63"
  shows "wp (prefix_session R s pre fuel) (\<lambda>(ps, err) w'. c_ok w' \<and> \<alpha> (eng w') = \<alpha> (eng w) \<and>
    key_sorted ps \<and> map_of ps \<subseteq>\<^sub>m ad_kv db \<and> (\<forall>k \<in> set (map fst ps). prefix pre k) \<and>
    (err = None \<longrightarrow> map_of ps = (\<lambda>k. if prefix pre k then ad_kv db k else None))) w"
  unfolding prefix_session_def
proof (rule wp_scan_seek [OF assms(1-3)])
  fix it i xs x and w1 :: "('a, 'b, 'c) world"
  assume w1: "c_ok w1" "live_it w1 it i" "a_it (\<alpha> (eng w)) i = None" "\<alpha> (eng w1) = a_put i x (\<alpha> (eng w))"
    and xs: "key_sorted xs" "map_of xs = ad_kv db" "iter_at xs (seek_pos pre xs) x"
  have len: "\<forall>p \<in> set xs. length (fst p) < 2 ^ 63 \<and> length (snd p) < 2 ^ 63"
    using assms(5) xs(1,2) by (metis key_sorted_lookup)
  have fuel: "length xs - seek_pos pre xs < fuel" using key_sorted_card [OF xs(1,2)] assms(4) by simp
  have x: "a_it (\<alpha> (eng w1)) i = Some x" using w1(4) by simp
  let ?Q = "\<lambda>r w'. c_ok w' \<and> \<alpha> (eng w') = \<alpha> (eng w) \<and> key_sorted (fst r) \<and> map_of (fst r) \<subseteq>\<^sub>m ad_kv db \<and>
    (\<forall>k \<in> set (map fst (fst r)). prefix pre k) \<and>
    (snd r = None \<longrightarrow> map_of (fst r) = (\<lambda>k. if prefix pre k then ad_kv db k else None))"
  have close: "wp (bnd (Iterator_Err R it) (\<lambda>err. andthen (Iterator_Close R it) (ret (ps, err)))) ?Q w2"
    if w2: "mem_same w1 w2" "\<alpha> (eng w2) = a_put i x' (\<alpha> (eng w))"
      and ps: "prefix ps (filter (\<lambda>p. prefix pre (fst p)) xs)" "\<not> ai_failed x' \<longrightarrow> ps = filter (\<lambda>p. prefix pre (fst p)) xs"
    for ps x' w2
  proof -
    have live: "c_ok w2" "live_it w2 it i" using w1 w2(1) by (auto simp: mem_same_def)
    note facts = prefix_filter_facts [OF xs(1) ps(1), unfolded xs(2)]
    have "\<not> ai_failed x' \<longrightarrow> map_of ps = (\<lambda>k. if prefix pre k then ad_kv db k else None)"
      using ps(2) map_of_filter_key [of "prefix pre" xs, unfolded xs(2)] by metis
    with facts show ?thesis
      by (intro wp_mono [OF wp_err_close [OF live w2(2) w1(3)]]) auto
  qed
  show "wp (bnd (collect_from R it pre fuel) (\<lambda>ps. bnd (Iterator_Err R it) (\<lambda>err. andthen (Iterator_Close R it) (ret (ps, err)))))
    (\<lambda>(ps, err) w'. c_ok w' \<and> \<alpha> (eng w') = \<alpha> (eng w) \<and> key_sorted ps \<and> map_of ps \<subseteq>\<^sub>m ad_kv db \<and>
      (\<forall>k \<in> set (map fst ps). prefix pre k) \<and>
      (err = None \<longrightarrow> map_of ps = (\<lambda>k. if prefix pre k then ad_kv db k else None))) w1"
    unfolding split_def
    by (rule wp_seq [OF wp_collect_from [OF w1(1,2) x xs(3) seek_pos_le fuel len]], elim exE conjE, rule close)
      (simp_all add: w1(4) seek_prefix [OF xs(1)])
qed

end

section \<open>Properties\<close>

text \<open>
  C11. A prefix scan with an iterator (Seek, ValidForPrefix, Key, Value, Next, Err, Close) on a
  store with fewer keys than \<open>fuel\<close>: it returns key/value pairs of the store in key order, all
  with the prefix, and if Err reports nothing, all of them; after Close the engine's state is
  what it was.
\<close>

theorem prefix_scan:
  assumes "rocks_iter R \<alpha> bops" and "c_ok w" and "store_live w s d ro wo"
    and "a_db (\<alpha> (eng w)) d = Some db" and "card (dom (ad_kv db)) < fuel"
    and "\<forall>k v. ad_kv db k = Some v \<longrightarrow> length k < 2 ^ 63 \<and> length v < 2 ^ 63"
  shows "wp (prefix_session R s pre fuel) (\<lambda>(ps, err) w'. c_ok w' \<and> \<alpha> (eng w') = \<alpha> (eng w) \<and>
    key_sorted ps \<and> map_of ps \<subseteq>\<^sub>m ad_kv db \<and> (\<forall>k \<in> set (map fst ps). prefix pre k) \<and>
    (err = None \<longrightarrow> map_of ps = (\<lambda>k. if prefix pre k then ad_kv db k else None))) w"
  using assms by (rule rocks_iter.wp_prefix_session)

theorem prefix_scan_witness:
  "map_sum id fst (prefix_session ref_rocksdb store_one ''k'' 2 (world_open True)) = Inr ([(''k'', ''neo'')], None) \<and>
   wp (prefix_session ref_rocksdb store_one ''k'' 2) (\<lambda>(ps, err) w'. map_of ps \<subseteq>\<^sub>m [''k'' \<mapsto> ''neo'']) (world_open True)"
  by (rule conjI, code_simp,
      rule wp_mono [OF prefix_scan [OF ref.rocks_iter_axioms store_one_facts(1-3)]])
    (auto split: if_splits)

end
