(* ===== verification/ClientSafety.thy ===== *)
theory ClientSafety
  imports IterSpec
begin

text \<open>
  Memory safety of every client of package \<^verbatim>\<open>store\<close>. A client opens a store, makes any sequence
  of calls on it and on the handles the calls return (slices, iterators, write batches, snapshots,
  checkpoints), and closes it. The handles are a table; a call names a handle by its place in
  the table. A client does not use a handle that it has closed, so such a call is skipped; freeing a
  slice twice is allowed. Nothing is assumed of the engine but the sizes of what it returns.
\<close>

section \<open>Client programs\<close>

datatype iter_call =
    ISeekToFirst | ISeekToLast | INext | IPrev | ISeek bytes | ISeekForPrev bytes
  | IValid | IValidForPrefix bytes | IKey | IValue | IErr

datatype client_call =
    CGet bytes | CSetOne bytes bytes | CDelete bytes | CMemtableSize | CIndexFilterblockSize | CGetStats
  | CData nat | CFree nat
  | CNewIterator | CIter nat iter_call | CIterClose nat
  | CNewWriteBatch | CPut nat bytes bytes | CBatchDelete nat bytes | CCount nat | CClear nat | CWriteBatch nat | CBatchDestroy nat
  | CNewSnapshot | CSetSnapshot "nat option" | CRelease nat
  | CNewCheckpoint | CSave nat bytes | CCheckpointDestroy nat

datatype handle =
    HSlice Slice | HIter Iterator | HBatch WriteBatch | HSnap Snapshot | HCheck Checkpoint | HClosed

text \<open>The table, and the number of C objects that nothing can free any more.\<close>

record client =
  cl_table :: "handle list"
  cl_lost :: nat

definition cl_at :: "client \<Rightarrow> nat \<Rightarrow> handle" where
  "cl_at c i = (if i < length (cl_table c) then cl_table c ! i else HClosed)"

definition cl_add :: "handle \<Rightarrow> client \<Rightarrow> client" where
  "cl_add h c = c\<lparr>cl_table := cl_table c @ [h]\<rparr>"

definition cl_put :: "nat \<Rightarrow> handle \<Rightarrow> client \<Rightarrow> client" where
  "cl_put i h c = c\<lparr>cl_table := (cl_table c)[i := h]\<rparr>"

definition cl_lose :: "client \<Rightarrow> client" where
  "cl_lose c = c\<lparr>cl_lost := Suc (cl_lost c)\<rparr>"

fun iter_do :: "('b, 'f, 'e) rocksdb \<Rightarrow> Iterator \<Rightarrow> iter_call \<Rightarrow> ('b, 'f, 'e, unit) rio" where
  "iter_do R it ISeekToFirst = SeekToFirst R it"
| "iter_do R it ISeekToLast = SeekToLast R it"
| "iter_do R it INext = Iterator_Next R it"
| "iter_do R it IPrev = Iterator_Prev R it"
| "iter_do R it (ISeek key) = Seek R it key"
| "iter_do R it (ISeekForPrev key) = SeekForPrev R it key"
| "iter_do R it IValid = andthen (Iterator_Valid R it) (ret ())"
| "iter_do R it (IValidForPrefix pre) = andthen (ValidForPrefix R it pre) (ret ())"
| "iter_do R it IKey = bnd (Iterator_Key R it) (\<lambda>s. andthen (slice_bytes s) (ret ()))"
| "iter_do R it IValue = bnd (Iterator_Value R it) (\<lambda>s. andthen (slice_bytes s) (ret ()))"
| "iter_do R it IErr = andthen (Iterator_Err R it) (ret ())"

fun client_do :: "('b, 'f, 'e) rocksdb \<Rightarrow> Store \<Rightarrow> client_call \<Rightarrow> client \<Rightarrow> ('b, 'f, 'e, client) rio" where
  "client_do R s (CGet k) c = bnd (Store_Get R s k) (\<lambda>r. case r of
     Inl e \<Rightarrow> ret c | Inr sl \<Rightarrow> ret (cl_add (HSlice sl) c))"
| "client_do R s (CSetOne k v) c = andthen (Store_SetOne R s k v) (ret c)"
| "client_do R s (CDelete k) c = andthen (Store_Delete R s k) (ret c)"
| "client_do R s CMemtableSize c = andthen (MemtableSize R s) (ret c)"
| "client_do R s CIndexFilterblockSize c = andthen (IndexFilterblockSize R s) (ret c)"
| "client_do R s CGetStats c = andthen (Store_GetStats R s) (ret c)"
| "client_do R s (CData i) c = (case cl_at c i of
     HSlice sl \<Rightarrow> if sl_freed sl then ret c else andthen (h_bytes (Slice_Data sl)) (ret c)
   | _ \<Rightarrow> ret c)"
| "client_do R s (CFree i) c = (case cl_at c i of
     HSlice sl \<Rightarrow> bnd (Slice_Free sl) (\<lambda>sl'. ret (cl_put i (HSlice sl') c)) | _ \<Rightarrow> ret c)"
| "client_do R s CNewIterator c = bnd (Store_NewIterator R s) (\<lambda>it. ret (cl_lose (cl_add (HIter it) c)))"
| "client_do R s (CIter i ic) c = (case cl_at c i of HIter it \<Rightarrow> andthen (iter_do R it ic) (ret c) | _ \<Rightarrow> ret c)"
| "client_do R s (CIterClose i) c = (case cl_at c i of
     HIter it \<Rightarrow> andthen (Iterator_Close R it) (ret (cl_put i HClosed c)) | _ \<Rightarrow> ret c)"
| "client_do R s CNewWriteBatch c = bnd (Store_NewWriteBatch R s) (\<lambda>wb. ret (cl_add (HBatch wb) c))"
| "client_do R s (CPut i k v) c = (case cl_at c i of HBatch wb \<Rightarrow> andthen (WriteBatch_Put R wb k v) (ret c) | _ \<Rightarrow> ret c)"
| "client_do R s (CBatchDelete i k) c = (case cl_at c i of HBatch wb \<Rightarrow> andthen (WriteBatch_Delete R wb k) (ret c) | _ \<Rightarrow> ret c)"
| "client_do R s (CCount i) c = (case cl_at c i of HBatch wb \<Rightarrow> andthen (WriteBatch_Count R wb) (ret c) | _ \<Rightarrow> ret c)"
| "client_do R s (CClear i) c = (case cl_at c i of HBatch wb \<Rightarrow> andthen (WriteBatch_Clear R wb) (ret c) | _ \<Rightarrow> ret c)"
| "client_do R s (CWriteBatch i) c = (case cl_at c i of HBatch wb \<Rightarrow> andthen (Store_WriteBatch R s wb) (ret c) | _ \<Rightarrow> ret c)"
| "client_do R s (CBatchDestroy i) c = (case cl_at c i of
     HBatch wb \<Rightarrow> andthen (WriteBatch_Destroy wb) (ret (cl_put i HClosed c)) | _ \<Rightarrow> ret c)"
| "client_do R s CNewSnapshot c = bnd (Store_NewSnapshot R s) (\<lambda>sn. ret (cl_add (HSnap sn) c))"
| "client_do R s (CSetSnapshot None) c = andthen (Store_SetSnapshot s None) (ret c)"
| "client_do R s (CSetSnapshot (Some i)) c = (case cl_at c i of
     HSnap sn \<Rightarrow> andthen (Store_SetSnapshot s (Some sn)) (ret c) | _ \<Rightarrow> ret c)"
| "client_do R s (CRelease i) c = (case cl_at c i of
     HSnap sn \<Rightarrow> andthen (Snapshot_Release R sn) (ret (cl_put i HClosed c)) | _ \<Rightarrow> ret c)"
| "client_do R s CNewCheckpoint c = bnd (Store_NewCheckpoint R s) (\<lambda>r. case r of
     Inl e \<Rightarrow> ret c | Inr cp \<Rightarrow> ret (cl_add (HCheck cp) c))"
| "client_do R s (CSave i dir) c = (case cl_at c i of HCheck cp \<Rightarrow> andthen (Checkpoint_Save R cp dir) (ret c) | _ \<Rightarrow> ret c)"
| "client_do R s (CCheckpointDestroy i) c = (case cl_at c i of
     HCheck cp \<Rightarrow> andthen (Checkpoint_Destroy R cp) (ret (cl_lose (cl_put i HClosed c))) | _ \<Rightarrow> ret c)"

fun client_run :: "('b, 'f, 'e) rocksdb \<Rightarrow> Store \<Rightarrow> client_call list \<Rightarrow> client \<Rightarrow> ('b, 'f, 'e, client) rio" where
  "client_run R s [] c = ret c"
| "client_run R s (a # as) c = bnd (client_do R s a c) (client_run R s as)"

section \<open>The types of handles\<close>

text \<open>The C blocks a handle owns, and when it is well typed: they are live and of its type.\<close>

fun owns :: "handle \<Rightarrow> ptr list" where
  "owns (HSlice sl) = (if sl_freed sl then [] else case sl_data sl of CPtr p \<Rightarrow> [p] | _ \<Rightarrow> [])"
| "owns (HIter it) = [itr_c it]"
| "owns (HBatch wb) = [wb_c wb]"
| "owns (HSnap sn) = [sn_c sn]"
| "owns (HCheck cp) = [cp_c cp]"
| "owns HClosed = []"

fun handle_ok :: "ptr \<Rightarrow> ('b, 'f, 'e) world \<Rightarrow> handle \<Rightarrow> bool" where
  "handle_ok dbp w (HSlice sl) \<longleftrightarrow> sl_freed sl \<or> sl = NewSlice Null 0 \<or>
     (\<exists>p v. sl = NewSlice (CPtr p) (length v) \<and> length v < 2 ^ 63 \<and> c_heap w p = Some (Chars v))"
| "handle_ok dbp w (HIter it) \<longleftrightarrow> (\<exists>i. live_it w it i)"
| "handle_ok dbp w (HBatch wb) \<longleftrightarrow> (\<exists>b. live_wb w wb b)"
| "handle_ok dbp w (HSnap sn) \<longleftrightarrow> sn_cDb sn = dbp \<and> (\<exists>x. c_heap w (sn_c sn) = Some (Obj (SnapObj x)))"
| "handle_ok dbp w (HCheck cp) \<longleftrightarrow> (\<exists>x. c_heap w (cp_c cp) = Some (Obj (ChkObj x)))"
| "handle_ok dbp w HClosed \<longleftrightarrow> True"

lemma handle_frame:
  "handle_ok dbp w h \<Longrightarrow> (\<And>p. p \<in> set (owns h) \<Longrightarrow> c_heap w' p = c_heap w p) \<Longrightarrow> handle_ok dbp w' h"
  by (cases h) (auto simp: NewSlice_def)

lemma owns_live: "handle_ok dbp w h \<Longrightarrow> p \<in> set (owns h) \<Longrightarrow> p \<in> dom (c_heap w)"
  by (cases h) (auto simp: NewSlice_def split: if_splits)

definition blocks :: "client \<Rightarrow> ptr list" where
  "blocks c = concat (map owns (cl_table c))"

lemma handles_frame:
  assumes "list_all (handle_ok dbp w) (cl_table c)" "\<And>p. p \<in> set (blocks c) \<Longrightarrow> c_heap w' p = c_heap w p"
  shows "list_all (handle_ok dbp w') (cl_table c)"
  unfolding list_all_iff
proof
  fix h assume h: "h \<in> set (cl_table c)"
  then have "c_heap w' p = c_heap w p" if "p \<in> set (owns h)" for p using that assms(2) by (auto simp: blocks_def)
  with h assms(1) show "handle_ok dbp w' h" by (auto simp: list_all_iff intro: handle_frame [of _ w])
qed

lemma blocks_add: "blocks (cl_add h c) = blocks c @ owns h"
  by (simp add: blocks_def cl_add_def)

lemma blocks_lose [simp]: "blocks (cl_lose c) = blocks c"
  by (simp add: blocks_def cl_lose_def)

text \<open>Replacing a handle takes its blocks out of the table.\<close>

lemma blocks_put:
  assumes "cl_at c i = h" "h \<noteq> HClosed" "distinct (blocks c)" "owns h' = []"
  shows "distinct (blocks (cl_put i h' c))" "set (blocks (cl_put i h' c)) = set (blocks c) - set (owns h)"
    "set (owns h) \<subseteq> set (blocks c)"
proof -
  have i: "i < length (cl_table c)" "cl_table c ! i = h" using assms(1,2) by (auto simp: cl_at_def split: if_splits)
  have b: "blocks c = concat (map owns (take i (cl_table c))) @ owns h @ concat (map owns (drop (Suc i) (cl_table c)))"
    using arg_cong [OF id_take_nth_drop [OF i(1)], of "\<lambda>x. concat (map owns x)"] unfolding blocks_def i(2) map_append concat_append list.map concat.simps .
  have b': "blocks (cl_put i h' c) = concat (map owns (take i (cl_table c))) @ concat (map owns (drop (Suc i) (cl_table c)))"
    by (simp add: blocks_def cl_put_def upd_conv_take_nth_drop [OF i(1)] assms(4))
  show "distinct (blocks (cl_put i h' c))" "set (blocks (cl_put i h' c)) = set (blocks c) - set (owns h)"
    "set (owns h) \<subseteq> set (blocks c)"
    using assms(3) unfolding b b' by auto
qed

section \<open>The invariant\<close>

text \<open>What the engine returns fits the address space.\<close>

definition engine_sizes :: "('b, 'f, 'e) rocksdb \<Rightarrow> bool" where
  "engine_sizes R \<longleftrightarrow> (\<forall>d opt k e. length (snd (fst (db_Get R d opt k e))) < 2 ^ 63) \<and>
     (\<forall>i e. length (fst (it_key R i e)) < 2 ^ 63 \<and> length (fst (it_value R i e)) < 2 ^ 63)"

text \<open>
  The blocks \<open>D\<close> that are allocated: those of the start, \<open>A\<close>, those of the table, \<open>bs\<close>, and \<open>n\<close> more
  that are lost.
\<close>

definition accounted :: "ptr set \<Rightarrow> ptr set \<Rightarrow> ptr list \<Rightarrow> nat \<Rightarrow> bool" where
  "accounted A D bs n \<longleftrightarrow> distinct bs \<and>
     (\<exists>K. finite K \<and> card K = n \<and> K \<inter> set bs = {} \<and> A \<inter> (set bs \<union> K) = {} \<and> D = A \<union> set bs \<union> K)"

lemma accounted_card:
  assumes "accounted A D bs n"
  shows "card (D - A) = length bs + n"
proof -
  obtain K where K: "finite K" "card K = n" "K \<inter> set bs = {}" "A \<inter> (set bs \<union> K) = {}" "D = A \<union> set bs \<union> K" "distinct bs"
    using assms unfolding accounted_def by blast
  have "D - A = set bs \<union> K" using K(4,5) by auto
  then show ?thesis using K card_Un_disjoint [of "set bs" K] by (simp add: distinct_card Int_commute)
qed

lemma accounted_fresh: "accounted A D bs n \<Longrightarrow> p \<notin> D \<Longrightarrow> p \<notin> A \<and> p \<notin> set bs"
  by (auto simp: accounted_def)

lemma accounted_own: "accounted A D bs n \<Longrightarrow> p \<in> set bs \<Longrightarrow> p \<notin> A"
  by (auto simp: accounted_def)

lemma accounted_add:
  assumes "accounted A D bs n" "p \<notin> D"
  shows "accounted A (insert p D) (bs @ [p]) n"
proof -
  obtain K where "finite K" "card K = n" "K \<inter> set bs = {}" "A \<inter> (set bs \<union> K) = {}" "D = A \<union> set bs \<union> K" "distinct bs"
    using assms(1) unfolding accounted_def by blast
  then show ?thesis using assms(2) unfolding accounted_def by (intro conjI exI [of _ K]) auto
qed

lemma accounted_leak:
  assumes "accounted A D bs n" "p \<notin> D"
  shows "accounted A (insert p D) bs (Suc n)"
proof -
  obtain K where "finite K" "card K = n" "K \<inter> set bs = {}" "A \<inter> (set bs \<union> K) = {}" "D = A \<union> set bs \<union> K" "distinct bs"
    using assms(1) unfolding accounted_def by blast
  then show ?thesis using assms(2) unfolding accounted_def by (intro conjI exI [of _ "insert p K"]) auto
qed

text \<open>A block that leaves the table is freed or lost.\<close>

lemma accounted_drop:
  assumes "accounted A D bs n" "distinct bs'" "set bs' = set bs - {p}" "p \<in> set bs"
  shows "accounted A (D - {p}) bs' n" "accounted A D bs' (Suc n)"
proof -
  obtain K where K: "finite K" "card K = n" "K \<inter> set bs = {}" "A \<inter> (set bs \<union> K) = {}" "D = A \<union> set bs \<union> K" "distinct bs"
    using assms(1) unfolding accounted_def by blast
  then have "p \<notin> K" "p \<notin> A" using assms(4) by auto
  show "accounted A (D - {p}) bs' n"
    using K \<open>p \<notin> K\<close> \<open>p \<notin> A\<close> assms(2-4) unfolding accounted_def by (intro conjI exI [of _ K]) auto
  show "accounted A D bs' (Suc n)"
    using K \<open>p \<notin> K\<close> \<open>p \<notin> A\<close> assms(2-4) unfolding accounted_def by (intro conjI exI [of _ "insert p K"]) auto
qed

locale client_store =
  fixes R :: "('b, 'f, 'e) rocksdb" and s :: Store and d :: nat and ro0 :: readoptions and wo :: writeoptions
    and w0 :: "('b, 'f, 'e) world" and db :: DB
  assumes sizes: "engine_sizes R" and start_ok: "c_ok w0" and start_live: "store_live w0 s d ro0 wo"
    and start_db: "s_db s = Some db"
begin

text \<open>
  What was there at the start is there, and unchanged except for the read options of the
  store, which a snapshot is set on.
\<close>

definition client_inv :: "client \<Rightarrow> ('b, 'f, 'e) world \<Rightarrow> bool" where
  "client_inv c w \<longleftrightarrow> c_ok w \<and> (\<exists>ro. live_ro w (s_ropt s) ro) \<and>
     list_all (handle_ok (db_c db) w) (cl_table c) \<and>
     accounted (dom (c_heap w0)) (dom (c_heap w)) (blocks c) (cl_lost c) \<and>
     (\<forall>p \<in> dom (c_heap w0). p \<noteq> ro_c (s_ropt s) \<longrightarrow> c_heap w p = c_heap w0 p)"

lemma own_blocks:
  "db_c db \<in> dom (c_heap w0)" "ro_c (s_ropt s) \<in> dom (c_heap w0)" "wo_c (s_wopt s) \<in> dom (c_heap w0)"
  "db_c db \<noteq> ro_c (s_ropt s)" "wo_c (s_wopt s) \<noteq> ro_c (s_ropt s)"
  using start_live by (auto simp: store_live_def start_db)

lemma inv_live:
  assumes "client_inv c w"
  obtains ro where "c_ok w" "live_db w db d" "live_ro w (s_ropt s) ro" "live_wo w (s_wopt s) wo" "store_live w s d ro wo"
proof -
  have "c_heap w (db_c db) = c_heap w0 (db_c db)" "c_heap w (wo_c (s_wopt s)) = c_heap w0 (wo_c (s_wopt s))"
    using assms own_blocks by (auto simp: client_inv_def)
  then show ?thesis using assms start_live that by (auto simp: client_inv_def store_live_def start_db)
qed

lemma inv_at:
  assumes "client_inv c w" "cl_at c i = h"
  shows "handle_ok (db_c db) w h"
  using assms by (auto simp: client_inv_def cl_at_def list_all_length split: if_splits)

lemma inv_start: "client_inv \<lparr>cl_table = [], cl_lost = 0\<rparr> w0"
proof -
  have "accounted A A [] 0" for A :: "ptr set" unfolding accounted_def by (intro conjI exI [of _ "{}"]) auto
  then show ?thesis using start_ok start_live by (simp add: client_inv_def blocks_def store_live_def)
qed

text \<open>The ways a call changes memory.\<close>

lemma inv_same:
  assumes "client_inv c w" "c_ok w'" "c_heap w' = c_heap w"
  shows "client_inv c w'"
  using assms handles_frame [of "db_c db" w c w'] by (simp add: client_inv_def)

lemma inv_fresh:
  assumes "client_inv c w" "c_heap w p = None"
  shows "p \<notin> dom (c_heap w0)" "p \<notin> set (blocks c)" "p \<noteq> ro_c (s_ropt s)"
    "accounted (dom (c_heap w0)) (dom (c_heap w)) (blocks c) (cl_lost c)" "p \<notin> dom (c_heap w)"
proof -
  show acc: "accounted (dom (c_heap w0)) (dom (c_heap w)) (blocks c) (cl_lost c)" using assms(1) by (simp add: client_inv_def)
  show p: "p \<notin> dom (c_heap w)" using assms(2) by auto
  show "p \<notin> dom (c_heap w0)" "p \<notin> set (blocks c)" "p \<noteq> ro_c (s_ropt s)"
    using accounted_fresh [OF acc p] own_blocks(2) by auto
qed

lemma inv_alloc:
  assumes "client_inv c w" "c_ok w'" "c_heap w p = None" "c_heap w' = (c_heap w)(p \<mapsto> x)"
    and "list_all (handle_ok (db_c db) w') (cl_table c')"
    and "accounted (dom (c_heap w0)) (insert p (dom (c_heap w))) (blocks c') (cl_lost c')"
  shows "client_inv c' w'"
  using assms inv_fresh [OF assms(1,3)] by (auto simp: client_inv_def)

lemma fresh_handles:
  assumes "client_inv c w" "c_heap w p = None" "c_heap w' = (c_heap w)(p \<mapsto> x)"
  shows "list_all (handle_ok (db_c db) w') (cl_table c)"
proof (rule handles_frame [of _ w])
  show "list_all (handle_ok (db_c db) w) (cl_table c)" using assms(1) by (simp add: client_inv_def)
  show "c_heap w' q = c_heap w q" if "q \<in> set (blocks c)" for q
    using that inv_fresh(2) [OF assms(1,2)] assms(3) by auto
qed

lemma inv_add:
  assumes "client_inv c w" "c_ok w'" "c_heap w p = None" "c_heap w' = (c_heap w)(p \<mapsto> x)"
    and "owns h = [p]" "handle_ok (db_c db) w' h"
  shows "client_inv (cl_add h c) w'"
proof (rule inv_alloc [OF assms(1-4)])
  show "list_all (handle_ok (db_c db) w') (cl_table (cl_add h c))"
    using fresh_handles [OF assms(1,3,4)] assms(6) by (simp add: cl_add_def)
  show "accounted (dom (c_heap w0)) (insert p (dom (c_heap w))) (blocks (cl_add h c)) (cl_lost (cl_add h c))"
    using accounted_add [OF inv_fresh(4,5) [OF assms(1,3)]] assms(5) by (simp add: blocks_add) (simp add: cl_add_def)
qed

lemma inv_leak:
  assumes "client_inv c w" "c_ok w'" "c_heap w p = None" "c_heap w' = (c_heap w)(p \<mapsto> x)"
  shows "client_inv (cl_lose c) w'"
proof (rule inv_alloc [OF assms])
  show "list_all (handle_ok (db_c db) w') (cl_table (cl_lose c))"
    using fresh_handles [OF assms(1,3,4)] by (simp add: cl_lose_def)
  show "accounted (dom (c_heap w0)) (insert p (dom (c_heap w))) (blocks (cl_lose c)) (cl_lost (cl_lose c))"
    using accounted_leak [OF inv_fresh(4,5) [OF assms(1,3)]] by simp (simp add: cl_lose_def)
qed

lemma inv_owned:
  assumes "client_inv c w" "cl_at c i = h" "owns h = [p]"
  shows "p \<in> set (blocks c)" "p \<notin> dom (c_heap w0)" "p \<noteq> ro_c (s_ropt s)"
    "accounted (dom (c_heap w0)) (dom (c_heap w)) (blocks c) (cl_lost c)"
proof -
  have "h \<in> set (cl_table c)" using assms(2,3) by (auto simp: cl_at_def split: if_splits)
  then show "p \<in> set (blocks c)" using assms(3) by (force simp: blocks_def)
  moreover show "accounted (dom (c_heap w0)) (dom (c_heap w)) (blocks c) (cl_lost c)" using assms(1) by (simp add: client_inv_def)
  ultimately show "p \<notin> dom (c_heap w0)" "p \<noteq> ro_c (s_ropt s)" using accounted_own own_blocks(2) by blast+
qed

lemma inv_upd:
  assumes "client_inv c w" "c_ok w'" "c_heap w' = (c_heap w)(wb_c wb \<mapsto> Obj (WbObj b))" "cl_at c i = HBatch wb"
  shows "client_inv c w'"
proof -
  have wb: "\<exists>b. live_wb w wb b" using inv_at [OF assms(1,4)] by simp
  have "handle_ok (db_c db) w' h" if "handle_ok (db_c db) w h" for h
  proof (cases "wb_c wb \<in> set (owns h)")
    case True
    then show ?thesis using that wb assms(3) by (cases h) (auto simp: NewSlice_def split: if_splits)
  qed (use that assms(3) in \<open>auto intro: handle_frame [of _ w]\<close>)
  moreover have "dom (c_heap w') = dom (c_heap w)" using assms(3) wb by auto
  ultimately show ?thesis
    using assms(1-3) inv_owned [OF assms(1,4)] by (auto simp: client_inv_def list_all_iff)
qed

text \<open>A handle is closed: its block is freed, or lost.\<close>

lemma inv_drop:
  assumes "client_inv c w" "cl_at c i = h" "owns h = [p]" "owns h' = []" "handle_ok (db_c db) w' h'"
    and "\<And>q. q \<noteq> p \<Longrightarrow> c_heap w' q = c_heap w q"
  shows "list_all (handle_ok (db_c db) w') (cl_table (cl_put i h' c))"
    "accounted (dom (c_heap w0)) (dom (c_heap w) - {p}) (blocks (cl_put i h' c)) (cl_lost c)"
    "accounted (dom (c_heap w0)) (dom (c_heap w)) (blocks (cl_put i h' c)) (Suc (cl_lost c))"
proof -
  note own = inv_owned [OF assms(1-3)]
  have h: "h \<noteq> HClosed" using assms(3) by auto
  have dist: "distinct (blocks c)" using own(4) by (simp add: accounted_def)
  note put = blocks_put [OF assms(2) h dist assms(4), unfolded assms(3)]
  show "accounted (dom (c_heap w0)) (dom (c_heap w) - {p}) (blocks (cl_put i h' c)) (cl_lost c)"
    "accounted (dom (c_heap w0)) (dom (c_heap w)) (blocks (cl_put i h' c)) (Suc (cl_lost c))"
    using accounted_drop [OF own(4) put(1) _ own(1)] put(2) by simp_all
  show "list_all (handle_ok (db_c db) w') (cl_table (cl_put i h' c))"
    unfolding list_all_iff
  proof
    fix g assume g: "g \<in> set (cl_table (cl_put i h' c))"
    then have "g = h' \<or> handle_ok (db_c db) w g"
      using assms(1) set_update_subset_insert by (fastforce simp: client_inv_def list_all_iff cl_put_def)
    moreover have "p \<notin> set (owns g)" using g put(2) by (auto simp: blocks_def)
    ultimately show "handle_ok (db_c db) w' g"
      using assms(5,6) handle_frame [of "db_c db" w g w'] by metis
  qed
qed

lemma inv_free:
  assumes "client_inv c w" "cl_at c i = h" "owns h = [p]" "owns h' = []" "handle_ok (db_c db) w' h'"
    and "c_ok w'" "c_heap w' = (c_heap w)(p := None)"
  shows "client_inv (cl_put i h' c) w'"
proof -
  have "dom (c_heap w') = dom (c_heap w) - {p}" "cl_lost (cl_put i h' c) = cl_lost c"
    using assms(7) by (auto simp: cl_put_def)
  then show ?thesis
    using assms(1,6,7) inv_owned [OF assms(1-3)] inv_drop [OF assms(1-5)] by (auto simp: client_inv_def)
qed

lemma inv_lose:
  assumes "client_inv c w" "cl_at c i = h" "owns h = [p]" "c_ok w'" "c_heap w' = c_heap w"
  shows "client_inv (cl_lose (cl_put i HClosed c)) w'"
proof -
  have "cl_table (cl_lose (cl_put i HClosed c)) = cl_table (cl_put i HClosed c)"
    "cl_lost (cl_lose (cl_put i HClosed c)) = Suc (cl_lost c)" by (simp_all add: cl_lose_def cl_put_def)
  then show ?thesis
    using assms(1,4,5) inv_drop [OF assms(1-3), of HClosed w'] by (simp add: client_inv_def)
qed

text \<open>Neither the old nor the new handle owns a block.\<close>

lemma inv_retype:
  assumes "client_inv c w" "cl_at c i = h" "h \<noteq> HClosed" "owns h = []" "owns h' = []" "handle_ok (db_c db) w h'"
  shows "client_inv (cl_put i h' c) w"
proof -
  have acc: "accounted (dom (c_heap w0)) (dom (c_heap w)) (blocks c) (cl_lost c)" using assms(1) by (simp add: client_inv_def)
  then have dist: "distinct (blocks c)" by (simp add: accounted_def)
  have "accounted (dom (c_heap w0)) (dom (c_heap w)) (blocks (cl_put i h' c)) (cl_lost c)"
    using acc blocks_put [OF assms(2,3) dist assms(5)] assms(4) by (simp add: accounted_def)
  moreover have "handle_ok (db_c db) w g" if "g \<in> set ((cl_table c)[i := h'])" for g
    using that assms(1,6) set_update_subset_insert by (fastforce simp: client_inv_def list_all_iff)
  moreover have "cl_table (cl_put i h' c) = (cl_table c)[i := h']" "cl_lost (cl_put i h' c) = cl_lost c" by (simp_all add: cl_put_def)
  ultimately show ?thesis using assms(1) by (simp add: client_inv_def list_all_iff)
qed

subsection \<open>Every call keeps the invariant\<close>

lemma wp_same_call:
  assumes "client_inv c w" "wp m (\<lambda>_ w'. mem_same w w') w"
  shows "wp (andthen m (ret c)) client_inv w"
  unfolding wp_bnd wp_ret by (rule wp_mono [OF assms(2)]) (auto simp: mem_same_def intro: inv_same [OF assms(1)])

lemma get_call:
  assumes "client_inv c w"
  shows "wp (client_do R s (CGet k) c) client_inv w"
proof -
  obtain ro where live: "c_ok w" "live_db w db d" "live_ro w (s_ropt s) ro" using inv_live [OF assms] .
  have len: "length (snd (fst (db_Get R d ro k (eng w)))) < 2 ^ 63" using sizes by (simp add: engine_sizes_def)
  have null: "client_inv (cl_add (HSlice (NewSlice Null 0)) c) w'" if "client_inv c w'" for w'
    using that by (simp add: client_inv_def blocks_add NewSlice_def) (simp add: cl_add_def NewSlice_def)
  show ?thesis
    unfolding client_do.simps Store_Get_def with_db_def start_db option.case wp_bnd
    by (rule wp_mono [OF wp_DB_Get [OF live]])
      (use len in \<open>auto simp: get_outcome_def NewSlice_def mem_same_def split: prod.splits if_splits sum.splits
        intro: inv_same [OF assms] null [unfolded NewSlice_def] inv_add [OF assms]\<close>)
qed

lemma iter_same:
  assumes "c_ok w" "live_it w it i"
  shows "wp (iter_do R it ic) (\<lambda>_ w'. mem_same w w') w"
proof -
  have len: "length (fst (it_key R i e)) < 2 ^ 63" "length (fst (it_value R i e)) < 2 ^ 63" for e
    using sizes by (simp_all add: engine_sizes_def)
  have eng: "mem_same w (w\<lparr>eng := e\<rparr>)" for e using assms(1) by (auto intro: mem_same_frame)
  show ?thesis
    by (cases ic)
      (use assms len eng in \<open>auto simp: wp_Iterator_moves [OF assms] wp_Iterator_Valid [OF assms] wp_Iterator_Key [OF assms]
        wp_Iterator_Value [OF assms] slice_bytes_def wp_h_bytes_borrowed intro!: wp_mono [OF wp_ValidForPrefix [OF assms]]
          wp_mono [OF wp_Iterator_Err [OF assms]]\<close>)
qed

lemma store_calls:
  assumes "client_inv c w"
  shows "wp (client_do R s (CSetOne k v) c) client_inv w" "wp (client_do R s (CDelete k) c) client_inv w"
    "wp (client_do R s CMemtableSize c) client_inv w" "wp (client_do R s CIndexFilterblockSize c) client_inv w"
    "wp (client_do R s CGetStats c) client_inv w"
proof -
  obtain ro where live: "c_ok w" "live_db w db d" "live_wo w (s_wopt s) wo" using inv_live [OF assms] .
  note defs = Store_SetOne_def Store_Delete_def MemtableSize_def IndexFilterblockSize_def Store_GetStats_def DB_GetStats_def
    with_db_def start_db option.case wp_bnd wp_ret
  have "wp (Store_SetOne R s k v) (\<lambda>_ w'. mem_same w w') w" "wp (Store_Delete R s k) (\<lambda>_ w'. mem_same w w') w"
    unfolding defs by (rule wp_mono [OF wp_DB_Put [OF live]], simp) (rule wp_mono [OF wp_DB_Delete [OF live]], simp)
  moreover have "wp (MemtableSize R s) (\<lambda>_ w'. mem_same w w') w" "wp (IndexFilterblockSize R s) (\<lambda>_ w'. mem_same w w') w"
      "wp (Store_GetStats R s) (\<lambda>_ w'. mem_same w w') w"
    unfolding defs by (rule wp_mono [OF wp_DB_GetProperty [OF live(1,2)]], simp)+
  ultimately show "wp (client_do R s (CSetOne k v) c) client_inv w" "wp (client_do R s (CDelete k) c) client_inv w"
    "wp (client_do R s CMemtableSize c) client_inv w" "wp (client_do R s CIndexFilterblockSize c) client_inv w"
    "wp (client_do R s CGetStats c) client_inv w"
    unfolding client_do.simps by (auto simp only: intro: wp_same_call [OF assms])
qed

lemma slice_calls:
  assumes "client_inv c w"
  shows "wp (client_do R s (CData i) c) client_inv w" "wp (client_do R s (CFree i) c) client_inv w"
proof -
  have ok: "c_ok w" using assms by (simp add: client_inv_def)
  have sl: "sl_freed sl \<or> sl = NewSlice Null 0 \<or>
      (\<exists>p v. sl = NewSlice (CPtr p) (length v) \<and> length v < 2 ^ 63 \<and> c_heap w p = Some (Chars v))" if "cl_at c i = HSlice sl" for sl
    using inv_at [OF assms that] by simp
  have same: "client_inv (cl_put i (HSlice sl') c) w" if "cl_at c i = HSlice sl" "owns (HSlice sl) = []" "sl_freed sl'" for sl sl'
    using inv_retype [OF assms that(1), of "HSlice sl'"] that(2,3) by simp
  show "wp (client_do R s (CData i) c) client_inv w"
    using sl assms by (cases "cl_at c i") (auto simp: wp_h_bytes_block)
  show "wp (client_do R s (CFree i) c) client_inv w"
  proof (cases "cl_at c i")
    case (HSlice sl)
    then consider "sl_freed sl" | "sl = NewSlice Null 0" | p v where "sl = NewSlice (CPtr p) (length v)" "c_heap w p = Some (Chars v)"
      using sl by blast
    then show ?thesis
    proof cases
      case 3
      have "client_inv (cl_put i (HSlice sl') c) w'" if "sl_freed sl'" "c_ok w'" "w' = w\<lparr>c_heap := (c_heap w)(p := None)\<rparr>" for sl' w'
        by (rule inv_free [OF assms HSlice]) (use that 3 in \<open>auto simp: NewSlice_def\<close>)
      then show ?thesis using HSlice 3 by (auto intro!: wp_mono [OF wp_Slice_Free [OF ok 3(2)]])
    qed (use HSlice same in \<open>auto simp: Slice_Free_def NewSlice_def\<close>)
  qed (use assms in auto)
qed

lemma iter_calls:
  assumes "client_inv c w"
  shows "wp (client_do R s CNewIterator c) client_inv w" "wp (client_do R s (CIter i ic) c) client_inv w"
    "wp (client_do R s (CIterClose i) c) client_inv w"
proof -
  obtain ro where live: "c_ok w" "live_db w db d" using inv_live [OF assms] .
  show "wp (client_do R s (CIter i ic) c) client_inv w"
  proof (cases "cl_at c i")
    case (HIter it)
    then obtain j where "live_it w it j" using inv_at [OF assms] by fastforce
    then show ?thesis using wp_same_call [OF assms iter_same [OF live(1)]] HIter by simp
  qed (use assms in auto)
  show "wp (client_do R s (CIterClose i) c) client_inv w"
  proof (cases "cl_at c i")
    case (HIter it)
    then obtain j where "live_it w it j" using inv_at [OF assms] by fastforce
    then show ?thesis using HIter
      by (auto intro!: wp_mono [OF wp_Iterator_Close [OF live(1)]] inv_free [OF assms HIter])
  qed (use assms in auto)
  let ?q = "c_brk w" and ?ro = "(def_readoptions R)\<lparr>fill_cache := False\<rparr>"
  define w1 where "w1 = w\<lparr>c_heap := (c_heap w)(c_brk w \<mapsto> Obj (RoObj ?ro)), c_brk := Suc (c_brk w)\<rparr>"
  have q: "c_heap w ?q = None" "c_ok w1" "c_heap w1 = (c_heap w)(?q \<mapsto> Obj (RoObj ?ro))" using live(1) by (simp_all add: w1_def)
  note inv1 = inv_leak [OF assms q(2,1,3)]
  have l1: "live_db w1 db d" "live_ro w1 \<lparr>ro_c = ?q\<rparr> ?ro" using live(2) q(1,3) by auto
  have swap: "cl_lose (cl_add h c) = cl_add h (cl_lose c)" for h by (simp add: cl_add_def cl_lose_def)
  show "wp (client_do R s CNewIterator c) client_inv w"
    unfolding client_do.simps wp_bnd wp_ret swap wp_NewIterator_eq [OF live(1) start_db, where R = R, folded w1_def]
    by (intro wp_mono [OF wp_DB_NewIterator [OF q(2) l1]], elim conjE) (metis inv_add [OF inv1] owns.simps(2) handle_ok.simps(2) fun_upd_same)
qed

lemma batch_calls:
  assumes "client_inv c w"
  shows "wp (client_do R s CNewWriteBatch c) client_inv w" "wp (client_do R s (CPut i k v) c) client_inv w"
    "wp (client_do R s (CBatchDelete i k) c) client_inv w" "wp (client_do R s (CCount i) c) client_inv w"
    "wp (client_do R s (CClear i) c) client_inv w" "wp (client_do R s (CWriteBatch i) c) client_inv w"
    "wp (client_do R s (CBatchDestroy i) c) client_inv w"
proof -
  obtain ro where live: "c_ok w" "live_db w db d" "live_wo w (s_wopt s) wo" using inv_live [OF assms] .
  show "wp (client_do R s CNewWriteBatch c) client_inv w"
    by (auto simp: Store_NewWriteBatch_def intro!: wp_mono [OF wp_NewWriteBatch [OF live(1)]] inv_add [OF assms])
  have "wp (client_do R s (CPut i k v) c) client_inv w \<and>
    wp (client_do R s (CBatchDelete i k) c) client_inv w \<and> wp (client_do R s (CCount i) c) client_inv w \<and>
    wp (client_do R s (CClear i) c) client_inv w \<and> wp (client_do R s (CWriteBatch i) c) client_inv w \<and>
    wp (client_do R s (CBatchDestroy i) c) client_inv w"
  proof (cases "cl_at c i")
    case (HBatch wb)
    then obtain b where b: "live_wb w wb b" using inv_at [OF assms] by fastforce
    note upd = inv_upd [OF assms _ _ HBatch]
    have "wp (andthen (Store_WriteBatch R s wb) (ret c)) client_inv w"
      by (rule wp_same_call [OF assms])
        (unfold Store_WriteBatch_def with_db_def start_db option.case, rule wp_mono [OF wp_DB_Write [OF live b]], simp)
    then show ?thesis
      using HBatch assms
      by (auto intro!: wp_mono [OF wp_WriteBatch_Put [OF live(1) b]] wp_mono [OF wp_WriteBatch_Delete [OF live(1) b]]
          wp_mono [OF wp_WriteBatch_Count [OF live(1) b]] wp_mono [OF wp_WriteBatch_Clear [OF live(1) b]]
          wp_mono [OF wp_WriteBatch_Destroy [OF live(1) b]] inv_free [OF assms HBatch] intro: upd)
  qed (use assms in auto)
  then show "wp (client_do R s (CPut i k v) c) client_inv w"
    "wp (client_do R s (CBatchDelete i k) c) client_inv w" "wp (client_do R s (CCount i) c) client_inv w"
    "wp (client_do R s (CClear i) c) client_inv w" "wp (client_do R s (CWriteBatch i) c) client_inv w"
    "wp (client_do R s (CBatchDestroy i) c) client_inv w" by blast+
qed

lemma snapshot_calls:
  assumes "client_inv c w"
  shows "wp (client_do R s CNewSnapshot c) client_inv w" "wp (client_do R s (CSetSnapshot oi) c) client_inv w"
    "wp (client_do R s (CRelease i) c) client_inv w"
proof -
  obtain ro where live: "c_ok w" "live_db w db d" "live_ro w (s_ropt s) ro" "store_live w s d ro wo" using inv_live [OF assms] .
  show "wp (client_do R s CNewSnapshot c) client_inv w"
    by (auto simp: Store_NewSnapshot_def with_db_def start_db intro!: wp_mono [OF wp_DB_NewSnapshot [OF live(1,2)]] inv_add [OF assms])
  have ro: "client_inv c w'" if "c_ok w'" "c_heap w' = (c_heap w)(ro_c (s_ropt s) \<mapsto> Obj (RoObj r))" for w' r
  proof -
    have "ro_c (s_ropt s) \<notin> set (blocks c)" "list_all (handle_ok (db_c db) w) (cl_table c)"
      using assms own_blocks(2) accounted_own unfolding client_inv_def by blast+
    moreover from this(1) have "c_heap w' p = c_heap w p" if "p \<in> set (blocks c)" for p
      using that \<open>c_heap w' = _\<close> by auto
    ultimately have "list_all (handle_ok (db_c db) w') (cl_table c)" using handles_frame [of "db_c db" w] by blast
    moreover have "dom (c_heap w') = dom (c_heap w)" using that(2) live(3) by auto
    ultimately show ?thesis using assms that by (auto simp: client_inv_def)
  qed
  have set: "wp (andthen (Store_SetSnapshot s sn) (ret c)) client_inv w"
    if "case sn of None \<Rightarrow> x = 0 | Some t \<Rightarrow> c_heap w (sn_c t) = Some (Obj (SnapObj x))" for sn x
    unfolding wp_bnd wp_ret by (rule wp_mono [OF wp_Store_SetSnapshot [OF live(1,4) that]]) (auto intro: ro)
  show "wp (client_do R s (CSetSnapshot oi) c) client_inv w"
  proof (cases oi)
    case (Some i)
    show ?thesis
    proof (cases "cl_at c i")
      case (HSnap sn)
      then obtain x where "c_heap w (sn_c sn) = Some (Obj (SnapObj x))" using inv_at [OF assms] by fastforce
      then show ?thesis using set [where sn = "Some sn" and x = x] HSnap Some by simp
    qed (use Some assms in auto)
  qed (use set [where sn = None and x = 0] in simp)
  show "wp (client_do R s (CRelease i) c) client_inv w"
  proof (cases "cl_at c i")
    case (HSnap sn)
    then obtain x where x: "sn_cDb sn = db_c db" "c_heap w (sn_c sn) = Some (Obj (SnapObj x))" using inv_at [OF assms] by fastforce
    then show ?thesis using HSnap live(2)
      by (auto intro!: wp_mono [OF wp_Snapshot_Release [OF live(1) _ x(2)]] inv_free [OF assms HSnap])
  qed (use assms in auto)
qed

lemma checkpoint_calls:
  assumes "client_inv c w"
  shows "wp (client_do R s CNewCheckpoint c) client_inv w" "wp (client_do R s (CSave i dir) c) client_inv w"
    "wp (client_do R s (CCheckpointDestroy i) c) client_inv w"
proof -
  obtain ro where live: "c_ok w" "live_db w db d" using inv_live [OF assms] .
  show "wp (client_do R s CNewCheckpoint c) client_inv w"
    unfolding client_do.simps Store_NewCheckpoint_def with_db_def start_db option.case wp_bnd
    by (rule wp_mono [OF wp_DB_NewCheckpoint [OF live(1,2)]])
      (auto simp: mem_same_def split: prod.splits if_splits intro!: inv_add [OF assms] intro: inv_same [OF assms])
  have "wp (client_do R s (CSave i dir) c) client_inv w \<and> wp (client_do R s (CCheckpointDestroy i) c) client_inv w"
  proof (cases "cl_at c i")
    case (HCheck cp)
    then obtain x where x: "c_heap w (cp_c cp) = Some (Obj (ChkObj x))" using inv_at [OF assms] by fastforce
    have "wp (andthen (Checkpoint_Save R cp dir) (ret c)) client_inv w"
      by (rule wp_same_call [OF assms], rule wp_mono [OF wp_Checkpoint_Save [OF live(1) x]]) simp
    then show ?thesis using HCheck
      by (auto simp: mem_same_def intro!: wp_mono [OF wp_Checkpoint_Destroy [OF live(1) x]] inv_lose [OF assms HCheck])
  qed (use assms in auto)
  then show "wp (client_do R s (CSave i dir) c) client_inv w" "wp (client_do R s (CCheckpointDestroy i) c) client_inv w" by blast+
qed

lemma client_step:
  assumes "client_inv c w"
  shows "wp (client_do R s a c) client_inv w"
  by (cases a) (use get_call [OF assms] store_calls [OF assms] slice_calls [OF assms] iter_calls [OF assms]
      batch_calls [OF assms] snapshot_calls [OF assms] checkpoint_calls [OF assms] in \<open>simp_all del: client_do.simps\<close>)

lemma client_runs:
  assumes "client_inv c w"
  shows "wp (client_run R s as c) client_inv w"
  using assms
proof (induction as arbitrary: c w)
  case (Cons a as)
  then show ?case by (auto intro: wp_mono [OF client_step])
qed simp

lemma client_result:
  "wp (client_run R s as \<lparr>cl_table = [], cl_lost = 0\<rparr>) (\<lambda>c w. c_ok w \<and> (\<exists>ro. store_live w s d ro wo) \<and>
      (\<forall>h \<in> set (cl_table c). handle_ok (db_c db) w h) \<and>
      (\<forall>p \<in> dom (c_heap w0). p \<noteq> ro_c (s_ropt s) \<longrightarrow> c_heap w p = c_heap w0 p) \<and>
      card (dom (c_heap w) - dom (c_heap w0)) = length (blocks c) + cl_lost c \<and>
      wp (Store_Close R s) (\<lambda>_ w'. c_ok w' \<and> c_heap w' = (c_heap w)(db_c db := None)) w) w0"
proof (rule wp_mono [OF client_runs [OF inv_start]])
  fix c w
  assume c: "client_inv c w"
  obtain ro where live: "c_ok w" "live_db w db d" "store_live w s d ro wo" using inv_live [OF c] .
  have "wp (Store_Close R s) (\<lambda>_ w'. c_ok w' \<and> c_heap w' = (c_heap w)(db_c db := None)) w"
    unfolding Store_Close_def with_db_def start_db option.case by (rule wp_mono [OF wp_DB_Close [OF live(1,2)]]) simp
  then show "c_ok w \<and> (\<exists>ro. store_live w s d ro wo) \<and> (\<forall>h \<in> set (cl_table c). handle_ok (db_c db) w h) \<and>
      (\<forall>p \<in> dom (c_heap w0). p \<noteq> ro_c (s_ropt s) \<longrightarrow> c_heap w p = c_heap w0 p) \<and>
      card (dom (c_heap w) - dom (c_heap w0)) = length (blocks c) + cl_lost c \<and>
      wp (Store_Close R s) (\<lambda>_ w'. c_ok w' \<and> c_heap w' = (c_heap w)(db_c db := None)) w"
    using c live accounted_card by (auto simp: client_inv_def list_all_iff)
qed

end

text \<open>The reference engine with what it returns cut to 64 bytes.\<close>

definition short_rocksdb :: "((bytes \<times> bytes option) list, table_options, engine_state) rocksdb" where
  "short_rocksdb = ref_rocksdb\<lparr>
     db_Get := (\<lambda>d opt k e. case db_Get ref_rocksdb d opt k e of ((st, v), e') \<Rightarrow> ((st, take 64 v), e')),
     it_key := (\<lambda>i e. case it_key ref_rocksdb i e of (k, e') \<Rightarrow> (take 64 k, e')),
     it_value := (\<lambda>i e. case it_value ref_rocksdb i e of (v, e') \<Rightarrow> (take 64 v, e'))\<rparr>"

lemma short_sizes: "engine_sizes short_rocksdb"
  by (auto simp: engine_sizes_def short_rocksdb_def split: prod.splits)

interpretation short: client_store short_rocksdb store_one 1 "def_readoptions ref_rocksdb" "\<lparr>sync = False\<rparr>" "world_open True"
  "\<lparr>db_c = 1, db_name = ''db'', db_opts = \<lparr>op_c = 2, op_bbto = 0\<rparr>\<rparr>"
  by unfold_locales (rule short_sizes, rule c_ok_world_open, rule store_one_live, simp add: store_one_def)

section \<open>Properties\<close>


text \<open>A slice read and freed twice, an iterator, a batch, a snapshot and a checkpoint.\<close>

definition some_calls :: "client_call list" where
  "some_calls = [CGet ''k'', CData 0, CFree 0, CFree 0, CNewIterator, CIter 1 ISeekToFirst, CIter 1 IKey,
     CNewWriteBatch, CPut 2 ''a'' ''b'', CWriteBatch 2, CBatchDestroy 2, CNewSnapshot, CSetSnapshot (Some 3), CGet ''a'',
     CNewCheckpoint, CSave 5 ''cp'', CCheckpointDestroy 5, CIterClose 1]"


text \<open>
  C24. Close frees the database object but leaves the pointer to it in the store: a later Get,
  SetOne, Delete, NewSnapshot, NewCheckpoint or second Close uses freed memory.
\<close>

theorem use_after_close:
  assumes "c_ok w" and "store_live w s d ro wo" and "Store_Close R s w = Inr (u, w')"
  shows "Store_Get R s k w' = Inl BadPtr \<and> Store_SetOne R s k v w' = Inl BadPtr \<and> Store_Delete R s k w' = Inl BadPtr \<and>
    Store_NewSnapshot R s w' = Inl BadPtr \<and> Store_NewCheckpoint R s w' = Inl BadPtr \<and>
    Store_Close R s w' = Inl BadPtr"
proof -
  obtain db where db: "s_db s = Some db" "live_db w db d" using assms(2) by (elim store_liveE)
  have "wp (Store_Close R s) (\<lambda>_ w'. c_heap w' = (c_heap w)(db_c db := None)) w"
    unfolding Store_Close_def with_db_def db(1) option.case by (rule wp_mono [OF wp_DB_Close [OF assms(1) db(2)]]) simp
  then have gone: "c_heap w' (db_c db) = None" "0 < db_c db"
    using assms(3) live_nonnull [OF assms(1) db(2)] by (simp_all add: wp_def)
  then have "get_db (db_c db) w' = Inl BadPtr" by (simp add: get_db_def c_get_def bnd_def)
  note bad = bnd_Inl [where m = "get_db (db_c db)" and s = w', OF this]
  show ?thesis
    by (simp add: Store_Get_def DB_Get_def rdb_get_def Store_SetOne_def DB_Put_def rdb_put_def Store_Delete_def DB_Delete_def
        rdb_delete_def Store_NewSnapshot_def DB_NewSnapshot_def rdb_create_snapshot_def Store_NewCheckpoint_def
        DB_NewCheckpoint_def rdb_create_checkpoint_def Store_Close_def DB_Close_def rdb_close_def with_db_def db(1) bnd_assoc bad)
qed

theorem use_after_close_witness:
  "\<exists>w'. Store_Close ref_rocksdb store_one (world_open True) = Inr ((), w') \<and>
     Store_Get ref_rocksdb store_one ''k'' w' = Inl BadPtr \<and> Store_Close ref_rocksdb store_one w' = Inl BadPtr"
proof -
  have "wp (Store_Close ref_rocksdb store_one) (\<lambda>_ _. True) (world_open True)"
    unfolding Store_Close_def with_db_def short.start_db option.case
    by (rule wp_mono [OF wp_DB_Close [OF c_ok_world_open, of True _ 1]]) (simp_all add: world_open_def)
  then obtain w' where "Store_Close ref_rocksdb store_one (world_open True) = Inr ((), w')" by (auto elim: wpE)
  with use_after_close [OF c_ok_world_open store_one_live this] show ?thesis by blast
qed

end
