(* ===== verification/Rand.thy ===== *)
theory Rand
  imports Prelude
begin

unbundle bit_operations_syntax

text \<open>
  The calls of Go's \<open>math/rand\<close> that the benchmarks make. The source is a sequence of
  numbers, of which each draw uses the low 63 bits; the position is part of the state.
  \<open>Intn\<close> and \<open>Int63n\<close> reject draws that would bias the result, a loop the model bounds
  with \<open>fuel\<close>; under \<open>fair\<close> (among any \<open>fuel\<close> draws one is in the lower half) it
  never runs out.
\<close>

record rng =
  rg_src :: "nat \<Rightarrow> nat"
  rg_pos :: nat
  rg_val :: nat
  rg_left :: nat

definition Int63 :: "(rng, int) io" where
  "Int63 = (\<lambda>g. Inr (int (rg_src g (rg_pos g) mod 2 ^ 63), g\<lparr>rg_pos := Suc (rg_pos g)\<rparr>))"

definition Int31 :: "(rng, int) io" where
  "Int31 = bnd Int63 (\<lambda>v. ret (v div 2 ^ 32))"

definition rand_Int :: "(rng, int) io" where
  "rand_Int = Int63"

fun draw_le :: "nat \<Rightarrow> (rng, int) io \<Rightarrow> int \<Rightarrow> (rng, int) io" where
  "draw_le 0 draw m = fail OutOfFuel"
| "draw_le (Suc n) draw m = bnd draw (\<lambda>v. if v > m then draw_le n draw m else ret v)"

definition Int31n :: "nat \<Rightarrow> int \<Rightarrow> (rng, int) io" where
  "Int31n fuel n =
     (if n \<le> 0 then fail (Panic ''invalid argument to Int31n'')
      else if n AND (n - 1) = 0 then bnd Int31 (\<lambda>v. ret (v AND (n - 1)))
      else bnd (draw_le fuel Int31 (2 ^ 31 - 1 - 2 ^ 31 mod n)) (\<lambda>v. ret (v mod n)))"

definition Int63n :: "nat \<Rightarrow> int \<Rightarrow> (rng, int) io" where
  "Int63n fuel n =
     (if n \<le> 0 then fail (Panic ''invalid argument to Int63n'')
      else if n AND (n - 1) = 0 then bnd Int63 (\<lambda>v. ret (v AND (n - 1)))
      else bnd (draw_le fuel Int63 (2 ^ 63 - 1 - 2 ^ 63 mod n)) (\<lambda>v. ret (v mod n)))"

definition Intn :: "nat \<Rightarrow> int \<Rightarrow> (rng, int) io" where
  "Intn fuel n =
     (if n \<le> 0 then fail (Panic ''invalid argument to Intn'')
      else if n \<le> 2 ^ 31 - 1 then Int31n fuel n else Int63n fuel n)"

text \<open>\<open>rand.Read\<close>: seven bytes of each draw, low byte first; a rest is kept for the next call.\<close>

definition rand_refill :: "(rng, unit) io" where
  "rand_refill = (\<lambda>g. if rg_left g = 0
     then bnd Int63 (\<lambda>v g'. Inr ((), g'\<lparr>rg_val := nat v, rg_left := 7\<rparr>)) g
     else Inr ((), g))"

definition rand_byte :: "(rng, byte) io" where
  "rand_byte = andthen rand_refill (\<lambda>g. Inr (char_of (rg_val g mod 256),
     g\<lparr>rg_val := rg_val g div 256, rg_left := rg_left g - 1\<rparr>))"

fun rand_Read :: "nat \<Rightarrow> (rng, bytes) io" where
  "rand_Read 0 = ret []"
| "rand_Read (Suc n) = bnd rand_byte (\<lambda>b. bnd (rand_Read n) (\<lambda>bs. ret (b # bs)))"

section \<open>Ranges and termination\<close>

text \<open>\<open>same_src\<close>: only the position and the rest of \<open>rand.Read\<close> have changed.\<close>

definition same_src :: "rng \<Rightarrow> rng \<Rightarrow> bool" where
  "same_src g g' \<longleftrightarrow> rg_src g' = rg_src g"

definition fair :: "nat \<Rightarrow> rng \<Rightarrow> bool" where
  "fair fuel g \<longleftrightarrow> (\<forall>p. \<exists>i < fuel. rg_src g (p + i) mod 2 ^ 63 < 2 ^ 62)"

lemma same_src_refl [simp]: "same_src g g"
  by (simp add: same_src_def)

lemma same_src_trans: "same_src g g1 \<Longrightarrow> same_src g1 g2 \<Longrightarrow> same_src g g2"
  by (simp add: same_src_def)

lemma same_src_fair: "same_src g g' \<Longrightarrow> fair fuel g' = fair fuel g"
  by (simp add: same_src_def fair_def)

lemma wp_Int63: "wp Int63 Q g = Q (int (rg_src g (rg_pos g) mod 2 ^ 63)) (g\<lparr>rg_pos := Suc (rg_pos g)\<rparr>)"
  by (simp add: Int63_def wp_def)

lemma Int63_range: "wp Int63 (\<lambda>v g'. 0 \<le> v \<and> v < 2 ^ 63 \<and> same_src g g') g"
  by (simp add: wp_Int63 same_src_def)

lemma Int31_range: "wp Int31 (\<lambda>v g'. 0 \<le> v \<and> v < 2 ^ 31 \<and> same_src g g') g"
  unfolding Int31_def wp_bnd wp_ret by (rule wp_mono [OF Int63_range]) auto

text \<open>The rejection bound is at least half of the range, whatever \<open>n\<close>.\<close>

lemma reject_bound:
  fixes n :: int
  assumes "0 < n" "n \<le> 2 * h" "0 < h"
  shows "h \<le> 2 * h - 1 - (2 * h) mod n"
proof (cases "n \<le> h")
  case True
  have "(2 * h) mod n < n" using assms(1) by simp
  with True show ?thesis by linarith
next
  case False
  have "(2 * h) mod n = (2 * h - n) mod n" by simp
  also have "\<dots> = 2 * h - n" using False assms by (intro mod_pos_pos_trivial) linarith+
  finally show ?thesis using False by linarith
qed

text \<open>Drawing until the bound is met: the loop ends at the first acceptable draw.\<close>

lemma draw_le_ends:
  assumes draw: "\<And>g. wp draw (\<lambda>v g'. v = f (rg_src g (rg_pos g)) \<and> 0 \<le> v \<and> rg_pos g' = Suc (rg_pos g) \<and>
      same_src g g') g"
    and "\<exists>i < fuel. f (rg_src g (rg_pos g + i)) \<le> m"
  shows "wp (draw_le fuel draw m) (\<lambda>v g'. 0 \<le> v \<and> v \<le> m \<and> same_src g g') g"
  using assms(2)
proof (induction fuel arbitrary: g)
  case (Suc n)
  show ?case
    unfolding draw_le.simps
  proof (rule wp_seq [OF draw [of g]], elim conjE)
    fix v g'
    assume v: "v = f (rg_src g (rg_pos g))" "0 \<le> v" "rg_pos g' = Suc (rg_pos g)" "same_src g g'"
    show "wp (if v > m then draw_le n draw m else ret v) (\<lambda>v g'. 0 \<le> v \<and> v \<le> m \<and> same_src g g') g'"
    proof (cases "v > m")
      case True
      obtain i where i: "i < Suc n" "f (rg_src g (rg_pos g + i)) \<le> m" using Suc.prems by blast
      then obtain j where "i = Suc j" "j < n" using True v(1) by (cases i) auto
      then have "\<exists>i < n. f (rg_src g' (rg_pos g' + i)) \<le> m"
        using i(2) v(3,4) by (auto simp: same_src_def)
      with True show ?thesis
        by (auto intro!: wp_mono [OF Suc.IH] intro: same_src_trans [OF v(4)])
    qed (use v in auto)
  qed
qed simp

lemma mod_and_range:
  fixes n v :: int
  assumes "0 < n"
  shows "0 \<le> v mod n \<and> v mod n < n" "0 \<le> v AND (n - 1) \<and> v AND (n - 1) < n"
  using assms AND_upper2 [of "n - 1" v] by (auto intro: order.strict_trans1)

lemma Int63n_range:
  assumes "fair fuel g" "0 < n" "n < 2 ^ 63"
  shows "wp (Int63n fuel n) (\<lambda>v g'. 0 \<le> v \<and> v < n \<and> same_src g g') g"
proof -
  have bound: "2 ^ 62 \<le> 2 ^ 63 - 1 - (2 ^ 63 :: int) mod n"
    using reject_bound [of n "2 ^ 62"] assms by simp
  obtain i where "i < fuel" "rg_src g (rg_pos g + i) mod 2 ^ 63 < 2 ^ 62"
    using assms(1) by (auto simp: fair_def)
  then have ex: "\<exists>i < fuel. int (rg_src g (rg_pos g + i) mod 2 ^ 63) \<le> 2 ^ 63 - 1 - 2 ^ 63 mod n"
    using bound by (intro exI [of _ i]) auto
  have draw: "wp Int63 (\<lambda>v g'. v = int (rg_src g (rg_pos g) mod 2 ^ 63) \<and> 0 \<le> v \<and>
      rg_pos g' = Suc (rg_pos g) \<and> same_src g g') g" for g
    by (simp add: wp_Int63 same_src_def)
  show ?thesis
    using assms(2) mod_and_range [OF assms(2)]
    by (auto simp: Int63n_def intro!: wp_mono [OF Int63_range] wp_mono [OF draw_le_ends [OF draw ex, simplified]])
qed

lemma Int31n_range:
  assumes "fair fuel g" "0 < n" "n < 2 ^ 31"
  shows "wp (Int31n fuel n) (\<lambda>v g'. 0 \<le> v \<and> v < n \<and> same_src g g') g"
proof -
  have bound: "2 ^ 30 \<le> 2 ^ 31 - 1 - (2 ^ 31 :: int) mod n"
    using reject_bound [of n "2 ^ 30"] assms by simp
  obtain i where i: "i < fuel" "rg_src g (rg_pos g + i) mod 2 ^ 63 < 2 ^ 62"
    using assms(1) by (auto simp: fair_def)
  then have "int (rg_src g (rg_pos g + i) mod 2 ^ 63) div 2 ^ 32 \<le> 2 ^ 30"
    by (auto simp: zdiv_int [symmetric])
  with i(1) bound have ex:
    "\<exists>i < fuel. int (rg_src g (rg_pos g + i) mod 2 ^ 63) div 2 ^ 32 \<le> 2 ^ 31 - 1 - 2 ^ 31 mod n"
    by (intro exI [of _ i]) auto
  have draw: "wp Int31 (\<lambda>v g'. v = int (rg_src g (rg_pos g) mod 2 ^ 63) div 2 ^ 32 \<and> 0 \<le> v \<and>
      rg_pos g' = Suc (rg_pos g) \<and> same_src g g') g" for g
    by (simp add: Int31_def wp_Int63 same_src_def)
  show ?thesis
    using assms(2) mod_and_range [OF assms(2)]
    by (auto simp: Int31n_def intro!: wp_mono [OF Int31_range] wp_mono [OF draw_le_ends [OF draw ex, simplified]])
qed

lemma Intn_range:
  assumes "fair fuel g" "0 < n" "n < 2 ^ 63"
  shows "wp (Intn fuel n) (\<lambda>v g'. 0 \<le> v \<and> v < n \<and> same_src g g') g"
  using assms Int31n_range [OF assms(1,2)] Int63n_range [OF assms] by (auto simp: Intn_def)

lemma rand_byte_src: "wp rand_byte (\<lambda>_ g'. same_src g g') g"
  by (simp add: rand_byte_def rand_refill_def wp_def bnd_def Int63_def same_src_def)

lemma rand_Read_length: "wp (rand_Read n) (\<lambda>bs g'. length bs = n \<and> same_src g g') g"
proof (induction n arbitrary: g)
  case (Suc n)
  have "wp (rand_Read n) (\<lambda>bs. wp (ret (b # bs)) (\<lambda>bs g'. length bs = Suc n \<and> same_src g g')) g1"
    if "same_src g g1" for b g1
    by (rule wp_mono [OF Suc.IH]) (auto intro: same_src_trans [OF that])
  then show ?case by (auto intro!: wp_mono [OF rand_byte_src])
qed simp

end
