(* ===== verification/Float64.thy ===== *)
theory Float64
  imports Prelude "HOL-Library.Log_Nat"
begin

text \<open>
  Go's \<open>float64\<close> arithmetic as the benchmarks use it. A float is the rational it stands
  for; every operation is exact arithmetic followed by \<open>f64\<close>, rounding to 53 significant
  bits, ties to even. The exponent is unbounded here, so infinities, NaN and subnormal
  numbers do not occur.
\<close>

section \<open>Rounding\<close>

definition ilog2 :: "rat \<Rightarrow> int" where
  "ilog2 x = (case quotient_of x of (p, q) \<Rightarrow>
     let c = int (floorlog 2 (nat p)) - int (floorlog 2 (nat q)) in
     if 2 powi c \<le> x then c else c - 1)"

definition round_even :: "rat \<Rightarrow> int" where
  "round_even x = (let r = \<lfloor>x\<rfloor>; d = x - of_int r in
     if d < 1 / 2 then r else if d > 1 / 2 then r + 1 else if even r then r else r + 1)"

definition f64 :: "rat \<Rightarrow> rat" where
  "f64 x = (if x = 0 then 0
     else let e = ilog2 \<bar>x\<bar> - 52 in of_int (round_even (x / 2 powi e)) * 2 powi e)"

text \<open>Conversions: \<open>float64(n)\<close>, and \<open>int64(x)\<close> which truncates towards zero.\<close>

definition float_of_int :: "int \<Rightarrow> rat" where
  "float_of_int n = f64 (of_int n)"

definition trunc :: "rat \<Rightarrow> int" where
  "trunc x = (if x < 0 then - \<lfloor>- x\<rfloor> else \<lfloor>x\<rfloor>)"

section \<open>Rounding is exact on 53-bit values\<close>

lemma round_even_int [simp]: "round_even (of_int n) = n"
  by (simp add: round_even_def)

lemma round_even_near: "\<bar>of_int (round_even x) - x\<bar> \<le> 1 / 2"
proof -
  have "of_int \<lfloor>x\<rfloor> \<le> x" "x < of_int \<lfloor>x\<rfloor> + 1" using floor_correct [of x] by simp_all
  then show ?thesis by (auto simp: round_even_def Let_def)
qed

lemma round_even_bound:
  assumes "\<bar>x\<bar> < of_int n"
  shows "\<bar>round_even x\<bar> \<le> n"
proof -
  have "\<bar>of_int (round_even x)\<bar> < of_int n + (1 :: rat)"
    using round_even_near [of x] assms by linarith
  then have "of_int \<bar>round_even x\<bar> < (of_int (n + 1) :: rat)" by simp
  then show ?thesis by linarith
qed

lemma floorlog_int:
  fixes p :: int
  assumes "0 < p"
  shows "2 ^ (floorlog 2 (nat p) - 1) \<le> p" "p < 2 ^ floorlog 2 (nat p)" "0 < floorlog 2 (nat p)"
proof -
  have b: "2 ^ (floorlog 2 (nat p) - 1) \<le> nat p" "nat p < 2 ^ floorlog 2 (nat p)"
    using floorlog_bounds [of "nat p" 2] assms by auto
  show "2 ^ (floorlog 2 (nat p) - 1) \<le> p"
    using b(1) assms by (metis int_nat_eq of_nat_le_iff of_nat_numeral of_nat_power order_less_imp_le)
  show "p < 2 ^ floorlog 2 (nat p)"
    using b(2) assms by (metis int_nat_eq of_nat_less_iff of_nat_numeral of_nat_power order_less_imp_le)
  show "0 < floorlog 2 (nat p)"
    using assms by (simp add: floorlog_def)
qed

lemma ilog2_bounds:
  assumes "0 < x"
  shows "2 powi ilog2 x \<le> x" and "x < 2 powi (ilog2 x + 1)"
proof -
  obtain p q where pq: "quotient_of x = (p, q)" by (cases "quotient_of x")
  then have q: "0 < q" and x: "x = of_int p / of_int q"
    by (simp_all add: quotient_of_denom_pos quotient_of_div)
  with assms have p: "0 < p" by (simp add: zero_less_divide_iff)
  let ?a = "floorlog 2 (nat p)" and ?b = "floorlog 2 (nat q)"
  have pos: "0 < ?a" "0 < ?b" using floorlog_int(3) p q by simp_all
  have "2 ^ (?a - 1) \<le> p" "p < 2 ^ ?a" "2 ^ (?b - 1) \<le> q" "q < 2 ^ ?b"
    using floorlog_int(1,2) p q by simp_all
  then have b: "(2 ^ (?a - 1) :: rat) \<le> of_int p" "(of_int p :: rat) < 2 ^ ?a"
      "(2 ^ (?b - 1) :: rat) \<le> of_int q" "(of_int q :: rat) < 2 ^ ?b"
    by (metis of_int_le_iff of_int_less_iff of_int_numeral of_int_power)+
  let ?c = "int ?a - int ?b"
  have pow: "(2 :: rat) powi ?c = 2 ^ ?a / 2 ^ ?b" by (simp add: power_int_diff)
  have up: "x < 2 powi (?c + 1)"
  proof -
    have "x < 2 ^ ?a / of_int q" using b(2) q by (simp add: x divide_strict_right_mono)
    also have "\<dots> \<le> 2 ^ ?a / 2 ^ (?b - 1)" using b(3) by (intro divide_left_mono) (use q in auto)
    also have "\<dots> = 2 powi (?c + 1)" using pos
      by (simp add: power_int_add pow power_diff)
    finally show ?thesis .
  qed
  have lo: "2 powi (?c - 1) \<le> x"
  proof -
    have "2 powi (?c - 1) = 2 ^ (?a - 1) / (2 ^ ?b :: rat)" using pos
      by (simp add: power_int_diff pow power_diff)
    also have "\<dots> \<le> of_int p / 2 ^ ?b" using b(1) by (simp add: divide_right_mono)
    also have "\<dots> \<le> x" unfolding x using b(4) p q by (intro divide_left_mono) auto
    finally show ?thesis .
  qed
  show "2 powi ilog2 x \<le> x" and "x < 2 powi (ilog2 x + 1)"
    using up lo by (auto simp: ilog2_def pq Let_def)
qed

lemma ilog2_less:
  assumes "0 < x" "x < 2 powi n"
  shows "ilog2 x < n"
proof (rule ccontr)
  assume "\<not> ilog2 x < n"
  then have "(2 :: rat) powi n \<le> 2 powi ilog2 x" by (intro power_int_increasing) auto
  with ilog2_bounds(1) [OF assms(1)] assms(2) show False by linarith
qed

lemma ilog2_le:
  assumes "0 < x" "2 powi n \<le> x"
  shows "n \<le> ilog2 x"
proof (rule ccontr)
  assume "\<not> n \<le> ilog2 x"
  then have "(2 :: rat) powi (ilog2 x + 1) \<le> 2 powi n" by (intro power_int_increasing) auto
  with ilog2_bounds(2) [OF assms(1)] assms(2) show False by linarith
qed

lemma ilog2_eq: "2 powi n \<le> x \<Longrightarrow> x < 2 powi (n + 1) \<Longrightarrow> ilog2 x = n"
  by (meson antisym ilog2_le ilog2_less less_le_trans zero_less_power_int zero_less_numeral zless_add1_eq
      order.strict_iff_order zle_add1_eq_le)

lemma f64_zero [simp]: "f64 0 = 0"
  by (simp add: f64_def)

lemma f64_exact:
  assumes "\<bar>m\<bar> \<le> 2 ^ 53"
  shows "f64 (of_int m * 2 powi e) = of_int m * 2 powi e"
proof (cases "m = 0")
  case False
  let ?y = "of_int m * 2 powi e :: rat"
  let ?e = "ilog2 \<bar>?y\<bar> - 52"
  have y: "\<bar>?y\<bar> = of_int \<bar>m\<bar> * 2 powi e" "0 < \<bar>?y\<bar>" using False by (simp_all add: abs_mult)
  have "\<exists>n. ?y / 2 powi ?e = of_int n"
  proof (cases "\<bar>m\<bar> = 2 ^ 53")
    case True
    then have "\<bar>?y\<bar> = 2 powi (53 + e)" by (simp add: y(1) power_int_add)
    then have e: "?e = e + 1" using ilog2_eq [of "53 + e" "\<bar>?y\<bar>"] by (simp add: power_int_add)
    have "m = 2 ^ 53 \<or> m = - (2 ^ 53)" using True by linarith
    then have "m = 2 * (m div 2)" by auto
    then have "?y / 2 powi ?e = of_int (m div 2)"
      unfolding e by (simp add: power_int_add)
    then show ?thesis by blast
  next
    case less: False
    with assms have "\<bar>m\<bar> < 2 ^ 53" by linarith
    then have "of_int \<bar>m\<bar> < (2 ^ 53 :: rat)" by (metis of_int_less_iff of_int_numeral of_int_power)
    then have "\<bar>?y\<bar> < 2 powi (53 + e)" unfolding y(1) by (simp add: power_int_add)
    then have "?e \<le> e" using ilog2_less [OF y(2)] by fastforce
    then have "?y / 2 powi ?e = of_int m * 2 powi (e - ?e)" by (simp add: power_int_diff)
    also have "\<dots> = of_int (m * 2 ^ nat (e - ?e))" using \<open>?e \<le> e\<close> by (simp add: power_int_def)
    finally show ?thesis by blast
  qed
  then obtain n where "?y / 2 powi ?e = of_int n" by blast
  moreover from this have "?y = of_int n * 2 powi ?e" by (simp add: field_simps)
  ultimately show ?thesis using False by (simp add: f64_def Let_def)
qed simp

lemma f64_int [simp]: "\<bar>n\<bar> \<le> 2 ^ 53 \<Longrightarrow> f64 (of_int n) = of_int n"
  using f64_exact [of n 0] by simp

lemma f64_form: "\<exists>m e. \<bar>m\<bar> \<le> 2 ^ 53 \<and> f64 x = of_int m * 2 powi e"
proof (cases "x = 0")
  case False
  let ?e = "ilog2 \<bar>x\<bar> - 52"
  have "\<bar>x\<bar> < 2 powi (ilog2 \<bar>x\<bar> + 1)" using ilog2_bounds(2) [of "\<bar>x\<bar>"] False by simp
  also have "\<dots> = 2 ^ 53 * 2 powi ?e"
    using power_int_add [of "2 :: rat" "53" ?e] by (simp add: add.commute)
  finally have "\<bar>x / 2 powi ?e\<bar> < of_int (2 ^ 53)" by (simp add: divide_less_eq)
  from round_even_bound [OF this] False show ?thesis
    by (intro exI [of _ "round_even (x / 2 powi ?e)"] exI [of _ ?e]) (simp add: f64_def Let_def)
qed (auto intro: exI [of _ 0])

text \<open>A float is unchanged by rounding, and so is a float divided by a power of two.\<close>

lemma f64_div_pow2: "f64 (f64 x / 2 ^ k) = f64 x / 2 ^ k"
proof -
  obtain m e where m: "\<bar>m\<bar> \<le> 2 ^ 53" "f64 x = of_int m * 2 powi e"
    using f64_form by blast
  have "f64 x / 2 ^ k = of_int m * 2 powi (e - int k)"
    by (simp add: m(2) power_int_diff)
  then show ?thesis using f64_exact [OF m(1), of "e - int k"] by simp
qed

lemma f64_idem [simp]: "f64 (f64 x) = f64 x"
  using f64_div_pow2 [of x 0] by simp

lemma f64_error: "\<bar>f64 x - x\<bar> \<le> \<bar>x\<bar> / 2 ^ 53"
proof (cases "x = 0")
  case False
  let ?e = "ilog2 \<bar>x\<bar> - 52"
  have "f64 x - x = (of_int (round_even (x / 2 powi ?e)) - x / 2 powi ?e) * 2 powi ?e"
    using False by (simp add: f64_def Let_def left_diff_distrib)
  then have "\<bar>f64 x - x\<bar> = \<bar>of_int (round_even (x / 2 powi ?e)) - x / 2 powi ?e\<bar> * 2 powi ?e"
    by (simp add: abs_mult)
  also have "\<dots> \<le> 1 / 2 * 2 powi ?e"
    by (intro mult_right_mono round_even_near) simp
  also have "\<dots> = 2 powi ilog2 \<bar>x\<bar> / 2 ^ 53" by (simp add: power_int_diff)
  also have "\<dots> \<le> \<bar>x\<bar> / 2 ^ 53"
    using ilog2_bounds(1) [of "\<bar>x\<bar>"] False by (intro divide_right_mono) simp_all
  finally show ?thesis .
qed simp

lemma f64_nonneg: "0 \<le> x \<Longrightarrow> 0 \<le> f64 x"
  using f64_error [of x] by (simp add: abs_if split: if_splits)

lemma round_even_nonneg: "0 \<le> x \<Longrightarrow> 0 \<le> round_even x"
  by (simp add: round_even_def Let_def)

lemma trunc_nonneg: "0 \<le> x \<Longrightarrow> trunc x = \<lfloor>x\<rfloor>"
  by (simp add: trunc_def)

end
