(* ===== verification/Entry.thy ===== *)
theory Entry
  imports GoFmt Rand Float64
begin

text \<open>
  The entries the load generators write: reusable key and value buffers as Go byte slices,
  the two \<open>fillEntry\<close> functions (\<^verbatim>\<open>populate/main.go\<close>, \<^verbatim>\<open>rw-bench/bench.go\<close>), and the
  helpers \<open>newKey\<close> and \<open>safecopy\<close> of \<^verbatim>\<open>bench_test.go\<close>. The locale \<open>buffer_fill\<close> is
  the contract of a routine that overwrites a reusable buffer.
\<close>

section \<open>Go byte slices\<close>

text \<open>A slice that starts its backing array: the array (its length is the capacity) and len.\<close>

record gslice =
  gs_arr :: bytes
  gs_len :: nat

definition gs_ok :: "gslice \<Rightarrow> bool" where
  "gs_ok s \<longleftrightarrow> gs_len s \<le> length (gs_arr s)"

definition gs_cap :: "gslice \<Rightarrow> nat" where
  "gs_cap s = length (gs_arr s)"

definition gs_bytes :: "gslice \<Rightarrow> bytes" where
  "gs_bytes s = take (gs_len s) (gs_arr s)"

definition gs_make :: "nat \<Rightarrow> gslice" where
  "gs_make n = \<lparr>gs_arr = replicate n NUL, gs_len = n\<rparr>"

text \<open>\<open>s[:n]\<close> reaches up to the capacity; \<open>copy(s, src)\<close> stops at the shorter length.\<close>

definition gs_reslice :: "gslice \<Rightarrow> nat \<Rightarrow> ('s, gslice) io" where
  "gs_reslice s n = (if n \<le> gs_cap s then ret (s\<lparr>gs_len := n\<rparr>)
     else fail (Panic ''slice bounds out of range''))"

definition gs_copy :: "gslice \<Rightarrow> bytes \<Rightarrow> gslice" where
  "gs_copy s src = (let n = min (gs_len s) (length src) in
     s\<lparr>gs_arr := take n src @ drop n (gs_arr s)\<rparr>)"

section \<open>Entries\<close>

record entry =
  e_Key :: gslice
  e_Value :: gslice
  e_Meta :: "8 word"

text \<open>\<open>fmt.Sprintf("vsz=%05d-k=%010d", valueSize, k)\<close>\<close>

definition key_string :: "int \<Rightarrow> int \<Rightarrow> string" where
  "key_string vsz k = ''vsz='' @ fmt_0d 5 vsz @ ''-k='' @ fmt_0d 10 k"

definition put_key :: "gslice \<Rightarrow> bytes \<Rightarrow> ('s, gslice) io" where
  "put_key dst key =
     (let dst = (if gs_cap dst < length key then gs_make (2 * length key) else dst) in
      bnd (gs_reslice dst (length key)) (\<lambda>dst. ret (gs_copy dst key)))"

text \<open>Go's remainder has the sign of the dividend; a zero divisor panics.\<close>

definition go_rem :: "int \<Rightarrow> int \<Rightarrow> ('s, int) io" where
  "go_rem a b = (if b = 0 then fail (Panic ''integer divide by zero'')
     else ret (if a \<ge> 0 then a mod \<bar>b\<bar> else - ((- a) mod \<bar>b\<bar>)))"

definition fill_value :: "entry \<Rightarrow> (rng, entry) io" where
  "fill_value e = bnd (rand_Read (gs_len (e_Value e))) (\<lambda>bs.
     ret (e\<lparr>e_Value := gs_copy (e_Value e) bs, e_Meta := 0\<rparr>))"

definition fillEntry :: "rat \<Rightarrow> int \<Rightarrow> entry \<Rightarrow> (rng, entry) io" where
  "fillEntry numKeys valueSize e =
     bnd rand_Int (\<lambda>r.
     bnd (go_rem r (trunc (f64 (numKeys * 1000000)))) (\<lambda>k.
     let key = key_string valueSize k in
     bnd (put_key (e_Key e) key) (\<lambda>buf.
     fill_value (e\<lparr>e_Key := buf\<rparr>))))"

text \<open>The variant of \<^verbatim>\<open>rw-bench\<close>: integer arithmetic on 64 bits, \<open>rand.Intn\<close>.\<close>

definition go_int :: "int \<Rightarrow> int" where
  "go_int i = sint (of_int i :: 64 word)"

definition rw_fillEntry :: "nat \<Rightarrow> int \<Rightarrow> int \<Rightarrow> entry \<Rightarrow> (rng, entry) io" where
  "rw_fillEntry fuel numKeys valueSize e =
     bnd (Intn fuel (go_int (go_int (numKeys * 1000000) * 10))) (\<lambda>k.
     let key = key_string valueSize k in
     bnd (put_key (e_Key e) key) (\<lambda>buf.
     fill_value (e\<lparr>e_Key := buf\<rparr>)))"

section \<open>Helpers of the read benchmarks\<close>

definition newKey :: "rat \<Rightarrow> int \<Rightarrow> (rng, bytes) io" where
  "newKey numKeys valueSize =
     bnd rand_Int (\<lambda>r.
     bnd (go_rem r (trunc (f64 (numKeys * 1000000)))) (\<lambda>k.
     ret (key_string valueSize k)))"

definition safecopy :: "gslice \<Rightarrow> bytes \<Rightarrow> ('s, gslice) io" where
  "safecopy dst src =
     (let dst = (if gs_cap dst < length src then gs_make (length src) else dst) in
      bnd (gs_reslice dst (length src)) (\<lambda>dst. ret (gs_copy dst src)))"

section \<open>Overwriting a reusable buffer\<close>

locale buffer_fill =
  fixes fill :: "gslice \<Rightarrow> bytes \<Rightarrow> ('s, gslice) io"
  assumes fill_law: "gs_ok s \<Longrightarrow> wp (fill s src) (\<lambda>s' g'. g' = g \<and> gs_ok s' \<and> gs_bytes s' = src \<and>
    gs_cap s \<le> gs_cap s' \<and> (length src \<le> gs_cap s \<longrightarrow> gs_cap s' = gs_cap s)) g"
begin

text \<open>A buffer that is filled again and again holds the last contents and never shrinks.\<close>

fun refill :: "gslice \<Rightarrow> bytes list \<Rightarrow> ('s, gslice) io" where
  "refill s [] = ret s"
| "refill s (x # xs) = bnd (fill s x) (\<lambda>s'. refill s' xs)"

lemma refill_law:
  assumes "gs_ok s"
  shows "wp (refill s (xs @ [x])) (\<lambda>s' g'. g' = g \<and> gs_ok s' \<and> gs_bytes s' = x \<and> gs_cap s \<le> gs_cap s' \<and>
    ((\<forall>y \<in> set (xs @ [x]). length y \<le> gs_cap s) \<longrightarrow> gs_cap s' = gs_cap s)) g"
  using assms
proof (induction xs arbitrary: s)
  case Nil
  then show ?case by (auto intro!: wp_mono [OF fill_law])
next
  case (Cons y ys)
  show ?case
    unfolding append_Cons refill.simps
    by (rule wp_seq [OF fill_law [OF Cons.prems, of y g]]) (auto intro!: wp_mono [OF Cons.IH])
qed

end

lemma gs_copy_full:
  assumes "gs_ok s" "gs_len s = length src"
  shows "gs_ok (gs_copy s src)" "gs_bytes (gs_copy s src) = src" "gs_cap (gs_copy s src) = gs_cap s"
  using assms by (simp_all add: gs_ok_def gs_copy_def gs_bytes_def gs_cap_def Let_def)

lemma gs_make_simps [simp]: "gs_ok (gs_make n)" "gs_len (gs_make n) = n" "gs_cap (gs_make n) = n"
  by (simp_all add: gs_ok_def gs_make_def gs_cap_def)

lemma wp_reslice_copy:
  assumes "n = length src" "n \<le> gs_cap s"
  shows "wp (bnd (gs_reslice s n) (\<lambda>s. ret (gs_copy s src)))
    (\<lambda>s' g'. g' = g \<and> gs_ok s' \<and> gs_bytes s' = src \<and> gs_cap s' = gs_cap s) g"
proof -
  have "gs_ok (s\<lparr>gs_len := n\<rparr>)" "gs_cap (s\<lparr>gs_len := n\<rparr>) = gs_cap s"
    using assms by (simp_all add: gs_ok_def gs_cap_def)
  with gs_copy_full [of "s\<lparr>gs_len := n\<rparr>" src] assms show ?thesis by (simp add: gs_reslice_def)
qed

interpretation key_buffer: buffer_fill put_key
proof
  fix s :: gslice and src and g :: 's
  show "wp (put_key s src) (\<lambda>s' g'. g' = g \<and> gs_ok s' \<and> gs_bytes s' = src \<and>
    gs_cap s \<le> gs_cap s' \<and> (length src \<le> gs_cap s \<longrightarrow> gs_cap s' = gs_cap s)) g"
    unfolding put_key_def Let_def by (rule wp_mono [OF wp_reslice_copy]) (auto split: if_splits)
qed

interpretation safe_buffer: buffer_fill safecopy
proof
  fix s :: gslice and src and g :: 's
  show "wp (safecopy s src) (\<lambda>s' g'. g' = g \<and> gs_ok s' \<and> gs_bytes s' = src \<and>
    gs_cap s \<le> gs_cap s' \<and> (length src \<le> gs_cap s \<longrightarrow> gs_cap s' = gs_cap s)) g"
    unfolding safecopy_def Let_def by (rule wp_mono [OF wp_reslice_copy]) (auto split: if_splits)
qed

section \<open>Keys have a fixed width and sort by number\<close>

lemma fmt_0d_nonneg [simp]: "0 \<le> i \<Longrightarrow> fmt_0d w i = pad0 w (dec (nat i))"
  by (simp add: fmt_0d_def)

lemma nat_less_pow10: "0 \<le> i \<Longrightarrow> i < 10 ^ w \<Longrightarrow> nat i < 10 ^ w"
  by (simp add: nat_less_iff)

lemma length_key_string:
  assumes "0 \<le> vsz" "vsz < 10 ^ 5" "0 \<le> k" "k < 10 ^ 10"
  shows "length (key_string vsz k) = 22"
  using assms length_pad0_dec [OF nat_less_pow10 [of vsz 5]] length_pad0_dec [OF nat_less_pow10 [of k 10]]
  by (simp add: key_string_def)

lemma append_less_iff: "(xs @ ys < xs @ zs) = (ys < (zs :: bytes))"
  by (induction xs) auto

lemma pad0_dec_less_iff:
  assumes "m < 10 ^ w" "n < 10 ^ w" "0 < w"
  shows "pad0 w (dec m) < pad0 w (dec n) \<longleftrightarrow> m < n"
  using digits_less_iff [of "pad0 w (dec m)" "pad0 w (dec n)"] assms by (simp add: length_pad0_dec)

lemma key_string_less_iff:
  assumes "0 \<le> j" "j < 10 ^ 10" "0 \<le> k" "k < 10 ^ 10"
  shows "key_string vsz j < key_string vsz k \<longleftrightarrow> j < k"
  using assms pad0_dec_less_iff [OF nat_less_pow10 nat_less_pow10, of j 10 k]
  unfolding key_string_def append_less_iff by auto

lemma key_string_inj:
  assumes "0 \<le> v" "v < 10 ^ 5" "0 \<le> j" "0 \<le> v'" "v' < 10 ^ 5" "0 \<le> k"
    and "key_string v j = key_string v' k"
  shows "v = v' \<and> j = k"
proof -
  have len: "length (pad0 5 (dec (nat v))) = length (pad0 5 (dec (nat v')))"
    using assms length_pad0_dec [OF nat_less_pow10 [of v 5]] length_pad0_dec [OF nat_less_pow10 [of v' 5]]
    by simp
  have "pad0 5 (dec (nat v)) @ ''-k='' @ pad0 10 (dec (nat j)) =
      pad0 5 (dec (nat v')) @ ''-k='' @ pad0 10 (dec (nat k))"
    using assms by (simp add: key_string_def)
  with len have "pad0 5 (dec (nat v)) = pad0 5 (dec (nat v'))" "pad0 10 (dec (nat j)) = pad0 10 (dec (nat k))"
    by (simp_all del: append_Cons)
  then have "nat v = nat v'" "nat j = nat k" by (auto dest: pad0_dec_inj)
  with assms show ?thesis by (simp add: eq_nat_nat_iff)
qed

text \<open>The ten digits are needed: the key of $10^{10}$ sorts before that of the number before it.\<close>

lemma key_string_order_bound: "key_string 128 10000000000 < key_string 128 9999999999"
  by (simp add: key_string_def append_less_iff pad0_def dec.simps digit_def less_char_def)

section \<open>Filling an entry\<close>

text \<open>An entry as \<open>main\<close> allocates it, and as \<open>fillEntry\<close> leaves it.\<close>

definition entry_ok :: "int \<Rightarrow> entry \<Rightarrow> bool" where
  "entry_ok valueSize e \<longleftrightarrow> gs_ok (e_Key e) \<and> gs_ok (e_Value e) \<and> int (gs_len (e_Value e)) = valueSize"

definition new_entry :: "nat \<Rightarrow> entry" where
  "new_entry valueSize = \<lparr>e_Key = gs_make 22, e_Value = gs_make valueSize, e_Meta = 0\<rparr>"

lemma new_entry_ok: "entry_ok (int n) (new_entry n)"
  by (simp add: entry_ok_def new_entry_def)

text \<open>What filling gives: the key of a number below \<open>n\<close>, a value of the same length.\<close>

definition filled :: "int \<Rightarrow> int \<Rightarrow> entry \<Rightarrow> entry \<Rightarrow> bool" where
  "filled valueSize n e e' \<longleftrightarrow> entry_ok valueSize e' \<and> e_Meta e' = 0 \<and>
     (\<exists>k. 0 \<le> k \<and> k < n \<and> gs_bytes (e_Key e') = key_string valueSize k) \<and>
     (22 \<le> gs_cap (e_Key e) \<and> 0 \<le> valueSize \<and> valueSize < 10 ^ 5 \<and> n \<le> 10 ^ 10 \<longrightarrow>
        gs_cap (e_Key e') = gs_cap (e_Key e))"

lemma wp_fill_value:
  assumes "entry_ok v e"
  shows "wp (fill_value e) (\<lambda>e' g'. same_src g g' \<and> entry_ok v e' \<and> e_Key e' = e_Key e \<and> e_Meta e' = 0) g"
proof -
  have "wp (fill_value e) (\<lambda>e' g'. same_src g g' \<and> (\<exists>bs. length bs = gs_len (e_Value e) \<and>
      e' = e\<lparr>e_Value := gs_copy (e_Value e) bs, e_Meta := 0\<rparr>)) g"
    unfolding fill_value_def wp_bnd wp_ret by (rule wp_mono [OF rand_Read_length]) auto
  then show ?thesis
    by (rule wp_mono)
      (use assms in \<open>auto simp: entry_ok_def gs_copy_def gs_ok_def Let_def\<close>)
qed

lemma wp_put_and_fill:
  assumes "entry_ok v e" "0 \<le> k" "k < n" "same_src g0 g"
  shows "wp (bnd (put_key (e_Key e) (key_string v k)) (\<lambda>buf. fill_value (e\<lparr>e_Key := buf\<rparr>)))
    (\<lambda>e' g'. same_src g0 g' \<and> filled v n e e') g"
proof -
  have ok: "gs_ok (e_Key e)" using assms(1) by (simp add: entry_ok_def)
  show ?thesis
    by (rule wp_seq [OF key_buffer.fill_law [OF ok, of "key_string v k" g]],
        rule wp_mono [OF wp_fill_value [of v]])
      (use assms length_key_string [of v k] in
        \<open>auto simp: entry_ok_def filled_def intro: same_src_trans\<close>)
qed

lemma wp_rand_Int: "wp rand_Int (\<lambda>v g'. 0 \<le> v \<and> v < 2 ^ 63 \<and> same_src g g') g"
  unfolding rand_Int_def by (rule Int63_range)

lemma wp_go_rem: "0 < b \<Longrightarrow> 0 \<le> a \<Longrightarrow> wp (go_rem a b) Q g = Q (a mod b) g"
  by (simp add: go_rem_def)

lemma wp_fillEntry:
  assumes "entry_ok v e" "trunc (f64 (numKeys * 1000000)) = n" "0 < n"
  shows "wp (fillEntry numKeys v e) (\<lambda>e' g'. same_src g g' \<and> filled v n e e') g"
  unfolding fillEntry_def wp_bnd Let_def assms(2)
  by (rule wp_mono [OF wp_rand_Int], use assms(3) in \<open>auto simp: wp_go_rem\<close>)
    (rule wp_put_and_fill [unfolded wp_bnd, OF assms(1)], simp_all)

lemma go_int_small [simp]: "- (2 ^ 63) \<le> i \<Longrightarrow> i < 2 ^ 63 \<Longrightarrow> go_int i = i"
  by (simp add: go_int_def signed_of_int signed_take_bit_int_eq_self)

lemma wp_rw_fillEntry:
  assumes "entry_ok v e" "0 < numKeys" "numKeys \<le> 1000" "fair fuel g"
  shows "wp (rw_fillEntry fuel numKeys v e) (\<lambda>e' g'. same_src g g' \<and> filled v (numKeys * 10000000) e e') g"
proof -
  have n: "go_int (go_int (numKeys * 1000000) * 10) = numKeys * 10000000"
    using assms(2,3) by simp
  have "0 < numKeys * 10000000" "numKeys * 10000000 < 2 ^ 63" using assms(2,3) by simp_all
  note range = Intn_range [OF assms(4) this]
  show ?thesis
    unfolding rw_fillEntry_def Let_def n
    by (rule wp_seq [OF range]) (auto intro!: wp_put_and_fill [OF assms(1), unfolded wp_bnd])
qed

section \<open>Properties\<close>

text \<open>
  C29. Keys are 22 bytes wide and sort by their number, as long as the value size has at most
  five digits and the number at most ten; keys of different numbers or value sizes differ.
\<close>

theorem key_string_order:
  assumes "0 \<le> v" and "v < 10 ^ 5" and "0 \<le> j" and "j < 10 ^ 10" and "0 \<le> k" and "k < 10 ^ 10"
    and "0 \<le> v'" and "v' < 10 ^ 5"
  shows "length (key_string v k) = 22 \<and> (key_string v j < key_string v k \<longleftrightarrow> j < k) \<and>
    (key_string v j = key_string v' k \<longrightarrow> v = v' \<and> j = k)"
  using assms length_key_string [OF assms(1,2,5,6)] key_string_less_iff [OF assms(3-6)]
    key_string_inj [OF assms(1-3,7,8,5)] by blast

theorem key_string_order_witness:
  "length (key_string 128 42) = 22 \<and> key_string 128 7 < key_string 128 42"
  using key_string_order [of 128 7 42 128] by simp

text \<open>
  C28. fillEntry of populate never faults for a positive number of keys: the key becomes that
  of a number below the number of keys, whatever the buffer held before, the key buffer is
  reused when it has room, and the value keeps its length.
\<close>

theorem fillEntry_correct:
  assumes "entry_ok v e" and "trunc (f64 (numKeys * 1000000)) = n" and "0 < n"
  shows "wp (fillEntry numKeys v e) (\<lambda>e' g'. same_src g g' \<and> filled v n e e') g"
  using assms by (rule wp_fillEntry)

theorem fillEntry_correct_witness:
  "wp (fillEntry 10 128 (new_entry 128)) (\<lambda>e' g'. filled 128 10000000 (new_entry 128) e')
     \<lparr>rg_src = (\<lambda>i. i * 7919), rg_pos = 0, rg_val = 0, rg_left = 0\<rparr>"
proof (rule wp_mono [OF fillEntry_correct])
  show "entry_ok 128 (new_entry 128)" using new_entry_ok [of 128] by simp
  show "trunc (f64 (10 * 1000000)) = 10000000"
    using f64_int [of 10000000] by (simp add: trunc_def)
qed simp_all

text \<open>
  Asking for less than one key stops the program: the modulus truncates to zero.
\<close>

lemma fillEntry_no_keys:
  assumes "0 \<le> f64 (numKeys * 1000000)" and "f64 (numKeys * 1000000) < 1"
  shows "fillEntry numKeys v e g = Inl (Panic ''integer divide by zero'')"
proof -
  have "trunc (f64 (numKeys * 1000000)) = 0"
    using assms by (simp add: trunc_def) linarith
  then show ?thesis by (simp add: fillEntry_def rand_Int_def Int63_def go_rem_def bnd_def)
qed

text \<open>
  safecopy returns exactly the source bytes whatever the buffer held, and a buffer that is
  large enough for all the items of a scan is never reallocated.
\<close>

lemma safecopy_reuses:
  assumes "gs_ok s"
  shows "wp (safe_buffer.refill s (xs @ [x])) (\<lambda>s' g'. g' = g \<and> gs_bytes s' = x \<and>
    ((\<forall>y \<in> set (xs @ [x]). length y \<le> gs_cap s) \<longrightarrow> gs_cap s' = gs_cap s)) g"
  by (rule wp_mono [OF safe_buffer.refill_law [OF assms]]) auto

end
