(* ===== verification/Populate.thy ===== *)
theory Populate
  imports StoreSpec Entry
begin

text \<open>
  The load generator \<^verbatim>\<open>src/populate/main.go\<close>: choosing and opening a store, writing batches of
  random entries to it from 32 goroutines, closing it. RocksDB is reached through the store of
  this repository; badger, goleveldb, bolt, lmdb, the checks of \<open>badger/y\<close> and the file
  system are the parameter \<open>libs\<close>. The goroutines are a step relation on the state of all
  workers, one step per batch and per update of the shared counter.
\<close>

section \<open>The libraries and the state\<close>

text \<open>
  The options of badger and bolt are records of the fields the commands set; their defaults
  come from the libraries. \<open>y_Check\<close> and \<open>y_AssertTrue\<close> give the fault that ends the process, if any. A closure
  handed to bolt may end the process; one handed to lmdb also updates the captured variable
  \<open>lmdbDBI\<close>.
\<close>

record badger_options =
  bo_Dir :: bytes
  bo_TableLoadingMode :: nat
  bo_SyncWrites :: bool
  bo_ReadOnly :: bool

record bolt_options =
  bolt_ReadOnly :: bool

record ('bt, 'lb, 'tx, 'lt, 'e, 'x) libs =
  y_Check :: "bytes option \<Rightarrow> fault option"
  y_AssertTrue :: "bool \<Rightarrow> fault option"
  os_RemoveAll :: "bytes \<Rightarrow> 'e \<times> 'x \<Rightarrow> bytes option \<times> ('e \<times> 'x)"
  os_MkdirAll :: "bytes \<Rightarrow> nat \<Rightarrow> 'e \<times> 'x \<Rightarrow> bytes option \<times> ('e \<times> 'x)"
  options_LoadToRAM :: nat
  options_MemoryMap :: nat
  badger_DefaultOptions :: "bytes \<Rightarrow> badger_options"
  badger_Open :: "badger_options \<Rightarrow> 'x \<Rightarrow> bytes option \<times> 'x"
  badger_NewTransaction :: "'x \<Rightarrow> 'bt \<times> 'x"
  badger_Set :: "'bt \<Rightarrow> bytes \<Rightarrow> bytes \<Rightarrow> bytes option \<times> 'bt"
  badger_Commit :: "'bt \<Rightarrow> 'x \<Rightarrow> bytes option \<times> 'x"
  badger_Close :: "'x \<Rightarrow> unit \<times> 'x"
  leveldb_OpenFile :: "bytes \<Rightarrow> 'x \<Rightarrow> bytes option \<times> 'x"
  leveldb_Batch :: 'lb
  leveldb_Put :: "'lb \<Rightarrow> bytes \<Rightarrow> bytes \<Rightarrow> 'lb"
  leveldb_Write :: "'lb \<Rightarrow> bool \<Rightarrow> 'x \<Rightarrow> bytes option \<times> 'x"
  leveldb_Close :: "'x \<Rightarrow> unit \<times> 'x"
  bolt_DefaultOptions :: bolt_options
  bolt_Open :: "bytes \<Rightarrow> nat \<Rightarrow> bolt_options \<Rightarrow> 'x \<Rightarrow> bytes option \<times> 'x"
  bolt_SetNoSync :: "bool \<Rightarrow> 'x \<Rightarrow> unit \<times> 'x"
  bolt_Update :: "('tx \<Rightarrow> bytes option \<times> 'tx) \<Rightarrow> 'x \<Rightarrow> bytes option \<times> 'x"
  bolt_CreateBucketIfNotExists :: "'tx \<Rightarrow> bytes \<Rightarrow> bytes option \<times> 'tx"
  bolt_Batch :: "('tx \<Rightarrow> fault + (bytes option \<times> 'tx)) \<Rightarrow> 'x \<Rightarrow> fault + (bytes option \<times> 'x)"
  bolt_Bucket :: "'tx \<Rightarrow> bytes \<Rightarrow> nat option"
  bolt_Put :: "'tx \<Rightarrow> nat \<Rightarrow> bytes \<Rightarrow> bytes \<Rightarrow> bytes option \<times> 'tx"
  bolt_Close :: "'x \<Rightarrow> unit \<times> 'x"
  lmdb_NewEnv :: "'x \<Rightarrow> bytes option \<times> 'x"
  lmdb_SetMaxDBs :: "nat \<Rightarrow> 'x \<Rightarrow> bytes option \<times> 'x"
  lmdb_SetMapSize :: "int \<Rightarrow> 'x \<Rightarrow> bytes option \<times> 'x"
  lmdb_Readonly :: nat
  lmdb_NoReadahead :: nat
  lmdb_Open :: "bytes \<Rightarrow> nat \<Rightarrow> nat \<Rightarrow> 'x \<Rightarrow> bytes option \<times> 'x"
  lmdb_Update :: "(nat \<Rightarrow> 'lt \<Rightarrow> (bytes option \<times> nat) \<times> 'lt) \<Rightarrow> nat \<Rightarrow> 'x \<Rightarrow> (bytes option \<times> nat) \<times> 'x"
  lmdb_CreateDBI :: "'lt \<Rightarrow> bytes \<Rightarrow> (bytes option \<times> nat) \<times> 'lt"
  lmdb_Put :: "'lt \<Rightarrow> nat \<Rightarrow> bytes \<Rightarrow> bytes \<Rightarrow> nat \<Rightarrow> bytes option \<times> 'lt"
  lmdb_CloseDBI :: "nat \<Rightarrow> 'x \<Rightarrow> unit \<times> 'x"
  lmdb_Close :: "'x \<Rightarrow> unit \<times> 'x"

record ('b, 'f, 'e, 'x) pstate =
  ps_world :: "('b, 'f, 'e) world"
  ps_x :: 'x
  ps_rng :: rng

text \<open>The package variables: which stores are open (not nil), and the lmdb handle.\<close>

record dbs =
  g_bdb :: bool
  g_rdb :: "Store option"
  g_boltdb :: bool
  g_ldb :: bool
  g_lmdbEnv :: bool
  g_lmdbDBI :: nat

definition no_dbs :: dbs where
  "no_dbs = \<lparr>g_bdb = False, g_rdb = None, g_boltdb = False, g_ldb = False, g_lmdbEnv = False,
     g_lmdbDBI = 0\<rparr>"

definition on_world :: "('b, 'f, 'e, 'a) rio \<Rightarrow> (('b, 'f, 'e, 'x) pstate, 'a) io" where
  "on_world m = (\<lambda>s. case m (ps_world s) of
     Inl e \<Rightarrow> Inl e | Inr (r, w) \<Rightarrow> Inr (r, s\<lparr>ps_world := w\<rparr>))"

definition on_rng :: "(rng, 'a) io \<Rightarrow> (('b, 'f, 'e, 'x) pstate, 'a) io" where
  "on_rng m = (\<lambda>s. case m (ps_rng s) of
     Inl e \<Rightarrow> Inl e | Inr (r, g) \<Rightarrow> Inr (r, s\<lparr>ps_rng := g\<rparr>))"

definition on_x :: "('x \<Rightarrow> 'a \<times> 'x) \<Rightarrow> (('b, 'f, 'e, 'x) pstate, 'a) io" where
  "on_x f = (\<lambda>s. case f (ps_x s) of (r, x) \<Rightarrow> Inr (r, s\<lparr>ps_x := x\<rparr>))"

definition on_xf :: "('x \<Rightarrow> fault + ('a \<times> 'x)) \<Rightarrow> (('b, 'f, 'e, 'x) pstate, 'a) io" where
  "on_xf f = (\<lambda>s. case f (ps_x s) of Inl e \<Rightarrow> Inl e | Inr (r, x) \<Rightarrow> Inr (r, s\<lparr>ps_x := x\<rparr>))"

definition on_disk :: "('e \<times> 'x \<Rightarrow> 'a \<times> ('e \<times> 'x)) \<Rightarrow> (('b, 'f, 'e, 'x) pstate, 'a) io" where
  "on_disk f = (\<lambda>s. case f (eng (ps_world s), ps_x s) of
     (r, (e, x)) \<Rightarrow> Inr (r, s\<lparr>ps_world := (ps_world s)\<lparr>eng := e\<rparr>, ps_x := x\<rparr>))"

definition check :: "('bt, 'lb, 'tx, 'lt, 'e, 'x) libs \<Rightarrow> bytes option \<Rightarrow> ('s, unit) io" where
  "check L err = (case y_Check L err of None \<Rightarrow> ret () | Some f \<Rightarrow> fail f)"

section \<open>writeBatch\<close>

definition e_op :: "entry \<Rightarrow> bytes \<times> bytes" where
  "e_op e = (gs_bytes (e_Key e), gs_bytes (e_Value e))"

text \<open>Badger: one transaction, every Set checked, then the commit.\<close>

fun badger_sets ::
  "('bt, 'lb, 'tx, 'lt, 'e, 'x) libs \<Rightarrow> entry list \<Rightarrow> 'bt \<Rightarrow> ('s, 'bt) io" where
  "badger_sets L [] txn = ret txn"
| "badger_sets L (e # es) txn = (case badger_Set L txn (fst (e_op e)) (snd (e_op e)) of
     (err, txn') \<Rightarrow> andthen (check L err) (badger_sets L es txn'))"

definition write_badger ::
  "('bt, 'lb, 'tx, 'lt, 'e, 'x) libs \<Rightarrow> entry list \<Rightarrow> (('b, 'f, 'e, 'x) pstate, unit) io" where
  "write_badger L es =
     bnd (on_x (badger_NewTransaction L)) (\<lambda>txn.
     bnd (badger_sets L es txn) (\<lambda>txn'.
     bnd (on_x (badger_Commit L txn')) (check L)))"

definition write_leveldb ::
  "('bt, 'lb, 'tx, 'lt, 'e, 'x) libs \<Rightarrow> entry list \<Rightarrow> (('b, 'f, 'e, 'x) pstate, unit) io" where
  "write_leveldb L es =
     (let batch = foldl (\<lambda>b e. leveldb_Put L b (fst (e_op e)) (snd (e_op e))) (leveldb_Batch L) es in
      bnd (on_x (leveldb_Write L batch True)) (check L))"

text \<open>RocksDB: the batch is destroyed by a deferred call, so it is returned.\<close>

definition write_rocks ::
  "('bt, 'lb, 'tx, 'lt, 'e, 'x) libs \<Rightarrow> ('b, 'f, 'e) rocksdb \<Rightarrow> Store \<Rightarrow> entry list \<Rightarrow>
     (('b, 'f, 'e, 'x) pstate, WriteBatch) io" where
  "write_rocks L R s es =
     bnd (on_world (Store_NewWriteBatch R s)) (\<lambda>rb.
     andthen (on_world (io_for es (\<lambda>e. WriteBatch_Put R rb (fst (e_op e)) (snd (e_op e)))))
     (bnd (on_world (Store_WriteBatch R s rb)) (\<lambda>err.
     andthen (check L err) (ret rb))))"

fun bolt_puts ::
  "('bt, 'lb, 'tx, 'lt, 'e, 'x) libs \<Rightarrow> nat \<Rightarrow> entry list \<Rightarrow> 'tx \<Rightarrow> bytes option \<times> 'tx" where
  "bolt_puts L bkt [] tx = (None, tx)"
| "bolt_puts L bkt (e # es) tx = (case bolt_Put L tx bkt (fst (e_op e)) (snd (e_op e)) of
     (Some err, tx') \<Rightarrow> (Some err, tx') | (None, tx') \<Rightarrow> bolt_puts L bkt es tx')"

definition bolt_closure ::
  "('bt, 'lb, 'tx, 'lt, 'e, 'x) libs \<Rightarrow> entry list \<Rightarrow> 'tx \<Rightarrow> fault + (bytes option \<times> 'tx)" where
  "bolt_closure L es txn = (case y_AssertTrue L (bolt_Bucket L txn ''bench'' \<noteq> None) of
     Some f \<Rightarrow> Inl f
   | None \<Rightarrow> (case bolt_Bucket L txn ''bench'' of
       None \<Rightarrow> Inl NilDeref
     | Some bkt \<Rightarrow> Inr (bolt_puts L bkt es txn)))"

definition write_bolt ::
  "('bt, 'lb, 'tx, 'lt, 'e, 'x) libs \<Rightarrow> entry list \<Rightarrow> (('b, 'f, 'e, 'x) pstate, unit) io" where
  "write_bolt L es =
     bnd (on_xf (bolt_Batch L (bolt_closure L es))) (check L)"

fun lmdb_puts ::
  "('bt, 'lb, 'tx, 'lt, 'e, 'x) libs \<Rightarrow> entry list \<Rightarrow> nat \<Rightarrow> 'lt \<Rightarrow> (bytes option \<times> nat) \<times> 'lt" where
  "lmdb_puts L [] dbi txn = ((None, dbi), txn)"
| "lmdb_puts L (e # es) dbi txn = (case lmdb_Put L txn dbi (fst (e_op e)) (snd (e_op e)) 0 of
     (Some err, txn') \<Rightarrow> ((Some err, dbi), txn') | (None, txn') \<Rightarrow> lmdb_puts L es dbi txn')"

definition write_lmdb ::
  "('bt, 'lb, 'tx, 'lt, 'e, 'x) libs \<Rightarrow> nat \<Rightarrow> entry list \<Rightarrow> (('b, 'f, 'e, 'x) pstate, unit) io" where
  "write_lmdb L dbi es =
     bnd (on_x (lmdb_Update L (lmdb_puts L es) dbi)) (\<lambda>(err, _). check L err)"

text \<open>The body of \<open>writeBatch\<close> after filling, with the deferred destroy at its end.\<close>

definition store_entries ::
  "('bt, 'lb, 'tx, 'lt, 'e, 'x) libs \<Rightarrow> ('b, 'f, 'e) rocksdb \<Rightarrow> dbs \<Rightarrow> entry list \<Rightarrow>
     (('b, 'f, 'e, 'x) pstate, unit) io" where
  "store_entries L R g es =
     andthen (io_if (g_bdb g) (write_badger L es))
     (andthen (io_if (g_ldb g) (write_leveldb L es))
     (bnd (case g_rdb g of None \<Rightarrow> ret None
           | Some s \<Rightarrow> bnd (write_rocks L R s es) (\<lambda>rb. ret (Some rb))) (\<lambda>rb.
     andthen (io_if (g_boltdb g) (write_bolt L es))
     (andthen (io_if (g_lmdbEnv g) (write_lmdb L (g_lmdbDBI g) es))
     (case rb of None \<Rightarrow> ret ()
      | Some b \<Rightarrow> andthen (on_world (WriteBatch_Destroy b)) (ret ()))))))"

definition writeBatch ::
  "('bt, 'lb, 'tx, 'lt, 'e, 'x) libs \<Rightarrow> ('b, 'f, 'e) rocksdb \<Rightarrow> dbs \<Rightarrow> rat \<Rightarrow> int \<Rightarrow> entry list \<Rightarrow>
     (('b, 'f, 'e, 'x) pstate, nat \<times> entry list) io" where
  "writeBatch L R g numKeys valueSize entries =
     bnd (on_rng (io_map entries (fillEntry numKeys valueSize))) (\<lambda>es.
     andthen (store_entries L R g es) (ret (length es, es)))"

section \<open>Opening and closing\<close>

text \<open>The permissions \<open>0777\<close>.\<close>

definition perm_all :: nat where
  "perm_all = 511"

text \<open>\<open>os.RemoveAll\<close> and \<open>os.MkdirAll\<close>; only badger's removal is checked.\<close>

definition reset_dir ::
  "('bt, 'lb, 'tx, 'lt, 'e, 'x) libs \<Rightarrow> bool \<Rightarrow> bytes \<Rightarrow> (('b, 'f, 'e, 'x) pstate, unit) io" where
  "reset_dir L checked path =
     bnd (on_disk (os_RemoveAll L path)) (\<lambda>err.
     andthen (io_if checked (check L err))
     (andthen (on_disk (os_MkdirAll L path perm_all)) (ret ())))"

definition populate_opt :: "('bt, 'lb, 'tx, 'lt, 'e, 'x) libs \<Rightarrow> bytes \<Rightarrow> badger_options" where
  "populate_opt L dir = (badger_DefaultOptions L (dir @ ''/badger''))
     \<lparr>bo_TableLoadingMode := options_MemoryMap L, bo_SyncWrites := True\<rparr>"

definition open_badger ::
  "('bt, 'lb, 'tx, 'lt, 'e, 'x) libs \<Rightarrow> bytes \<Rightarrow> (('b, 'f, 'e, 'x) pstate, dbs) io" where
  "open_badger L dir =
     andthen (reset_dir L True (dir @ ''/badger''))
     (bnd (on_x (badger_Open L (populate_opt L dir))) (\<lambda>err. case err of
        Some e \<Rightarrow> fail (Fatal (''while opening badger: '' @ e))
      | None \<Rightarrow> ret (no_dbs\<lparr>g_bdb := True\<rparr>)))"

definition open_rocks ::
  "('bt, 'lb, 'tx, 'lt, 'e, 'x) libs \<Rightarrow> ('b, 'f, 'e) rocksdb \<Rightarrow> bytes \<Rightarrow>
     (('b, 'f, 'e, 'x) pstate, dbs) io" where
  "open_rocks L R dir =
     andthen (reset_dir L False (dir @ ''/rocks''))
     (bnd (on_world (NewStore R (dir @ ''/rocks''))) (\<lambda>(s, err).
      andthen (check L err) (ret (no_dbs\<lparr>g_rdb := Some s\<rparr>))))"

definition open_bolt ::
  "('bt, 'lb, 'tx, 'lt, 'e, 'x) libs \<Rightarrow> bytes \<Rightarrow> (('b, 'f, 'e, 'x) pstate, dbs) io" where
  "open_bolt L dir =
     andthen (reset_dir L False (dir @ ''/bolt''))
     (bnd (on_x (bolt_Open L (dir @ ''/bolt/bolt.db'') perm_all (bolt_DefaultOptions L))) (\<lambda>err.
      andthen (check L err)
      (andthen (on_x (bolt_SetNoSync L False))
      (bnd (on_x (bolt_Update L (\<lambda>txn. bolt_CreateBucketIfNotExists L txn ''bench''))) (\<lambda>err.
      andthen (check L err) (ret (no_dbs\<lparr>g_boltdb := True\<rparr>)))))))"

definition open_leveldb ::
  "('bt, 'lb, 'tx, 'lt, 'e, 'x) libs \<Rightarrow> bytes \<Rightarrow> (('b, 'f, 'e, 'x) pstate, dbs) io" where
  "open_leveldb L dir =
     andthen (reset_dir L False (dir @ ''/level''))
     (bnd (on_x (leveldb_OpenFile L (dir @ ''/level/l.db''))) (\<lambda>err.
      andthen (check L err) (ret (no_dbs\<lparr>g_ldb := True\<rparr>))))"

definition open_lmdb ::
  "('bt, 'lb, 'tx, 'lt, 'e, 'x) libs \<Rightarrow> bytes \<Rightarrow> (('b, 'f, 'e, 'x) pstate, dbs) io" where
  "open_lmdb L dir =
     andthen (reset_dir L False (dir @ ''/lmdb''))
     (bnd (on_x (lmdb_NewEnv L)) (\<lambda>err. andthen (check L err)
     (bnd (on_x (lmdb_SetMaxDBs L 1)) (\<lambda>err. andthen (check L err)
     (bnd (on_x (lmdb_SetMapSize L (2 ^ 38))) (\<lambda>err. andthen (check L err)
     (bnd (on_x (lmdb_Open L (dir @ ''/lmdb'') 0 perm_all)) (\<lambda>err. andthen (check L err)
     (bnd (on_x (lmdb_Update L (\<lambda>_ txn. lmdb_CreateDBI L txn ''bench'') 0)) (\<lambda>(err, dbi).
      andthen (check L err)
      (ret (no_dbs\<lparr>g_lmdbEnv := True, g_lmdbDBI := dbi\<rparr>))))))))))))"

definition open_store_for ::
  "('bt, 'lb, 'tx, 'lt, 'e, 'x) libs \<Rightarrow> ('b, 'f, 'e) rocksdb \<Rightarrow> bytes \<Rightarrow> bytes \<Rightarrow>
     (('b, 'f, 'e, 'x) pstate, dbs) io" where
  "open_store_for L R which dir =
     (if which = ''badger'' then open_badger L dir
      else if which = ''rocksdb'' then open_rocks L R dir
      else if which = ''bolt'' then open_bolt L dir
      else if which = ''leveldb'' then open_leveldb L dir
      else if which = ''lmdb'' then open_lmdb L dir
      else fail (Fatal (''Invalid value for option kv: '' @ [CHR 39] @ which @ [CHR 39])))"

definition close_stores ::
  "('bt, 'lb, 'tx, 'lt, 'e, 'x) libs \<Rightarrow> ('b, 'f, 'e) rocksdb \<Rightarrow> dbs \<Rightarrow>
     (('b, 'f, 'e, 'x) pstate, unit) io" where
  "close_stores L R g =
     andthen (io_if (g_bdb g) (on_x (badger_Close L)))
     (andthen (case g_rdb g of None \<Rightarrow> ret () | Some s \<Rightarrow> on_world (Store_Close R s))
     (andthen (io_if (g_ldb g) (on_x (leveldb_Close L)))
     (andthen (io_if (g_boltdb g) (on_x (bolt_Close L)))
     (io_if (g_lmdbEnv g)
        (andthen (on_x (lmdb_CloseDBI L (g_lmdbDBI g))) (on_x (lmdb_Close L)))))))"

section \<open>The calculus on the state of the generator\<close>

lemma wp_on [wp_simps, simp]:
  "wp (on_world m) Q s = wp m (\<lambda>r w. Q r (s\<lparr>ps_world := w\<rparr>)) (ps_world s)"
  "wp (on_rng n) Q' s = wp n (\<lambda>r g. Q' r (s\<lparr>ps_rng := g\<rparr>)) (ps_rng s)"
  "wp (on_x f) Q'' s = (case f (ps_x s) of (r, x) \<Rightarrow> Q'' r (s\<lparr>ps_x := x\<rparr>))"
  by (auto simp: wp_def on_world_def on_rng_def on_x_def split: sum.splits prod.splits)

lemma wpx_on [wp_simps, simp]:
  "wpx (on_world m) F Q s = wpx m F (\<lambda>r w. Q r (s\<lparr>ps_world := w\<rparr>)) (ps_world s)"
  "wpx (on_rng n) F Q' s = wpx n F (\<lambda>r g. Q' r (s\<lparr>ps_rng := g\<rparr>)) (ps_rng s)"
  "wpx (on_x f) F Q'' s = (case f (ps_x s) of (r, x) \<Rightarrow> Q'' r (s\<lparr>ps_x := x\<rparr>))"
  "wpx (on_xf h) F Q'' s = (case h (ps_x s) of Inl e \<Rightarrow> F e | Inr (r, x) \<Rightarrow> Q'' r (s\<lparr>ps_x := x\<rparr>))"
  "wpx (on_disk k) F Q3 s = (case k (eng (ps_world s), ps_x s) of
     (r, (e, x)) \<Rightarrow> Q3 r (s\<lparr>ps_world := (ps_world s)\<lparr>eng := e\<rparr>, ps_x := x\<rparr>))"
  by (auto simp: wpx_def on_world_def on_rng_def on_x_def on_xf_def on_disk_def
      split: sum.splits prod.splits)

text \<open>
  The documented behaviour of \<open>y.Check\<close>: nothing on a nil error, the end of the process
  otherwise. A fault that it raises for an error is a \<open>check_fault\<close>.
\<close>

definition y_law :: "('bt, 'lb, 'tx, 'lt, 'e, 'x) libs \<Rightarrow> bool" where
  "y_law L \<longleftrightarrow> y_Check L None = None \<and> (\<forall>e. y_Check L (Some e) \<noteq> None) \<and>
     y_AssertTrue L True = None \<and> y_AssertTrue L False \<noteq> None"

definition check_fault :: "('bt, 'lb, 'tx, 'lt, 'e, 'x) libs \<Rightarrow> fault \<Rightarrow> bool" where
  "check_fault L f \<longleftrightarrow> (\<exists>e. y_Check L (Some e) = Some f) \<or> y_AssertTrue L False = Some f"

text \<open>A fault of a check, possible only if \<open>P\<close>.\<close>

lemma wpx_check_only:
  assumes "y_law L"
  shows "wpx (check L err) (\<lambda>f. check_fault L f \<and> P) Q s = (if err = None then Q () s else P)"
proof (cases err)
  case None
  then show ?thesis using assms by (simp add: y_law_def check_def)
next
  case (Some e)
  then obtain f where "y_Check L (Some e) = Some f" using assms unfolding y_law_def by blast
  with Some show ?thesis by (auto simp: check_def check_fault_def)
qed

lemma wpx_check [simp]:
  assumes "y_law L"
  shows "wpx (check L err) (check_fault L) Q s = (err = None \<longrightarrow> Q () s)"
  using wpx_check_only [OF assms, of err True Q s] by auto

text \<open>The entries of a batch, as operations on a map, and that all of them were filled.\<close>

definition e_ops :: "entry list \<Rightarrow> (bytes \<times> bytes option) list" where
  "e_ops es = map (\<lambda>e. (fst (e_op e), Some (snd (e_op e)))) es"

definition all_filled :: "int \<Rightarrow> int \<Rightarrow> entry list \<Rightarrow> entry list \<Rightarrow> bool" where
  "all_filled valueSize n es es' \<longleftrightarrow> list_all2 (filled valueSize n) es es'"

lemma wp_fill_entries:
  assumes "list_all (entry_ok v) es" "trunc (f64 (numKeys * 1000000)) = n" "0 < n"
  shows "wp (io_map es (fillEntry numKeys v)) (\<lambda>es' _. all_filled v n es es') g"
proof -
  have "wp (io_map es (fillEntry numKeys v)) (\<lambda>ys g'. True \<and> list_all2 (filled v n) es ys) g"
    by (rule wp_io_map) (use assms in \<open>auto simp: list_all_iff intro!: wp_mono [OF wp_fillEntry]\<close>)
  then show ?thesis by (rule wp_mono) (simp add: all_filled_def)
qed

lemma all_filled_ok: "all_filled v n es es' \<Longrightarrow> length es' = length es \<and> list_all (entry_ok v) es'"
  by (auto simp: all_filled_def filled_def list_all_length list_all2_conv_all_nth)

text \<open>Reduction to the one backend that is open.\<close>

lemma wpx_writeBatch:
  assumes "list_all (entry_ok v) es" "trunc (f64 (numKeys * 1000000)) = n" "0 < n"
    and "\<And>es' s'. ps_world s' = ps_world s \<Longrightarrow> ps_x s' = ps_x s \<Longrightarrow>
      wpx (store_entries L R g es') F (\<lambda>_. P es') s'"
  shows "wpx (writeBatch L R g numKeys v es) F
    (\<lambda>(k, es') s'. k = length es \<and> all_filled v n es es' \<and> P es' s') s"
  unfolding writeBatch_def
proof (rule wpx_seq)
  show "wpx (on_rng (io_map es (fillEntry numKeys v))) F (\<lambda>es' s'. all_filled v n es es' \<and>
      ps_world s' = ps_world s \<and> ps_x s' = ps_x s) s"
    unfolding wpx_on by (rule wp_wpx [OF wp_fill_entries [OF assms(1-3)]]) simp
qed (auto simp: dest: all_filled_ok intro!: wpx_mono [OF assms(4)])

section \<open>What the libraries promise\<close>

text \<open>
  Badger: a transaction collects what is set in it, and a commit with a nil error applies it.
  Goleveldb: a batch written with a nil error is applied. Bolt and lmdb: if the call returns
  nil, then the closure ran on a transaction on the current contents and returned nil, and
  what it left there is the new contents (earlier attempts have no effect).
\<close>

definition badger_law ::
  "('bt, 'lb, 'tx, 'lt, 'e, 'x) libs \<Rightarrow> ('x \<Rightarrow> contents) \<Rightarrow> ('bt \<Rightarrow> (bytes \<times> bytes option) list) \<Rightarrow> bool" where
  "badger_law L view pend \<longleftrightarrow>
     (\<forall>x t x'. badger_NewTransaction L x = (t, x') \<longrightarrow> view x' = view x \<and> pend t = []) \<and>
     (\<forall>t k v t'. badger_Set L t k v = (None, t') \<longrightarrow> pend t' = pend t @ [(k, Some v)]) \<and>
     (\<forall>t x x'. badger_Commit L t x = (None, x') \<longrightarrow> view x' = apply_ops (pend t) (view x))"

definition leveldb_law ::
  "('bt, 'lb, 'tx, 'lt, 'e, 'x) libs \<Rightarrow> ('x \<Rightarrow> contents) \<Rightarrow> ('lb \<Rightarrow> (bytes \<times> bytes option) list) \<Rightarrow> bool" where
  "leveldb_law L view lops \<longleftrightarrow> lops (leveldb_Batch L) = [] \<and>
     (\<forall>b k v. lops (leveldb_Put L b k v) = lops b @ [(k, Some v)]) \<and>
     (\<forall>b y x x'. leveldb_Write L b y x = (None, x') \<longrightarrow> view x' = apply_ops (lops b) (view x))"

definition bolt_law ::
  "('bt, 'lb, 'tx, 'lt, 'e, 'x) libs \<Rightarrow> ('x \<Rightarrow> contents) \<Rightarrow> ('tx \<Rightarrow> contents) \<Rightarrow> bool" where
  "bolt_law L view txview \<longleftrightarrow>
     (\<forall>f x f'. bolt_Batch L f x = Inl f' \<longrightarrow> (\<exists>t. f t = Inl f')) \<and>
     (\<forall>f x x'. bolt_Batch L f x = Inr (None, x') \<longrightarrow>
        (\<exists>t t'. txview t = view x \<and> f t = Inr (None, t') \<and> view x' = txview t')) \<and>
     (\<forall>t b k v t'. bolt_Put L t b k v = (None, t') \<longrightarrow> txview t' = (txview t)(k \<mapsto> v))"

definition lmdb_law ::
  "('bt, 'lb, 'tx, 'lt, 'e, 'x) libs \<Rightarrow> ('x \<Rightarrow> contents) \<Rightarrow> ('lt \<Rightarrow> contents) \<Rightarrow> bool" where
  "lmdb_law L view txview \<longleftrightarrow>
     (\<forall>f dbi x dbi' x'. lmdb_Update L f dbi x = ((None, dbi'), x') \<longrightarrow>
        (\<exists>t t'. txview t = view x \<and> f dbi t = ((None, dbi'), t') \<and> view x' = txview t')) \<and>
     (\<forall>t d k v fl t'. lmdb_Put L t d k v fl = (None, t') \<longrightarrow> txview t' = (txview t)(k \<mapsto> v))"

text \<open>
  The file system: a directory removed without an error holds no database, making one adds
  none, and neither touches what is open.
\<close>

definition disk_law :: "('bt, 'lb, 'tx, 'lt, 'e, 'x) libs \<Rightarrow> ('e \<Rightarrow> astate) \<Rightarrow> bool" where
  "disk_law L \<alpha> \<longleftrightarrow>
     (\<forall>p e x r e' x'. os_RemoveAll L p (e, x) = (r, (e', x')) \<longrightarrow>
        a_it (\<alpha> e') = a_it (\<alpha> e) \<and> (r = None \<longrightarrow> disk_contents (\<alpha> e') p = Map.empty)) \<and>
     (\<forall>p pm e x r e' x'. os_MkdirAll L p pm (e, x) = (r, (e', x')) \<longrightarrow>
        a_it (\<alpha> e') = a_it (\<alpha> e) \<and> (\<forall>q. disk_contents (\<alpha> e') q = disk_contents (\<alpha> e) q))"

lemma e_ops_simps [simp]:
  "e_ops [] = []" "e_ops (e # es) = (fst (e_op e), Some (snd (e_op e))) # e_ops es"
  by (simp_all add: e_ops_def)

lemma apply_ops_append [simp]: "apply_ops (xs @ ys) m = apply_ops ys (apply_ops xs m)"
  by (induction xs arbitrary: m) auto

lemma wpx_badger_sets:
  assumes "badger_law L view pend" "y_law L"
  shows "wpx (badger_sets L es t) (check_fault L) (\<lambda>t' s'. s' = s \<and> pend t' = pend t @ e_ops es) s"
proof (induction es arbitrary: t)
  case (Cons e es)
  show ?case
    by (cases "badger_Set L t (fst (e_op e)) (snd (e_op e))")
      (use assms in \<open>auto simp: badger_law_def intro!: wpx_mono [OF Cons.IH]\<close>)
qed simp

lemma wpx_write_badger:
  assumes "badger_law L view pend" "y_law L"
  shows "wpx (write_badger L es) (check_fault L)
    (\<lambda>_ s'. ps_world s' = ps_world s \<and> view (ps_x s') = apply_ops (e_ops es) (view (ps_x s))) s"
proof -
  obtain t x where t: "badger_NewTransaction L (ps_x s) = (t, x)" by fastforce
  then have x: "view x = view (ps_x s)" "pend t = []" using assms(1) by (auto simp: badger_law_def)
  show ?thesis
    unfolding write_badger_def
    by (simp add: t, rule wpx_mono [OF wpx_badger_sets [OF assms]])
      (use assms x in \<open>auto simp: badger_law_def split: prod.splits\<close>)
qed

lemma lops_foldl:
  "leveldb_law L view lops \<Longrightarrow>
   lops (foldl (\<lambda>b e. leveldb_Put L b (fst (e_op e)) (snd (e_op e))) b es) = lops b @ e_ops es"
  by (induction es arbitrary: b) (simp_all add: leveldb_law_def)

lemma wpx_write_leveldb:
  assumes "leveldb_law L view lops" "y_law L"
  shows "wpx (write_leveldb L es) (check_fault L)
    (\<lambda>_ s'. ps_world s' = ps_world s \<and> view (ps_x s') = apply_ops (e_ops es) (view (ps_x s))) s"
proof -
  have law: "lops (leveldb_Batch L) = []"
      "\<And>b y x x'. leveldb_Write L b y x = (None, x') \<Longrightarrow> view x' = apply_ops (lops b) (view x)"
    using assms(1) by (auto simp: leveldb_law_def)
  show ?thesis
    using assms(2) by (auto simp: write_leveldb_def Let_def lops_foldl [OF assms(1)] law(1)
        split: prod.splits dest: law(2))
qed

lemma bolt_puts_law:
  "bolt_law L view txview \<Longrightarrow> bolt_puts L b es t = (None, t') \<Longrightarrow> txview t' = apply_ops (e_ops es) (txview t)"
  by (induction L b es t rule: bolt_puts.induct)
    (auto simp: bolt_law_def split: prod.splits option.splits)

lemma wpx_write_bolt:
  assumes "bolt_law L view txview" "y_law L"
  shows "wpx (write_bolt L es) (check_fault L)
    (\<lambda>_ s'. ps_world s' = ps_world s \<and> view (ps_x s') = apply_ops (e_ops es) (view (ps_x s))) s"
proof (cases "bolt_Batch L (bolt_closure L es) (ps_x s)")
  case (Inl f)
  then obtain t where "bolt_closure L es t = Inl f" using assms(1) unfolding bolt_law_def by blast
  then have "check_fault L f" using assms(2)
    by (cases "bolt_Bucket L t ''bench''") (auto simp: bolt_closure_def check_fault_def y_law_def split: option.splits)
  with Inl show ?thesis by (simp add: write_bolt_def)
next
  case (Inr r)
  obtain err x where r: "r = (err, x)" by (cases r)
  have "view x = apply_ops (e_ops es) (view (ps_x s))" if none: "err = None"
  proof -
    have "bolt_Batch L (bolt_closure L es) (ps_x s) = Inr (None, x)" using Inr r none by simp
    then obtain t t' where t: "txview t = view (ps_x s)" "bolt_closure L es t = Inr (None, t')" "view x = txview t'"
      using assms(1) unfolding bolt_law_def by blast
    then show ?thesis
      using bolt_puts_law [OF assms(1)] by (auto simp: bolt_closure_def split: option.splits)
  qed
  with Inr r assms(2) show ?thesis
    by (simp add: write_bolt_def)
qed

lemma lmdb_puts_law:
  "lmdb_law L view txview \<Longrightarrow> lmdb_puts L es d t = ((None, d'), t') \<Longrightarrow>
   txview t' = apply_ops (e_ops es) (txview t)"
  by (induction L es d t rule: lmdb_puts.induct)
    (auto simp: lmdb_law_def split: prod.splits option.splits)

lemma wpx_write_lmdb:
  assumes "lmdb_law L view txview" "y_law L"
  shows "wpx (write_lmdb L d es) (check_fault L)
    (\<lambda>_ s'. ps_world s' = ps_world s \<and> view (ps_x s') = apply_ops (e_ops es) (view (ps_x s))) s"
proof -
  obtain err d' x where u: "lmdb_Update L (lmdb_puts L es) d (ps_x s) = ((err, d'), x)"
    by (metis prod.exhaust)
  have "view x = apply_ops (e_ops es) (view (ps_x s))" if "err = None"
    using assms(1) u that lmdb_puts_law [OF assms(1)] unfolding lmdb_law_def by metis
  with u assms(2) show ?thesis by (simp add: write_lmdb_def)
qed

lemma bnd_unit [simp]: "bnd m (\<lambda>x s. Inr ((), s)) = (m :: ('s, unit) io)"
  by (auto simp: bnd_def fun_eq_iff split: sum.splits)

lemma io_for_map: "io_for (map f xs) body = io_for xs (\<lambda>x. body (f x))"
  by (induction xs) simp_all

text \<open>RocksDB: the calls are those of a batch write through the store, with the check in between.\<close>

lemma wpx_write_rocks:
  assumes "y_law L"
    and "wp (store_op R s (KWrite (e_ops es))) (\<lambda>r w'. (isl r \<longrightarrow> P) \<and>
      (r = Inr None \<longrightarrow> Q () (st\<lparr>ps_world := w'\<rparr>))) (ps_world st)"
  shows "wpx (bnd (write_rocks L R s es) (\<lambda>rb. andthen (on_world (WriteBatch_Destroy rb)) (ret ())))
    (\<lambda>f. check_fault L f \<and> P) Q st"
proof -
  have puts: "io_for (e_ops es) (batch_op R rb) =
      io_for es (\<lambda>e. WriteBatch_Put R rb (fst (e_op e)) (snd (e_op e)))" for rb
    by (simp add: e_ops_def io_for_map batch_op_def)
  from assms(2) show ?thesis
    unfolding write_rocks_def
    by (simp add: store_op.simps puts wpx_check_only [OF assms(1)] del: wpx_check)
      ((erule wp_wpx)+, auto simp: err_outcome_def split: option.splits elim!: wp_wpx,
       erule wpE, simp)
qed

text \<open>With one store open, only its part of \<open>writeBatch\<close> runs.\<close>

lemma store_entries_one:
  "store_entries L R (no_dbs\<lparr>g_rdb := Some s\<rparr>) es =
     bnd (write_rocks L R s es) (\<lambda>rb. andthen (on_world (WriteBatch_Destroy rb)) (ret ()))"
  "store_entries L R (no_dbs\<lparr>g_bdb := True\<rparr>) es = write_badger L es"
  "store_entries L R (no_dbs\<lparr>g_ldb := True\<rparr>) es = write_leveldb L es"
  "store_entries L R (no_dbs\<lparr>g_boltdb := True\<rparr>) es = write_bolt L es"
  "store_entries L R (no_dbs\<lparr>g_lmdbEnv := True, g_lmdbDBI := d\<rparr>) es = write_lmdb L d es"
  by (simp_all add: store_entries_def no_dbs_def io_if_def bnd_assoc)

text \<open>The only fault of a batch on RocksDB: the check of a write the engine rejected.\<close>

definition rejected ::
  "('bt, 'lb, 'tx, 'lt, 'e, 'x) libs \<Rightarrow> ('b, 'f, 'e) rocksdb \<Rightarrow> ('e \<Rightarrow> astate) \<Rightarrow> adb \<Rightarrow> fault \<Rightarrow> bool" where
  "rejected L R \<alpha> db f \<longleftrightarrow> check_fault L f \<and> \<not> (ad_rw db \<and> accepts R \<alpha>)"

lemma wpx_writeBatch_rocks:
  fixes st :: "('b, 'f, 'e, 'x) pstate"
  assumes "rocks_kv R \<alpha> bops" and "y_law L"
    and "c_ok (ps_world st)" and "store_live (ps_world st) s d ro wo"
    and "a_db (\<alpha> (eng (ps_world st))) d = Some db"
    and "list_all (entry_ok v) es" and "trunc (f64 (numKeys * 1000000)) = n" and "0 < n"
  shows "wpx (writeBatch L R (no_dbs\<lparr>g_rdb := Some s\<rparr>) numKeys v es) (rejected L R \<alpha> db)
    (\<lambda>(k, es') st'. k = length es \<and> all_filled v n es es' \<and>
       mem_same (ps_world st) (ps_world st') \<and>
       \<alpha> (eng (ps_world st')) =
         a_write d db (apply_ops (e_ops es') (ad_kv db)) (\<alpha> (eng (ps_world st)))) st"
proof (rule wpx_writeBatch [OF assms(6-8)])
  fix es' and st1 :: "('b, 'f, 'e, 'x) pstate"
  assume st1: "ps_world st1 = ps_world st" "ps_x st1 = ps_x st"
  show "wpx (store_entries L R (no_dbs\<lparr>g_rdb := Some s\<rparr>) es') (rejected L R \<alpha> db)
      (\<lambda>_ st'. mem_same (ps_world st) (ps_world st') \<and> \<alpha> (eng (ps_world st')) =
         a_write d db (apply_ops (e_ops es') (ad_kv db)) (\<alpha> (eng (ps_world st)))) st1"
    unfolding store_entries_one rejected_def
    by (rule wpx_write_rocks [OF assms(2)], unfold st1, rule wp_mono [OF rocks_kv.wp_batch [OF assms(1,3-5)]])
      auto
qed

section \<open>A store as the target of a batch\<close>

text \<open>
  The interface of writeBatch to a store other than RocksDB: a fault in \<open>F\<close>, or the entries end up in
  its contents, in order. Whatever store it is, a batch is then filled and stored.
\<close>

definition batch_stored ::
  "('x \<Rightarrow> contents) \<Rightarrow> int \<Rightarrow> int \<Rightarrow> entry list \<Rightarrow> ('b, 'f, 'e, 'x) pstate \<Rightarrow> nat \<Rightarrow> entry list \<Rightarrow>
     ('b, 'f, 'e, 'x) pstate \<Rightarrow> bool" where
  "batch_stored view v n es st k es' st' \<longleftrightarrow> k = length es \<and> all_filled v n es es' \<and>
     view (ps_x st') = apply_ops (e_ops es') (view (ps_x st))"

locale batch_store =
  fixes L :: "('bt, 'lb, 'tx, 'lt, 'e, 'x) libs" and R :: "('b, 'f, 'e) rocksdb" and g :: dbs
    and view :: "'x \<Rightarrow> contents" and F :: "fault \<Rightarrow> bool"
  assumes store_law: "wpx (store_entries L R g es) F
    (\<lambda>_ s'. view (ps_x s') = apply_ops (e_ops es) (view (ps_x s))) s"
begin

lemma wpx_batch:
  assumes "list_all (entry_ok v) es" "trunc (f64 (numKeys * 1000000)) = n" "0 < n"
  shows "wpx (writeBatch L R g numKeys v es) F (\<lambda>(k, es') st'. batch_stored view v n es st k es' st') st"
  unfolding batch_stored_def by (rule wpx_writeBatch [OF assms], rule wpx_mono [OF store_law]) simp

end

lemma badger_batch_store:
  assumes "badger_law L view pend" "y_law L"
  shows "batch_store L R (no_dbs\<lparr>g_bdb := True\<rparr>) view (check_fault L)"
  by (unfold_locales, unfold store_entries_one, rule wpx_mono [OF wpx_write_badger [OF assms]]) simp

lemma leveldb_batch_store:
  assumes "leveldb_law L view lops" "y_law L"
  shows "batch_store L R (no_dbs\<lparr>g_ldb := True\<rparr>) view (check_fault L)"
  by (unfold_locales, unfold store_entries_one, rule wpx_mono [OF wpx_write_leveldb [OF assms]]) simp

lemma bolt_batch_store:
  assumes "bolt_law L view txview" "y_law L"
  shows "batch_store L R (no_dbs\<lparr>g_boltdb := True\<rparr>) view (check_fault L)"
  by (unfold_locales, unfold store_entries_one, rule wpx_mono [OF wpx_write_bolt [OF assms]]) simp

lemma lmdb_batch_store:
  assumes "lmdb_law L view txview" "y_law L"
  shows "batch_store L R (no_dbs\<lparr>g_lmdbEnv := True, g_lmdbDBI := dbi\<rparr>) view (check_fault L)"
  by (unfold_locales, unfold store_entries_one, rule wpx_mono [OF wpx_write_lmdb [OF assms]]) simp

section \<open>Reference libraries\<close>

text \<open>One association list, newest entry first, behind every library; nothing fails.\<close>

definition ref_libs :: "(kvlist, kvlist, kvlist, kvlist, engine_state, kvlist) libs" where
  "ref_libs = \<lparr>
     y_Check = map_option Fatal,
     y_AssertTrue = (\<lambda>b. if b then None else Some (Fatal ''Assert failed'')),
     os_RemoveAll = (\<lambda>p (e, x). (None, (e\<lparr>e_dirs := kv_del p (e_dirs e)\<rparr>, x))),
     os_MkdirAll = (\<lambda>p pm s. (None, s)),
     options_LoadToRAM = 1,
     options_MemoryMap = 2,
     badger_DefaultOptions = (\<lambda>p. \<lparr>bo_Dir = p, bo_TableLoadingMode = 2, bo_SyncWrites = True, bo_ReadOnly = False\<rparr>),
     badger_Open = (\<lambda>opt x. (None, [])),
     badger_NewTransaction = (\<lambda>x. ([], x)),
     badger_Set = (\<lambda>t k v. (None, (k, v) # t)),
     badger_Commit = (\<lambda>t x. (None, t @ x)),
     badger_Close = (\<lambda>x. ((), x)),
     leveldb_OpenFile = (\<lambda>p x. (None, [])),
     leveldb_Batch = [],
     leveldb_Put = (\<lambda>b k v. (k, v) # b),
     leveldb_Write = (\<lambda>b y x. (None, b @ x)),
     leveldb_Close = (\<lambda>x. ((), x)),
     bolt_DefaultOptions = \<lparr>bolt_ReadOnly = False\<rparr>,
     bolt_Open = (\<lambda>p pm opt x. (None, [])),
     bolt_SetNoSync = (\<lambda>b x. ((), x)),
     bolt_Update = (\<lambda>f x. f x),
     bolt_CreateBucketIfNotExists = (\<lambda>t n. (None, t)),
     bolt_Batch = (\<lambda>f x. f x),
     bolt_Bucket = (\<lambda>t n. Some 1),
     bolt_Put = (\<lambda>t b k v. (None, (k, v) # t)),
     bolt_Close = (\<lambda>x. ((), x)),
     lmdb_NewEnv = (\<lambda>x. (None, [])),
     lmdb_SetMaxDBs = (\<lambda>n x. (None, x)),
     lmdb_SetMapSize = (\<lambda>n x. (None, x)),
     lmdb_Readonly = 131072,
     lmdb_NoReadahead = 8388608,
     lmdb_Open = (\<lambda>p fl pm x. (None, x)),
     lmdb_Update = (\<lambda>f d x. f d x),
     lmdb_CreateDBI = (\<lambda>t n. ((None, 1), t)),
     lmdb_Put = (\<lambda>t d k v fl. (None, (k, v) # t)),
     lmdb_CloseDBI = (\<lambda>d x. ((), x)),
     lmdb_Close = (\<lambda>x. ((), x))\<rparr>"

lemma map_of_as_ops: "map_of x ++ map_of t = apply_ops (map (\<lambda>(k, v). (k, Some v)) (rev t)) (map_of x)"
proof (induction t)
  case (Cons p t)
  obtain a b where p: "p = (a, b)" by (cases p)
  have "map_of (p # t) = (map_of t)(a \<mapsto> b)" by (auto simp: p fun_eq_iff)
  then have "map_of x ++ map_of (p # t) = (map_of x ++ map_of t)(a \<mapsto> b)" by (simp only: map_add_upd)
  moreover have "apply_ops (map (\<lambda>(k, v). (k, Some v)) (rev (p # t))) (map_of x) =
      (apply_ops (map (\<lambda>(k, v). (k, Some v)) (rev t)) (map_of x))(a \<mapsto> b)"
    by (simp add: p)
  ultimately show ?case by (simp only: Cons)
qed simp

lemma ref_laws:
  "y_law ref_libs" "badger_law ref_libs map_of (\<lambda>t. map (\<lambda>(k, v). (k, Some v)) (rev t))"
  "leveldb_law ref_libs map_of (\<lambda>t. map (\<lambda>(k, v). (k, Some v)) (rev t))"
  "bolt_law ref_libs map_of map_of" "lmdb_law ref_libs map_of map_of"
  by (auto simp: y_law_def badger_law_def leveldb_law_def bolt_law_def lmdb_law_def ref_libs_def
      map_of_as_ops fun_upd_def)

interpretation to_leveldb: batch_store ref_libs ref_rocksdb "no_dbs\<lparr>g_ldb := True\<rparr>" map_of "check_fault ref_libs"
  by (rule leveldb_batch_store [OF ref_laws(3,1)])

interpretation to_bolt: batch_store ref_libs ref_rocksdb "no_dbs\<lparr>g_boltdb := True\<rparr>" map_of "check_fault ref_libs"
  by (rule bolt_batch_store [OF ref_laws(4,1)])

interpretation to_lmdb: batch_store ref_libs ref_rocksdb "no_dbs\<lparr>g_lmdbEnv := True, g_lmdbDBI := dbi\<rparr>" map_of "check_fault ref_libs" for dbi
  by (rule lmdb_batch_store [OF ref_laws(5,1)])

text \<open>The reference badger never fails.\<close>

lemma wpx_ref_sets: "wpx (badger_sets ref_libs es t) F Q s = Q (rev (map e_op es) @ t) s"
  by (induction es arbitrary: t) (simp_all add: ref_libs_def check_def)

interpretation to_badger: batch_store ref_libs ref_rocksdb "no_dbs\<lparr>g_bdb := True\<rparr>" map_of "\<lambda>_. False"
proof
  fix es and s :: "((bytes \<times> bytes option) list, table_options, engine_state, kvlist) pstate"
  have "map_of (rev (map e_op es) @ x) = apply_ops (e_ops es) (map_of x)" for x
    by (simp add: map_of_as_ops e_ops_def comp_def split_def rev_map)
  then show "wpx (store_entries ref_libs ref_rocksdb (no_dbs\<lparr>g_bdb := True\<rparr>) es) (\<lambda>_. False)
      (\<lambda>_ s'. map_of (ps_x s') = apply_ops (e_ops es) (map_of (ps_x s))) s"
    by (simp add: store_entries_one write_badger_def wpx_ref_sets) (simp add: ref_libs_def check_def)
qed

lemma ref_disk_law: "disk_law ref_libs ref_abs"
  by (auto simp: disk_law_def ref_libs_def disk_contents_def)

definition rng_one :: rng where
  "rng_one = \<lparr>rg_src = (\<lambda>i. i * 7919), rg_pos = 0, rg_val = 0, rg_left = 0\<rparr>"

definition state_one ::
  "((bytes \<times> bytes option) list, table_options, engine_state, kvlist) pstate" where
  "state_one = \<lparr>ps_world = world_open True, ps_x = [], ps_rng = rng_one\<rparr>"

lemma two_entries: "list_all (entry_ok 4) (replicate 2 (new_entry 4))"
  using new_entry_ok [of 4] by (simp add: list_all_iff)

lemma one_key: "trunc (f64 (1 / 1000000 * 1000000)) = 1"
  using f64_int [of 1] by (simp add: trunc_def)

lemma state_one_facts:
  "c_ok (ps_world state_one)"
  "store_live (ps_world state_one) store_one 1 (def_readoptions ref_rocksdb) \<lparr>sync = False\<rparr>"
  "a_db (ref_abs (eng (ps_world state_one))) 1 =
     Some \<lparr>ad_name = ''db'', ad_rw = True, ad_kv = [''k'' \<mapsto> ''neo'']\<rparr>"
  unfolding state_one_def pstate.simps by (rule store_one_facts)+

section \<open>Properties\<close>

text \<open>
  C14. writeBatch on RocksDB: either the process ends because the engine rejected the batch, which
  an engine that accepts writes to a writable database never does, or all
  entries were filled and are in the store, later entries winning, nothing else changed, no
  memory is left behind, and the number of entries is returned.
\<close>

theorem writeBatch_rocks:
  fixes st :: "('b, 'f, 'e, 'x) pstate"
  assumes "rocks_kv R \<alpha> bops" and "y_law L"
    and "c_ok (ps_world st)" and "store_live (ps_world st) s d ro wo"
    and "a_db (\<alpha> (eng (ps_world st))) d = Some db"
    and "list_all (entry_ok v) es" and "trunc (f64 (numKeys * 1000000)) = n" and "0 < n"
  shows "wpx (writeBatch L R (no_dbs\<lparr>g_rdb := Some s\<rparr>) numKeys v es) (rejected L R \<alpha> db)
    (\<lambda>(k, es') st'. k = length es \<and> all_filled v n es es' \<and>
       mem_same (ps_world st) (ps_world st') \<and>
       \<alpha> (eng (ps_world st')) =
         a_write d db (apply_ops (e_ops es') (ad_kv db)) (\<alpha> (eng (ps_world st)))) st"
  using assms by (rule wpx_writeBatch_rocks)

theorem writeBatch_rocks_witness:
  "wpx (writeBatch ref_libs ref_rocksdb (no_dbs\<lparr>g_rdb := Some store_one\<rparr>) (1 / 1000000) 4
       (replicate 2 (new_entry 4))) (\<lambda>_. False)
     (\<lambda>(k, es') st'. k = 2 \<and> ad_kv (the (a_db (ref_abs (eng (ps_world st'))) 1)) =
        apply_ops (e_ops es') [''k'' \<mapsto> ''neo'']) state_one"
  by (rule wpx_weaken [OF writeBatch_rocks [OF ref.rocks_kv_axioms ref_laws(1) state_one_facts two_entries one_key]])
    (auto simp: rejected_def ref_accepts simp del: ref_abs_simps)



text \<open>
  If \<^verbatim>\<open>main\<close> gets past the opening phase, the option names one of the five stores and exactly
  that store is open; the later test for no store at all never succeeds.
\<close>

lemma open_exactly_one:
  assumes "open_store_for L R which dir st = Inr (g, st')"
  shows "(which, g_bdb g, g_rdb g \<noteq> None, g_boltdb g, g_ldb g, g_lmdbEnv g) \<in>
    {(''badger'', True, False, False, False, False), (''rocksdb'', False, True, False, False, False),
     (''bolt'', False, False, True, False, False), (''leveldb'', False, False, False, True, False),
     (''lmdb'', False, False, False, False, True)}"
  using assms
  by (auto simp: open_store_for_def open_badger_def open_rocks_def open_bolt_def open_leveldb_def
      open_lmdb_def no_dbs_def bnd_eq_Inr split: if_splits option.splits)

end
