(* ===== verification/GoProfile.thy ===== *)
theory GoProfile
  imports Prelude
begin

text \<open>
  The profiles that \<^verbatim>\<open>populate\<close> and \<^verbatim>\<open>randread\<close> start when a flag names one, and stop when \<open>main\<close>
  returns. The package profile is a parameter, \<open>pkg_profile\<close>, over the state outside the program.
\<close>

datatype profile_kind = CPUProfile | MemProfile | MutexProfile | BlockProfile | TraceProfile

record 'x pkg_profile =
  profile_Start :: "profile_kind \<Rightarrow> 'x \<Rightarrow> 'x"
  profile_Stop :: "profile_kind \<Rightarrow> 'x \<Rightarrow> 'x"

text \<open>populate knows four of the profiles, randread the fifth as well.\<close>

definition profile_of_mode :: "bytes \<Rightarrow> profile_kind option" where
  "profile_of_mode mode =
     (if mode = ''cpu'' then Some CPUProfile else if mode = ''mem'' then Some MemProfile
      else if mode = ''mutex'' then Some MutexProfile else if mode = ''block'' then Some BlockProfile else None)"

definition randread_profile :: "bytes \<Rightarrow> profile_kind option" where
  "randread_profile mode = (if mode = ''trace'' then Some TraceProfile else profile_of_mode mode)"

definition start_profile :: "'x pkg_profile \<Rightarrow> profile_kind option \<Rightarrow> 'x \<Rightarrow> 'x" where
  "start_profile P k x = (case k of None \<Rightarrow> x | Some k \<Rightarrow> profile_Start P k x)"

text \<open>Profiles that leave the state alone.\<close>

definition ref_profile :: "'x pkg_profile" where
  "ref_profile = \<lparr>profile_Start = \<lambda>_ x. x, profile_Stop = \<lambda>_ x. x\<rparr>"

end
