(* ===== verification/PopulateRun.thy ===== *)
theory PopulateRun
  imports Populate GoProfile
begin

text \<open>
  The goroutines of \<^verbatim>\<open>populate/main.go\<close>. Each worker loops over: test \<open>written < nw/N\<close>,
  write a batch, add its size to the shared counter, add it to its own total. A step of the
  program is one of these by one worker; workers interleave in any order, and a fault of
  \<open>writeBatch\<close> (a failed \<open>y.Check\<close> exits the process) ends the run. \<open>wg.Wait()\<close> returns
  when the wait group is at zero; \<open>main\<close> adds every worker before it waits, so the initial
  state has all of them added. \<open>populate_program\<close> is the whole process, with the profile and the
  HTTP server.
\<close>

section \<open>The step function and the step relation\<close>

datatype wpc = WTest | WWrote | WAdded | WFinished

record worker =
  wk_pc :: wpc
  wk_written :: rat
  wk_wrote :: rat
  wk_entries :: "entry list"

record 's pmain =
  pm_st :: 's
  pm_workers :: "worker list"
  pm_counter :: "64 word"
  pm_wg :: int

datatype 's pconf = Running "'s pmain" | Exited fault

definition worker_step ::
  "(entry list \<Rightarrow> ('s, nat \<times> entry list) io) \<Rightarrow> rat \<Rightarrow> nat \<Rightarrow> 's pmain \<Rightarrow> 's pconf option" where
  "worker_step wb limit i m =
     (if length (pm_workers m) \<le> i then None
      else let w = pm_workers m ! i in case wk_pc w of
        WTest \<Rightarrow>
          if wk_written w < limit
          then (case wb (wk_entries w) (pm_st m) of
                  Inl f \<Rightarrow> Some (Exited f)
                | Inr ((n, es), st) \<Rightarrow> Some (Running (m\<lparr>pm_st := st, pm_workers := (pm_workers m)
                    [i := w\<lparr>wk_pc := WWrote, wk_wrote := float_of_int (int n), wk_entries := es\<rparr>]\<rparr>)))
          else Some (Running (m\<lparr>pm_workers := (pm_workers m)[i := w\<lparr>wk_pc := WFinished\<rparr>],
                 pm_wg := pm_wg m - 1\<rparr>))
      | WWrote \<Rightarrow> Some (Running (m\<lparr>pm_counter := pm_counter m + of_int (trunc (wk_wrote w)),
            pm_workers := (pm_workers m)[i := w\<lparr>wk_pc := WAdded\<rparr>]\<rparr>))
      | WAdded \<Rightarrow> Some (Running (m\<lparr>pm_workers := (pm_workers m)
            [i := w\<lparr>wk_pc := WTest, wk_written := f64 (wk_written w + wk_wrote w)\<rparr>]\<rparr>))
      | WFinished \<Rightarrow> None)"

inductive pstep ::
  "(entry list \<Rightarrow> ('s, nat \<times> entry list) io) \<Rightarrow> rat \<Rightarrow> 's pconf \<Rightarrow> 's pconf \<Rightarrow> bool"
  for wb limit where
  move: "worker_step wb limit i m = Some c \<Longrightarrow> pstep wb limit (Running m) c"

inductive_cases pstep_RunningE: "pstep wb limit (Running m) c"
inductive_simps pstep_Exited: "pstep wb limit (Exited f) c"

text \<open>A run under an explicit schedule: the indices of the workers that move, in order.\<close>

fun run_schedule ::
  "(entry list \<Rightarrow> ('s, nat \<times> entry list) io) \<Rightarrow> rat \<Rightarrow> nat list \<Rightarrow> 's pconf \<Rightarrow> 's pconf option" where
  "run_schedule wb limit [] c = Some c"
| "run_schedule wb limit (i # is) (Exited f) = None"
| "run_schedule wb limit (i # is) (Running m) = (case worker_step wb limit i m of
     None \<Rightarrow> None | Some c \<Rightarrow> run_schedule wb limit is c)"

definition start_workers :: "nat \<Rightarrow> nat \<Rightarrow> nat \<Rightarrow> worker list" where
  "start_workers N B valueSize = replicate N
     \<lparr>wk_pc = WTest, wk_written = 0, wk_wrote = 0, wk_entries = replicate B (new_entry valueSize)\<rparr>"

definition start_main :: "nat \<Rightarrow> nat \<Rightarrow> nat \<Rightarrow> 's \<Rightarrow> 's pmain" where
  "start_main N B valueSize st = \<lparr>pm_st = st, pm_workers = start_workers N B valueSize,
     pm_counter = 0, pm_wg = int N\<rparr>"

text \<open>\<open>nw := *numKeys*mil\<close> and the bound \<open>nw/float64(N)\<close> of each worker.\<close>

definition nw_of :: "rat \<Rightarrow> rat" where
  "nw_of numKeys = f64 (numKeys * 1000000)"

definition worker_limit :: "rat \<Rightarrow> nat \<Rightarrow> rat" where
  "worker_limit nw N = f64 (nw / float_of_int (int N))"

text \<open>
  \<open>main\<close> under a schedule of the workers: open the store, start 32 workers with 1000 entries
  each, and once the wait group is at zero close the store and report the counter. A negative
  value size panics in the first worker that makes its entries. \<open>None\<close>: the schedule names
  a worker that cannot move, or ends before the wait group is at zero.
\<close>

definition populate_main ::
  "('bt, 'lb, 'tx, 'lt, 'e, 'x) libs \<Rightarrow> ('b, 'f, 'e) rocksdb \<Rightarrow> bytes \<Rightarrow> bytes \<Rightarrow> rat \<Rightarrow> int \<Rightarrow>
     nat list \<Rightarrow> ('b, 'f, 'e, 'x) pstate \<Rightarrow> (fault + 64 word \<times> ('b, 'f, 'e, 'x) pstate) option" where
  "populate_main L R which dir numKeys valueSize sched st =
     (case open_store_for L R which dir st of
        Inl f \<Rightarrow> Some (Inl f)
      | Inr (g, st1) \<Rightarrow>
          if valueSize < 0 then Some (Inl (Panic ''makeslice: len out of range''))
          else case run_schedule (writeBatch L R g numKeys valueSize) (worker_limit (nw_of numKeys) 32)
              sched (Running (start_main 32 1000 (nat valueSize) st1)) of
            None \<Rightarrow> None
          | Some (Exited f) \<Rightarrow> Some (Inl f)
          | Some (Running m) \<Rightarrow>
              if pm_wg m \<noteq> 0 then None
              else case close_stores L R g (pm_st m) of
                Inl f \<Rightarrow> Some (Inl f)
              | Inr (_, st2) \<Rightarrow> Some (Inr (pm_counter m, st2)))"

text \<open>
  The rest of the process. \<open>-profile.mode\<close> starts one of four profiles of the package profile, a
  parameter, and the deferred \<open>Stop\<close> runs when \<open>main\<close> returns. A further goroutine serves HTTP; if
  \<open>ListenAndServe\<close> returns, \<open>log.Fatalf\<close> exits the process: \<open>serve = Some (k, err)\<close> says that it does so
  when the workers have made \<open>k\<close> steps, and has no effect when \<open>main\<close> returns before.
\<close>

definition profiled :: "(profile_kind \<Rightarrow> 'x \<Rightarrow> 'x) \<Rightarrow> bytes \<Rightarrow> ('b, 'f, 'e, 'x) pstate \<Rightarrow> ('b, 'f, 'e, 'x) pstate" where
  "profiled act mode st = (case profile_of_mode mode of None \<Rightarrow> st | Some k \<Rightarrow> st\<lparr>ps_x := act k (ps_x st)\<rparr>)"

definition http_fatal :: "bytes \<Rightarrow> fault" where
  "http_fatal err = Fatal (''While opening http. Error: '' @ err)"

definition populate_serving ::
  "('bt, 'lb, 'tx, 'lt, 'e, 'x) libs \<Rightarrow> ('b, 'f, 'e) rocksdb \<Rightarrow> bytes \<Rightarrow> bytes \<Rightarrow> rat \<Rightarrow> int \<Rightarrow> (nat \<times> bytes) option \<Rightarrow>
     nat list \<Rightarrow> ('b, 'f, 'e, 'x) pstate \<Rightarrow> (fault + 64 word \<times> ('b, 'f, 'e, 'x) pstate) option" where
  "populate_serving L R which dir numKeys valueSize serve sched st = (case serve of
     None \<Rightarrow> populate_main L R which dir numKeys valueSize sched st
   | Some (k, err) \<Rightarrow>
       if length sched < k then populate_main L R which dir numKeys valueSize sched st
       else case open_store_for L R which dir st of
         Inl f \<Rightarrow> Some (Inl f)
       | Inr (g, st1) \<Rightarrow>
           if valueSize < 0 \<and> 0 < k then Some (Inl (Panic ''makeslice: len out of range''))
           else case run_schedule (writeBatch L R g numKeys valueSize) (worker_limit (nw_of numKeys) 32)
               (take k sched) (Running (start_main 32 1000 (nat valueSize) st1)) of
             None \<Rightarrow> None
           | Some (Exited f) \<Rightarrow> Some (Inl f)
           | Some (Running m) \<Rightarrow> Some (Inl (http_fatal err)))"

definition populate_program ::
  "'x pkg_profile \<Rightarrow> ('bt, 'lb, 'tx, 'lt, 'e, 'x) libs \<Rightarrow> ('b, 'f, 'e) rocksdb \<Rightarrow> bytes \<Rightarrow> bytes \<Rightarrow> bytes \<Rightarrow> rat \<Rightarrow> int \<Rightarrow>
     (nat \<times> bytes) option \<Rightarrow> nat list \<Rightarrow> ('b, 'f, 'e, 'x) pstate \<Rightarrow>
     (fault + 64 word \<times> ('b, 'f, 'e, 'x) pstate) option" where
  "populate_program P L R mode which dir numKeys valueSize serve sched st =
     map_option (map_sum id (apsnd (profiled (profile_Stop P) mode)))
       (populate_serving L R which dir numKeys valueSize serve sched (profiled (profile_Start P) mode st))"

section \<open>What holds in every reachable state\<close>

lemma run_schedule_steps: "run_schedule wb limit is c = Some c' \<Longrightarrow> (pstep wb limit)\<^sup>*\<^sup>* c c'"
proof (induction wb limit "is" c rule: run_schedule.induct)
  case (3 wb limit i "is" m)
  then show ?case
    by (auto split: option.splits intro: converse_rtranclp_into_rtranclp pstep.move)
qed simp_all

lemma profiled_same [simp]:
  "ps_world (profiled act mode st) = ps_world st" "ps_rng (profiled act mode st) = ps_rng st"
  by (simp_all add: profiled_def split: option.splits)

text \<open>A run of the process is one of \<open>main\<close>, or the HTTP server has ended it.\<close>

lemma populate_serving_cases:
  assumes "populate_serving L R which dir numKeys (int v) serve sched st = Some res"
  shows "(\<exists>k err. serve = Some (k, err) \<and> k \<le> length sched \<and> res = Inl (http_fatal err)) \<or>
    (\<exists>sched'. populate_main L R which dir numKeys (int v) sched' st = Some res)"
proof (cases "\<exists>k err. serve = Some (k, err) \<and> k \<le> length sched")
  case False
  with assms have "populate_main L R which dir numKeys (int v) sched st = Some res"
    by (auto simp: populate_serving_def split: option.splits if_splits)
  then show ?thesis by blast
next
  case True
  then obtain k err where serve: "serve = Some (k, err)" "k \<le> length sched" by blast
  show ?thesis
  proof (cases "open_store_for L R which dir st")
    case (Inl f)
    with assms serve show ?thesis by (simp add: populate_serving_def populate_main_def)
  next
    case (Inr r)
    obtain g st1 where r: "r = (g, st1)" by fastforce
    obtain c where c: "run_schedule (writeBatch L R g numKeys (int v)) (worker_limit (nw_of numKeys) 32) (take k sched)
        (Running (start_main 32 1000 v st1)) = Some c"
      using assms serve Inr r by (auto simp: populate_serving_def split: option.splits)
    show ?thesis
    proof (cases c)
      case (Running m)
      with assms serve Inr r c show ?thesis by (simp add: populate_serving_def)
    next
      case (Exited f)
      with assms serve Inr r c have "populate_main L R which dir numKeys (int v) (take k sched) st = Some res"
        by (simp add: populate_serving_def populate_main_def)
      then show ?thesis by blast
    qed
  qed
qed

lemma populate_program_cases:
  assumes "populate_program P L R mode which dir numKeys (int v) serve sched st = Some res"
  obtains (served) k err where "serve = Some (k, err)" "k \<le> length sched" "res = Inl (http_fatal err)"
  | (ran) sched' res' where "populate_main L R which dir numKeys (int v) sched' (profiled (profile_Start P) mode st) = Some res'"
      "res = map_sum id (apsnd (profiled (profile_Stop P) mode)) res'"
proof -
  obtain res' where res': "populate_serving L R which dir numKeys (int v) serve sched (profiled (profile_Start P) mode st) = Some res'"
      "res = map_sum id (apsnd (profiled (profile_Stop P) mode)) res'"
    using assms by (auto simp: populate_program_def)
  show thesis
    using populate_serving_cases [OF res'(1)] served ran res'(2) by auto
qed

text \<open>A run of \<open>main\<close> whose store could be opened: a worker ends the process, or the store is closed.\<close>

lemma populate_main_cases:
  assumes "open_store_for L R which dir st = Inr (g, st1)" "populate_main L R which dir numKeys (int v) sched st = Some res"
  obtains (exits) f where "(pstep (writeBatch L R g numKeys (int v)) (worker_limit (nw_of numKeys) 32))\<^sup>*\<^sup>*
      (Running (start_main 32 1000 v st1)) (Exited f)" "res = Inl f"
  | (closes) m where "(pstep (writeBatch L R g numKeys (int v)) (worker_limit (nw_of numKeys) 32))\<^sup>*\<^sup>*
      (Running (start_main 32 1000 v st1)) (Running m)" "pm_wg m = 0"
      "res = (case close_stores L R g (pm_st m) of Inl f \<Rightarrow> Inl f | Inr (_, st2) \<Rightarrow> Inr (pm_counter m, st2))"
proof -
  obtain c where c: "run_schedule (writeBatch L R g numKeys (int v)) (worker_limit (nw_of numKeys) 32) sched
      (Running (start_main 32 1000 v st1)) = Some c"
    using assms by (auto simp: populate_main_def split: option.splits)
  show thesis
    using assms c run_schedule_steps [OF c] that
    by (cases c) (auto simp: populate_main_def split: if_splits sum.splits)
qed

text \<open>The number of rounds of a worker: the least with \<open>limit \<le> B * rounds\<close>.\<close>

definition rounds :: "nat \<Rightarrow> rat \<Rightarrow> nat" where
  "rounds B limit = nat \<lceil>limit / of_nat B\<rceil>"

lemma rounds_less_iff: "0 < B \<Longrightarrow> c < rounds B limit \<longleftrightarrow> of_nat (B * c) < limit"
proof -
  assume B: "0 < B"
  have "c < rounds B limit \<longleftrightarrow> int c < \<lceil>limit / of_nat B\<rceil>"
    by (auto simp: rounds_def zless_nat_conj)
  also have "\<dots> \<longleftrightarrow> of_nat c < limit / (of_nat B :: rat)"
    by (metis less_ceiling_iff of_int_of_nat_eq)
  also have "\<dots> \<longleftrightarrow> of_nat (B * c) < limit" using B by (simp add: field_simps)
  finally show ?thesis .
qed

text \<open>A worker that has completed \<open>c\<close> rounds of \<open>B\<close> entries.\<close>

definition worker_at :: "nat \<Rightarrow> rat \<Rightarrow> worker \<Rightarrow> nat \<Rightarrow> bool" where
  "worker_at B limit w c \<longleftrightarrow> wk_written w = of_nat (B * c) \<and> length (wk_entries w) = B \<and>
     c \<le> rounds B limit \<and>
     (wk_pc w = WWrote \<or> wk_pc w = WAdded \<longrightarrow> c < rounds B limit \<and> wk_wrote w = of_nat B) \<and>
     (wk_pc w = WFinished \<longrightarrow> c = rounds B limit)"

definition done_of :: "nat \<Rightarrow> worker \<Rightarrow> nat" where
  "done_of B w = nat (trunc (wk_written w)) div B"

definition added_of :: "nat \<Rightarrow> worker \<Rightarrow> nat" where
  "added_of B w = B * done_of B w + (if wk_pc w = WAdded then B else 0)"

definition run_inv :: "nat \<Rightarrow> rat \<Rightarrow> 's pmain \<Rightarrow> bool" where
  "run_inv B limit m \<longleftrightarrow>
     (\<forall>w \<in> set (pm_workers m). worker_at B limit w (done_of B w)) \<and>
     pm_counter m = of_nat (sum_list (map (added_of B) (pm_workers m))) \<and>
     pm_wg m = int (length (filter (\<lambda>w. wk_pc w \<noteq> WFinished) (pm_workers m)))"

definition potential :: "nat \<Rightarrow> rat \<Rightarrow> worker \<Rightarrow> nat" where
  "potential B limit w = (case wk_pc w of
     WTest \<Rightarrow> 3 * (rounds B limit - done_of B w) + 1
   | WWrote \<Rightarrow> 3 * (rounds B limit - done_of B w)
   | WAdded \<Rightarrow> 3 * (rounds B limit - done_of B w) - 1
   | WFinished \<Rightarrow> 0)"

definition run_potential :: "nat \<Rightarrow> rat \<Rightarrow> 's pmain \<Rightarrow> nat" where
  "run_potential B limit m = sum_list (map (potential B limit) (pm_workers m))"

lemma done_of_at: "0 < B \<Longrightarrow> worker_at B limit w c \<Longrightarrow> done_of B w = c"
  by (simp add: worker_at_def done_of_def trunc_def floor_of_nat flip: of_nat_mult)

lemma length_filter_update:
  assumes "i < length xs" "P (xs ! i)"
  shows "length (filter P xs) = (if P x then 0 else 1) + length (filter P (xs[i := x]))"
  using assms by (induction xs arbitrary: i) (auto split: nat.splits simp: nth_Cons')

text \<open>Moving one worker keeps the invariant, lowers the potential and never lowers the counter.\<close>

definition all_added :: "nat \<Rightarrow> 's pmain \<Rightarrow> nat" where
  "all_added B m = sum_list (map (added_of B) (pm_workers m))"

definition advanced :: "nat \<Rightarrow> rat \<Rightarrow> 's pmain \<Rightarrow> 's pmain \<Rightarrow> bool" where
  "advanced B limit m m' \<longleftrightarrow> run_inv B limit m' \<and> run_potential B limit m' < run_potential B limit m \<and>
     all_added B m \<le> all_added B m'"

lemma run_inv_update:
  assumes inv: "run_inv B limit m" and i: "i < length (pm_workers m)"
    and pc: "wk_pc (pm_workers m ! i) \<noteq> WFinished"
    and at: "worker_at B limit w' (done_of B w')"
    and added: "added_of B w' = added_of B (pm_workers m ! i) + \<delta>"
    and pot: "potential B limit w' < potential B limit (pm_workers m ! i)"
    and m': "pm_workers m' = (pm_workers m)[i := w']" "pm_counter m' = pm_counter m + of_nat \<delta>"
      "pm_wg m' = pm_wg m - (if wk_pc w' = WFinished then 1 else 0)"
  shows "advanced B limit m m'"
proof -
  let ?ws = "pm_workers m"
  have "set (?ws[i := w']) \<subseteq> insert w' (set ?ws)" by (rule set_update_subset_insert)
  with inv at have workers: "\<forall>w \<in> set (?ws[i := w']). worker_at B limit w (done_of B w)"
    by (auto simp: run_inv_def)
  have sum: "sum_list (map (added_of B) (?ws[i := w'])) = sum_list (map (added_of B) ?ws) + \<delta>"
    using sum_map_update [OF i, of "added_of B" w'] added by simp
  with inv m'(2) have counter: "pm_counter m' = of_nat (sum_list (map (added_of B) (?ws[i := w'])))"
    by (simp add: run_inv_def)
  have "pm_wg m' = int (length (filter (\<lambda>w. wk_pc w \<noteq> WFinished) (?ws[i := w'])))"
    using length_filter_update [OF i, of "\<lambda>w. wk_pc w \<noteq> WFinished" w'] pc inv m'(3)
    by (auto simp: run_inv_def)
  moreover have "run_potential B limit m' < run_potential B limit m"
    using sum_map_update [OF i, of "potential B limit" w'] pot by (simp add: run_potential_def m'(1))
  ultimately show ?thesis using workers counter sum by (simp add: advanced_def all_added_def run_inv_def m'(1))
qed

lemma f64_add_small:
  "a + b \<le> 2 ^ 53 \<Longrightarrow> f64 (of_nat a + of_nat b) = of_nat (a + b)"
proof -
  assume "a + b \<le> 2 ^ 53"
  then have "int (a + b) \<le> 2 ^ 53" by simp
  then have "f64 (of_int (int (a + b))) = of_int (int (a + b))" by (intro f64_int) simp
  then show ?thesis by simp
qed

lemma potential_pos:
  assumes "run_inv B limit m" "i < length (pm_workers m)" "wk_pc (pm_workers m ! i) \<noteq> WFinished"
  shows "0 < run_potential B limit m"
proof -
  let ?w = "pm_workers m ! i"
  have "worker_at B limit ?w (done_of B ?w)" using assms(1,2) by (simp add: run_inv_def)
  then have "0 < potential B limit ?w"
    using assms(3) by (auto simp: worker_at_def potential_def split: wpc.splits)
  moreover have "potential B limit ?w \<le> run_potential B limit m"
    unfolding run_potential_def using assms(2) by (intro member_le_sum_list) auto
  ultimately show ?thesis by linarith
qed

lemma worker_step_runs:
  assumes "i < length (pm_workers m)" "wk_pc (pm_workers m ! i) \<noteq> WFinished"
    and "wb (wk_entries (pm_workers m ! i)) (pm_st m) = Inr ((n, es), st)"
  shows "\<exists>m' w'. worker_step wb limit i m = Some (Running m') \<and> pm_workers m' = (pm_workers m)[i := w'] \<and>
    (wk_entries w' = wk_entries (pm_workers m ! i) \<or> wk_entries w' = es) \<and>
    (pm_st m' = pm_st m \<or> pm_st m' = st)"
proof (cases "wk_pc (pm_workers m ! i)")
  case WTest
  with assms show ?thesis
    by (cases "wk_written (pm_workers m ! i) < limit"; simp add: worker_step_def Let_def)
      (rule exI, rule conjI, rule refl, simp)+
qed (use assms in \<open>simp_all add: worker_step_def Let_def\<close>,
    (rule exI, rule conjI, rule refl, simp)+)

text \<open>
  What \<open>main\<close> relies on of \<open>writeBatch\<close>: it returns the number of entries, and the entries
  stay as many.
\<close>

locale batch_writer =
  fixes wb :: "entry list \<Rightarrow> ('s, nat \<times> entry list) io"
  assumes wb_law: "wb es st = Inr ((n, es'), st') \<Longrightarrow> n = length es \<and> length es' = length es"
begin

lemma step_test:
  assumes B: "0 < B" "B \<le> 2 ^ 52" and inv: "run_inv B limit m" and i: "i < length (pm_workers m)"
    and step: "worker_step wb limit i m = Some (Running m')" and test: "wk_pc (pm_workers m ! i) = WTest"
  shows "advanced B limit m m'"
proof -
  define w where "w = pm_workers m ! i"
  define c where "c = done_of B w"
  have at: "worker_at B limit w c" using inv i by (simp add: run_inv_def w_def c_def)
  note upd = run_inv_update [OF inv i, folded w_def] and lt = rounds_less_iff [OF B(1), of c limit]
  show ?thesis
  proof (cases "wk_written w < limit")
    case True
    then obtain n es st where wb: "wb (wk_entries w) (pm_st m) = Inr ((n, es), st)"
      and m': "m' = m\<lparr>pm_st := st, pm_workers := (pm_workers m)
        [i := w\<lparr>wk_pc := WWrote, wk_wrote := float_of_int (int n), wk_entries := es\<rparr>]\<rparr>"
      using step i test by (auto simp: worker_step_def w_def [symmetric] Let_def split: sum.splits prod.splits)
    let ?w = "w\<lparr>wk_pc := WWrote, wk_wrote := float_of_int (int n), wk_entries := es\<rparr>"
    have n: "n = B" "length es = B" using wb_law [OF wb] at by (auto simp: worker_at_def)
    have "worker_at B limit ?w c"
      using at True lt n f64_add_small [of B 0] B(2) by (auto simp: worker_at_def float_of_int_def)
    moreover from this have "done_of B ?w = c" by (rule done_of_at [OF B(1)])
    ultimately show ?thesis using test
      by (intro upd [of ?w 0]) (simp_all add: m' added_of_def potential_def c_def w_def)
  next
    case False
    then have m': "m' = m\<lparr>pm_workers := (pm_workers m)[i := w\<lparr>wk_pc := WFinished\<rparr>], pm_wg := pm_wg m - 1\<rparr>"
      using step i test by (auto simp: worker_step_def w_def [symmetric] Let_def)
    let ?w = "w\<lparr>wk_pc := WFinished\<rparr>"
    have "worker_at B limit ?w c"
      using at False lt by (auto simp: worker_at_def)
    moreover from this have "done_of B ?w = c" by (rule done_of_at [OF B(1)])
    ultimately show ?thesis using test
      by (intro upd [of ?w 0]) (simp_all add: m' added_of_def potential_def c_def w_def)
  qed
qed

lemma step_wrote:
  assumes B: "0 < B" and inv: "run_inv B limit m" and i: "i < length (pm_workers m)"
    and step: "worker_step wb limit i m = Some (Running m')" and wrote: "wk_pc (pm_workers m ! i) = WWrote"
  shows "advanced B limit m m'"
proof -
  define w where "w = pm_workers m ! i"
  define c where "c = done_of B w"
  have at: "worker_at B limit w c" using inv i by (simp add: run_inv_def w_def c_def)
  have m': "m' = m\<lparr>pm_counter := pm_counter m + of_int (trunc (wk_wrote w)),
      pm_workers := (pm_workers m)[i := w\<lparr>wk_pc := WAdded\<rparr>]\<rparr>"
    using step i wrote by (auto simp: worker_step_def w_def [symmetric] Let_def)
  let ?w = "w\<lparr>wk_pc := WAdded\<rparr>"
  have "worker_at B limit ?w c" and "wk_wrote w = of_nat B" "c < rounds B limit"
    using at wrote by (auto simp: worker_at_def w_def)
  moreover from this have "done_of B ?w = c" by (intro done_of_at [OF B])
  moreover have "trunc (of_nat B) = int B" by (simp add: trunc_def floor_of_nat)
  ultimately show ?thesis using wrote
    by (intro run_inv_update [OF inv i, folded w_def, of ?w B]) (simp_all add: m' added_of_def potential_def c_def w_def)
qed

lemma step_added:
  assumes B: "0 < B" "B \<le> 2 ^ 52" and limit: "limit \<le> 2 ^ 52"
    and inv: "run_inv B limit m" and i: "i < length (pm_workers m)"
    and step: "worker_step wb limit i m = Some (Running m')" and added: "wk_pc (pm_workers m ! i) = WAdded"
  shows "advanced B limit m m'"
proof -
  define w where "w = pm_workers m ! i"
  define c where "c = done_of B w"
  have at: "worker_at B limit w c" using inv i by (simp add: run_inv_def w_def c_def)
  have m': "m' = m\<lparr>pm_workers := (pm_workers m)
      [i := w\<lparr>wk_pc := WTest, wk_written := f64 (wk_written w + wk_wrote w)\<rparr>]\<rparr>"
    using step i added by (auto simp: worker_step_def w_def [symmetric] Let_def)
  let ?w = "w\<lparr>wk_pc := WTest, wk_written := f64 (wk_written w + wk_wrote w)\<rparr>"
  have c: "c < rounds B limit" and w: "wk_written w = of_nat (B * c)" "wk_wrote w = of_nat B"
    using at added by (auto simp: worker_at_def w_def)
  from c rounds_less_iff [OF B(1), of c limit] limit have "(of_nat (B * c) :: rat) < 2 ^ 52" by linarith
  then have "B * c < 2 ^ 52" by (metis of_nat_less_iff of_nat_numeral of_nat_power)
  with B(2) have "f64 (wk_written w + wk_wrote w) = of_nat (B * Suc c)"
    unfolding w using f64_add_small [of "B * c" B] by (simp add: algebra_simps)
  with at added c have "worker_at B limit ?w (Suc c)"
    by (auto simp: worker_at_def)
  moreover from this have "done_of B ?w = Suc c" by (rule done_of_at [OF B(1)])
  ultimately show ?thesis using added c
    by (intro run_inv_update [OF inv i, folded w_def, of ?w 0]) (simp_all add: m' added_of_def potential_def c_def w_def)
qed

lemma step_advances:
  assumes "0 < B" "B \<le> 2 ^ 52" "limit \<le> 2 ^ 52" "run_inv B limit m" "worker_step wb limit i m = Some (Running m')"
  shows "advanced B limit m m'"
proof -
  have i: "i < length (pm_workers m)" using assms(5) by (auto simp: worker_step_def split: if_splits)
  show ?thesis
  proof (cases "wk_pc (pm_workers m ! i)")
    case WFinished
    then show ?thesis using assms(5) i by (simp add: worker_step_def Let_def)
  qed (use step_test [OF assms(1,2,4) i assms(5)] step_wrote [OF assms(1,4) i assms(5)]
      step_added [OF assms(1-4) i assms(5)] in auto)
qed

lemmas step_inv = step_advances [unfolded advanced_def]

text \<open>Every reachable running state satisfies the invariant.\<close>

lemma reachable_inv:
  assumes "0 < B" "B \<le> 2 ^ 52" "limit \<le> 2 ^ 52" "run_inv B limit m0"
    and "(pstep wb limit)\<^sup>*\<^sup>* (Running m0) c"
  shows "case c of Running m \<Rightarrow> run_inv B limit m | Exited f \<Rightarrow> True"
  using assms(5)
proof (induction rule: rtranclp_induct)
  case base
  then show ?case using assms(4) by simp
next
  case (step c c')
  show ?case
  proof (cases c)
    case (Running m)
    then obtain i where "worker_step wb limit i m = Some c'"
      using step.hyps(2) by (auto elim: pstep_RunningE)
    with Running step.IH step_inv [OF assms(1-3), of m i] show ?thesis
      by (cases c') auto
  qed (use step.hyps(2) in \<open>simp add: pstep_Exited\<close>)
qed

text \<open>No run is longer than the initial potential (and one step more if it exits).\<close>

lemma run_bounded:
  assumes "0 < B" "B \<le> 2 ^ 52" "limit \<le> 2 ^ 52" "run_inv B limit m0"
    and "(pstep wb limit ^^ n) (Running m0) c"
  shows "n \<le> run_potential B limit m0 \<and>
    (case c of Running m \<Rightarrow> run_inv B limit m \<and> run_potential B limit m + n \<le> run_potential B limit m0
     | Exited f \<Rightarrow> True)"
  using assms(5)
proof (induction n arbitrary: c)
  case 0
  then show ?case using assms(4) by auto
next
  case (Suc n)
  then obtain c1 where c1: "(pstep wb limit ^^ n) (Running m0) c1" "pstep wb limit c1 c" by auto
  note IH = Suc.IH [OF c1(1)]
  show ?case
  proof (cases c1)
    case (Running m)
    then obtain i where st: "worker_step wb limit i m = Some c"
      using c1(2) by (auto elim: pstep_RunningE)
    then have "i < length (pm_workers m)" "wk_pc (pm_workers m ! i) \<noteq> WFinished"
      by (auto simp: worker_step_def Let_def split: if_splits)
    with IH Running have pos: "0 < run_potential B limit m" by (auto intro: potential_pos)
    show ?thesis using IH Running st pos step_inv [OF assms(1-3), of m i]
      by (cases c) auto
  qed (use c1(2) in \<open>simp add: pstep_Exited\<close>)
qed

text \<open>As long as the wait group is not at zero, some worker can move.\<close>

lemma progress:
  assumes "run_inv B limit m" "pm_wg m \<noteq> 0"
  shows "\<exists>c. pstep wb limit (Running m) c"
proof -
  from assms obtain i where i: "i < length (pm_workers m)" "wk_pc (pm_workers m ! i) \<noteq> WFinished"
    by (auto simp: run_inv_def filter_empty_conv in_set_conv_nth)
  then have "\<exists>c. worker_step wb limit i m = Some c"
    by (cases "wk_pc (pm_workers m ! i)")
      (auto simp: worker_step_def Let_def split: sum.splits)
  then show ?thesis by (auto intro: pstep.move)
qed

text \<open>If no batch faults, the workers reach the end.\<close>

lemma completes:
  assumes B: "0 < B" "B \<le> 2 ^ 52" "limit \<le> 2 ^ 52"
    and total: "\<And>es st. E es \<Longrightarrow> I st \<Longrightarrow> \<exists>n es' st'. wb es st = Inr ((n, es'), st') \<and> E es' \<and> I st'"
    and "run_inv B limit m" "\<forall>w \<in> set (pm_workers m). E (wk_entries w)" "I (pm_st m)"
  shows "\<exists>m'. (pstep wb limit)\<^sup>*\<^sup>* (Running m) (Running m') \<and> pm_wg m' = 0"
  using assms(5-)
proof (induction "run_potential B limit m" arbitrary: m rule: less_induct)
  case less
  show ?case
  proof (cases "pm_wg m = 0")
    case False
    with less.prems(1) obtain i where i: "i < length (pm_workers m)" "wk_pc (pm_workers m ! i) \<noteq> WFinished"
      by (auto simp: run_inv_def filter_empty_conv in_set_conv_nth)
    let ?w = "pm_workers m ! i"
    have "E (wk_entries ?w)" using less.prems(2) i(1) by simp
    from total [OF this less.prems(3)] obtain n es st
      where wb: "wb (wk_entries ?w) (pm_st m) = Inr ((n, es), st)" "E es" "I st" by blast
    from worker_step_runs [where wb = wb and limit = limit, OF i wb(1)] obtain m1 w' where
      m1: "worker_step wb limit i m = Some (Running m1)" "pm_workers m1 = (pm_workers m)[i := w']"
        "E (wk_entries w')" "I (pm_st m1)"
      using wb(2,3) \<open>E (wk_entries ?w)\<close> less.prems(3) by auto
    note inv1 = step_inv [OF B less.prems(1) m1(1)]
    have "\<forall>w \<in> set (pm_workers m1). E (wk_entries w)"
      using m1(2,3) less.prems(2) by (auto dest!: subsetD [OF set_update_subset_insert])
    with less.hyps [of m1] inv1 m1(4) obtain m' where
      "(pstep wb limit)\<^sup>*\<^sup>* (Running m1) (Running m')" "pm_wg m' = 0" by blast
    with m1(1) show ?thesis by (blast intro: converse_rtranclp_into_rtranclp pstep.move)
  qed auto
qed

text \<open>When \<open>wg.Wait()\<close> returns, the counter holds what all workers wrote.\<close>

lemma final_counter:
  assumes "0 < B" "run_inv B limit m" "pm_wg m = 0"
  shows "pm_counter m = of_nat (length (pm_workers m) * B * rounds B limit)"
proof -
  have "added_of B w = B * rounds B limit" if "w \<in> set (pm_workers m)" for w
  proof -
    have "worker_at B limit w (done_of B w)" "wk_pc w = WFinished"
      using assms(2,3) that by (auto simp: run_inv_def filter_empty_conv)
    then show ?thesis by (simp add: worker_at_def added_of_def)
  qed
  then have "sum_list (map (added_of B) (pm_workers m)) = length (pm_workers m) * (B * rounds B limit)"
    by (simp add: sum_list_triv cong: map_cong)
  then show ?thesis using assms(2) by (simp add: run_inv_def mult.assoc)
qed

end

lemma start_inv: "0 < B \<Longrightarrow> run_inv B limit (start_main N B valueSize st)"
  by (auto simp: run_inv_def start_main_def start_workers_def worker_at_def added_of_def done_of_def
      trunc_def sum_list_replicate)

lemma start_potential:
  "run_potential B limit (start_main N B valueSize st) = N * (3 * rounds B limit + 1)"
  by (simp add: run_potential_def start_main_def start_workers_def potential_def done_of_def trunc_def
      sum_list_replicate)

lemma workers_length:
  "(pstep wb limit)\<^sup>*\<^sup>* c0 c \<Longrightarrow> c0 = Running m0 \<Longrightarrow>
   case c of Running m \<Rightarrow> length (pm_workers m) = length (pm_workers m0) | Exited f \<Rightarrow> True"
proof (induction rule: rtranclp_induct)
  case (step c c')
  then show ?case
    by (cases c) (auto simp: pstep_Exited worker_step_def Let_def elim!: pstep_RunningE
        split: if_splits wpc.splits sum.splits prod.splits)
qed simp

section \<open>writeBatch\<close>

lemma io_map_length: "io_map xs f s = Inr (ys, s') \<Longrightarrow> length ys = length xs"
  by (induction xs arbitrary: s ys) (auto simp: bnd_eq_Inr)

interpretation populate: batch_writer "writeBatch L R g numKeys valueSize" for L R g numKeys valueSize
proof
  fix es st n es' st'
  assume "writeBatch L R g numKeys valueSize es st = Inr ((n, es'), st')"
  then show "n = length es \<and> length es' = length es"
    by (auto simp: writeBatch_def bnd_eq_Inr on_rng_def split: sum.splits dest: io_map_length)
qed

section \<open>The total\<close>

text \<open>Dividing by 32 is exact, so a worker's bound is a 32nd of the total.\<close>

lemma worker_limit_32: "worker_limit (nw_of numKeys) 32 = nw_of numKeys / 32"
proof -
  have "float_of_int 32 = (2 :: rat) ^ 5" using f64_int [of 32] by (simp add: float_of_int_def)
  then show ?thesis using f64_div_pow2 [of "numKeys * 1000000" 5] by (simp add: worker_limit_def nw_of_def)
qed

lemma rounds_bounds:
  assumes "0 < B"
  shows "limit \<le> of_nat (B * rounds B limit)" "0 \<le> limit \<Longrightarrow> of_nat (B * rounds B limit) < limit + of_nat B"
proof -
  show "limit \<le> of_nat (B * rounds B limit)"
    using rounds_less_iff [OF assms, of "rounds B limit" limit] by simp
  assume "0 \<le> limit"
  show "of_nat (B * rounds B limit) < limit + of_nat B"
  proof (cases "rounds B limit")
    case 0
    with \<open>0 \<le> limit\<close> assms show ?thesis by simp
  next
    case (Suc c)
    with rounds_less_iff [OF assms, of c limit] have "of_nat (B * c) < limit" by simp
    then show ?thesis by (simp add: Suc algebra_simps)
  qed
qed

text \<open>Completion when every batch succeeds, for any bound and any number of workers.\<close>

lemma dry_batch:
  assumes "list_all (entry_ok v) es" "trunc (f64 (numKeys * 1000000)) = n" "0 < n"
  shows "\<exists>k es' st'. writeBatch L R no_dbs numKeys v es st = Inr ((k, es'), st') \<and> list_all (entry_ok v) es'"
proof -
  have "wp (io_map es (fillEntry numKeys v)) (\<lambda>ys g'. True \<and> list_all2 (filled v n) es ys) (ps_rng st)"
    by (rule wp_io_map) (use assms in \<open>auto simp: list_all_iff intro!: wp_mono [OF wp_fillEntry]\<close>)
  then obtain ys g' where ys: "io_map es (fillEntry numKeys v) (ps_rng st) = Inr (ys, g')"
      "list_all2 (filled v n) es ys" by (auto elim: wpE)
  then have "list_all (entry_ok v) ys"
    by (auto simp: filled_def list_all_length list_all2_conv_all_nth)
  with ys(1) show ?thesis
    by (simp add: writeBatch_def store_entries_def no_dbs_def on_rng_def bnd_def io_if_def)
qed

lemma nw_of_nonneg: "trunc (nw_of numKeys) = n \<Longrightarrow> 0 < n \<Longrightarrow> 0 \<le> nw_of numKeys"
  using zero_le_floor [of "- nw_of numKeys"] by (auto simp: trunc_def split: if_splits)

lemma final_total:
  assumes "0 \<le> nw_of numKeys" and "nw_of numKeys \<le> 2 ^ 57"
    and "(pstep (writeBatch L R g numKeys (int v)) (worker_limit (nw_of numKeys) 32))\<^sup>*\<^sup>*
      (Running (start_main 32 1000 v st)) (Running m)"
    and "pm_wg m = 0"
  shows "\<exists>T. pm_counter m = of_nat T \<and> nw_of numKeys \<le> of_nat T \<and> of_nat T < nw_of numKeys + 32000"
proof -
  let ?limit = "worker_limit (nw_of numKeys) 32"
  let ?r = "rounds 1000 ?limit"
  have limit: "nw_of numKeys = 32 * ?limit" "?limit \<le> 2 ^ 52" "0 \<le> ?limit"
    using assms(1,2) by (simp_all add: worker_limit_32)
  have "run_inv 1000 ?limit m"
    using populate.reachable_inv [OF _ _ limit(2) start_inv assms(3)] by simp
  moreover have "length (pm_workers m) = 32"
    using workers_length [OF assms(3) refl] by (simp add: start_main_def start_workers_def)
  ultimately have "pm_counter m = of_nat (32 * 1000 * rounds 1000 ?limit)"
    using populate.final_counter [of 1000 ?limit m] assms(4) by simp
  moreover have "?limit \<le> 1000 * of_nat ?r" "1000 * of_nat ?r < ?limit + 1000"
    using rounds_bounds [of 1000 ?limit] limit(3) by simp_all
  then have "nw_of numKeys \<le> of_nat (32 * 1000 * ?r)" "of_nat (32 * 1000 * ?r) < nw_of numKeys + 32000"
    using limit(1) unfolding of_nat_mult of_nat_numeral by linarith+
  ultimately show ?thesis by blast
qed

lemma nw_of_one: "nw_of (1 / 1000000) = 1"
  using f64_int [of 1] by (simp add: nw_of_def)

text \<open>
  C13. populate ends: no run of the workers has more than \<open>32 * (3 * rounds + 1)\<close> steps, and
  as long as the wait group is not at zero some worker can move.
\<close>

theorem populate_terminates:
  assumes "nw_of numKeys \<le> 2 ^ 57"
    and "(pstep (writeBatch L R g numKeys (int v)) (worker_limit (nw_of numKeys) 32) ^^ n)
      (Running (start_main 32 1000 v st)) c"
  shows "n \<le> 32 * (3 * rounds 1000 (worker_limit (nw_of numKeys) 32) + 1) \<and>
    (case c of Exited f \<Rightarrow> True | Running m \<Rightarrow> pm_wg m = 0 \<or>
       (\<exists>c'. pstep (writeBatch L R g numKeys (int v)) (worker_limit (nw_of numKeys) 32) (Running m) c'))"
proof -
  let ?limit = "worker_limit (nw_of numKeys) 32"
  have "?limit \<le> 2 ^ 52" using assms(1) by (simp add: worker_limit_32)
  from populate.run_bounded [OF _ _ this start_inv assms(2)]
  show ?thesis by (auto simp: start_potential split: pconf.splits dest: populate.progress)
qed

theorem populate_terminates_witness:
  "\<exists>m'. (pstep (writeBatch ref_libs ref_rocksdb no_dbs (1 / 1000000) (int 0))
      (worker_limit (nw_of (1 / 1000000)) 32) ^^ 1) (Running (start_main 32 1000 0 state_one)) (Running m') \<and>
    (1 :: nat) \<le> 32 * (3 * rounds 1000 (worker_limit (nw_of (1 / 1000000)) 32) + 1) \<and>
    (pm_wg m' = 0 \<or> (\<exists>c'. pstep (writeBatch ref_libs ref_rocksdb no_dbs (1 / 1000000) (int 0))
       (worker_limit (nw_of (1 / 1000000)) 32) (Running m') c'))"
proof -
  let ?wb = "writeBatch ref_libs ref_rocksdb no_dbs (1 / 1000000) (int 0)"
    and ?limit = "worker_limit (nw_of (1 / 1000000)) 32" and ?m = "start_main 32 1000 0 state_one"
  have "list_all (entry_ok (int 0)) (wk_entries (pm_workers ?m ! 0))"
    using new_entry_ok [of 0] by (simp add: start_main_def start_workers_def list_all_iff)
  from dry_batch [OF this one_key zero_less_one] obtain n es st where
    "?wb (wk_entries (pm_workers ?m ! 0)) (pm_st ?m) = Inr ((n, es), st)" by blast
  from worker_step_runs [where wb = ?wb and limit = ?limit, OF _ _ this] obtain m' where
    "worker_step ?wb ?limit 0 ?m = Some (Running m')"
    by (auto simp: start_main_def start_workers_def)
  then have step: "(pstep ?wb ?limit ^^ 1) (Running ?m) (Running m')" by (auto intro: pstep.move)
  have nw: "nw_of (1 / 1000000) \<le> 2 ^ 57" by (simp add: nw_of_one)
  from populate_terminates [OF nw step] step show ?thesis by auto
qed

text \<open>The state and the entries keep what every batch keeps; a run that exits has a batch's fault.\<close>

context batch_writer
begin

lemma state_inv:
  assumes keep: "\<And>es st. E es \<Longrightarrow> I st \<Longrightarrow> wpx (wb es) F (\<lambda>(n, es') st'. E es' \<and> I st') st"
    and "(pstep wb limit)\<^sup>*\<^sup>* c0 c" "c0 = Running m0"
    and "\<forall>w \<in> set (pm_workers m0). E (wk_entries w)" "I (pm_st m0)"
  shows "case c of Running m \<Rightarrow> (\<forall>w \<in> set (pm_workers m). E (wk_entries w)) \<and> I (pm_st m)
    | Exited f \<Rightarrow> F f"
  using assms(2-)
proof (induction rule: rtranclp_induct)
  case (step c c')
  show ?case
  proof (cases c)
    case (Running m)
    then obtain i where st: "worker_step wb limit i m = Some c'"
      using step.hyps(2) by (auto elim: pstep_RunningE)
    have IH: "\<forall>w \<in> set (pm_workers m). E (wk_entries w)" "I (pm_st m)"
      using step.IH [OF step.prems] Running by simp_all
    have "i < length (pm_workers m)" using st by (auto simp: worker_step_def split: if_splits)
    then have "E (wk_entries (pm_workers m ! i))" using IH(1) by simp
    then show ?thesis using st IH keep [of "wk_entries (pm_workers m ! i)" "pm_st m"]
      by (cases c') (auto simp: wpx_def worker_step_def Let_def split: if_splits wpc.splits sum.splits
          dest!: subsetD [OF set_update_subset_insert])
  qed (use step.hyps(2) in \<open>simp add: pstep_Exited\<close>)
qed simp

end

end
