(* ===== verification/PopulateSpec.thy ===== *)
theory PopulateSpec
  imports PopulateRun
begin

text \<open>
  Runs of populate on RocksDB, through the store, the binding and the shim: what the workers
  keep of the store in every interleaving, what opening finds and closing leaves on disk, and
  that with an engine that accepts its batches a run completes.
\<close>

section \<open>A whole populate run on RocksDB\<close>

text \<open>
  What the workers keep of the store: memory is as it was, the database is still open, nothing else of the engine
  has changed, no key is lost, and each key is an old one or that of a number below \<open>n\<close>, with a value of the
  requested size.
\<close>

definition grown :: "int \<Rightarrow> int \<Rightarrow> contents \<Rightarrow> contents \<Rightarrow> bool" where
  "grown v n m m' \<longleftrightarrow> dom m \<subseteq> dom m' \<and>
     (\<forall>key val. m' key = Some val \<longrightarrow> m key = Some val \<or>
        (int (length val) = v \<and> (\<exists>k. 0 \<le> k \<and> k < n \<and> key = key_string v k)))"

lemma grown_refl: "grown v n m m"
  by (simp add: grown_def)

lemma grown_put:
  assumes "grown v n m m'" "filled v n e e'"
  shows "grown v n m (m'(fst (e_op e') \<mapsto> snd (e_op e')))"
proof -
  obtain k where k: "0 \<le> k" "k < n" "fst (e_op e') = key_string v k"
    using assms(2) by (auto simp: filled_def e_op_def)
  moreover have "int (length (snd (e_op e'))) = v"
    using assms(2) by (simp add: filled_def e_op_def entry_ok_def gs_ok_def gs_bytes_def)
  ultimately show ?thesis
    using assms(1) by (auto simp: grown_def)
qed

lemma grown_apply:
  assumes "list_all2 (filled v n) es es'" "grown v n m m'"
  shows "grown v n m (apply_ops (e_ops es') m')"
  using assms
proof (induction arbitrary: m' rule: list_all2_induct)
  case (Cons e es e' es')
  then show ?case using grown_put [OF Cons.prems Cons.hyps(1)] by (simp add: e_ops_def)
qed (simp add: e_ops_def)

definition loaded ::
  "('e \<Rightarrow> astate) \<Rightarrow> int \<Rightarrow> int \<Rightarrow> nat \<Rightarrow> adb \<Rightarrow> ('b, 'f, 'e) world \<Rightarrow> ('b, 'f, 'e) world \<Rightarrow> bool" where
  "loaded \<alpha> v n d db w w' \<longleftrightarrow> mem_same w w' \<and>
     (\<exists>m. \<alpha> (eng w') = a_write d db m (\<alpha> (eng w)) \<and> grown v n (ad_kv db) m)"

lemma loaded_refl: "c_ok w \<Longrightarrow> a_db (\<alpha> (eng w)) d = Some db \<Longrightarrow> loaded \<alpha> v n d db w w"
  by (auto simp: loaded_def mem_same_def grown_refl intro!: exI [of _ "ad_kv db"])

lemma rejected_kv [simp]: "rejected L R \<alpha> (db\<lparr>ad_kv := m\<rparr>) = rejected L R \<alpha> db"
  by (simp add: rejected_def fun_eq_iff)

lemma loaded_batch:
  fixes st :: "('b, 'f, 'e, 'x) pstate"
  assumes "rocks_kv R \<alpha> bops" "y_law L" "store_live w s d ro wo"
    "list_all (entry_ok v) es" "trunc (f64 (numKeys * 1000000)) = n" "0 < n"
    "loaded \<alpha> v n d db w (ps_world st)"
  shows "wpx (writeBatch L R (no_dbs\<lparr>g_rdb := Some s\<rparr>) numKeys v es) (rejected L R \<alpha> db)
    (\<lambda>(k, es') st'. list_all (entry_ok v) es' \<and> loaded \<alpha> v n d db w (ps_world st')) st"
proof -
  from assms(7) obtain m where m: "mem_same w (ps_world st)"
    "\<alpha> (eng (ps_world st)) = a_write d db m (\<alpha> (eng w))" "grown v n (ad_kv db) m"
    by (auto simp: loaded_def)
  have db: "a_db (\<alpha> (eng (ps_world st))) d = Some (db\<lparr>ad_kv := m\<rparr>)" using m(2) by simp
  have live: "c_ok (ps_world st)" "store_live (ps_world st) s d ro wo"
    using m(1) assms(3) by (auto simp: mem_same_def intro: store_live_same)
  have grown: "grown v n (ad_kv db) (apply_ops (e_ops es') m)" if "all_filled v n es es'" for es'
    using grown_apply [OF _ m(3)] that by (auto simp: all_filled_def)
  show ?thesis
    by (rule wpx_mono [OF wpx_writeBatch_rocks [OF assms(1,2) live db assms(4-6), unfolded rejected_kv]])
      (use mem_same_trans [OF m(1)] m(2) grown in \<open>auto simp: loaded_def dest: all_filled_ok\<close>)
qed

lemma start_entries:
  "\<forall>w \<in> set (pm_workers (start_main N B v st)). list_all (entry_ok (int v)) (wk_entries w)"
  using new_entry_ok [of v] by (simp add: start_main_def start_workers_def list_all_iff)

lemma run_loaded:
  fixes st :: "('b, 'f, 'e, 'x) pstate"
  assumes "rocks_kv R \<alpha> bops" and "y_law L" and "c_ok (ps_world st)"
    and "store_live (ps_world st) s d ro wo" and "a_db (\<alpha> (eng (ps_world st))) d = Some db"
    and "trunc (f64 (numKeys * 1000000)) = n" and "0 < n"
    and "(pstep (writeBatch L R (no_dbs\<lparr>g_rdb := Some s\<rparr>) numKeys (int v)) limit)\<^sup>*\<^sup>*
      (Running (start_main N B v st)) c"
  shows "case c of Exited f \<Rightarrow> rejected L R \<alpha> db f
    | Running m \<Rightarrow> (\<forall>w \<in> set (pm_workers m). list_all (entry_ok (int v)) (wk_entries w)) \<and>
        loaded \<alpha> (int v) n d db (ps_world st) (ps_world (pm_st m))"
  using populate.state_inv [where F = "rejected L R \<alpha> db" and I = "\<lambda>st'. loaded \<alpha> (int v) n d db (ps_world st) (ps_world st')",
      OF loaded_batch [OF assms(1,2,4) _ assms(6,7)] assms(8) refl start_entries]
    loaded_refl [of "ps_world st" \<alpha> d db] assms(3,5)
  by (auto simp: start_main_def split: pconf.splits)

text \<open>With an engine that accepts every batch, the end is reachable from every reachable state.\<close>

lemma run_completes:
  fixes st :: "('b, 'f, 'e, 'x) pstate"
  assumes "rocks_kv R \<alpha> bops" and "y_law L" and "c_ok (ps_world st)"
    and "store_live (ps_world st) s d ro wo" and "a_db (\<alpha> (eng (ps_world st))) d = Some db"
    and "trunc (f64 (numKeys * 1000000)) = n" and "0 < n" and "ad_rw db" and "accepts R \<alpha>"
    and "0 < B" and "B \<le> 2 ^ 52" and "limit \<le> 2 ^ 52"
    and "(pstep (writeBatch L R (no_dbs\<lparr>g_rdb := Some s\<rparr>) numKeys (int v)) limit)\<^sup>*\<^sup>*
      (Running (start_main N B v st)) c"
  shows "\<exists>m. c = Running m \<and> (\<exists>m'. (pstep (writeBatch L R (no_dbs\<lparr>g_rdb := Some s\<rparr>) numKeys (int v)) limit)\<^sup>*\<^sup>*
      (Running m) (Running m') \<and> pm_wg m' = 0)"
proof -
  note inv = run_loaded [OF assms(1-7,13)]
  have no_fault: "\<not> rejected L R \<alpha> db f" for f using assms(8,9) by (simp add: rejected_def)
  then obtain m where m: "c = Running m" using inv by (cases c) auto
  have total: "\<exists>k es' st'. writeBatch L R (no_dbs\<lparr>g_rdb := Some s\<rparr>) numKeys (int v) es st1 = Inr ((k, es'), st') \<and>
      list_all (entry_ok (int v)) es' \<and> loaded \<alpha> (int v) n d db (ps_world st) (ps_world st')"
    if "list_all (entry_ok (int v)) es" "loaded \<alpha> (int v) n d db (ps_world st) (ps_world st1)" for es st1
    using loaded_batch [OF assms(1,2,4) that(1) assms(6,7) that(2)] no_fault
    by (auto simp: wpx_def split: sum.splits prod.splits)
  have "run_inv B limit m"
    using populate.reachable_inv [OF assms(10-12) start_inv [OF assms(10)] assms(13) [unfolded m]] by simp
  from populate.completes [where E = "list_all (entry_ok (int v))", OF assms(10-12) total this]
  show ?thesis using inv m by auto
qed

text \<open>From opening to closing: what the directory holds in the end.\<close>

lemma loaded_close:
  assumes "rocks_dir R \<alpha> bops" "store_live w s d ro wo" "a_db (\<alpha> (eng w)) d = Some db" "ad_rw db"
    and "a_it (\<alpha> (eng w)) = Map.empty" "loaded \<alpha> v n d db w (ps_world st)"
  shows "wpx (close_stores L R (no_dbs\<lparr>g_rdb := Some s\<rparr>)) F (\<lambda>_ st'.
    \<exists>m. disk_contents (\<alpha> (eng (ps_world st'))) (ad_name db) = m \<and> grown v n (ad_kv db) m) st"
proof -
  from assms(6) obtain m where m: "mem_same w (ps_world st)"
    "\<alpha> (eng (ps_world st)) = a_write d db m (\<alpha> (eng w))" "grown v n (ad_kv db) m"
    by (auto simp: loaded_def)
  have live: "c_ok (ps_world st)" "store_live (ps_world st) s d ro wo"
    using m(1) assms(2) by (auto simp: mem_same_def intro: store_live_same)
  show ?thesis
    by (simp add: close_stores_def no_dbs_def io_if_def)
      (rule wp_wpx [OF rocks_dir.wp_close [OF assms(1) live, where db = "db\<lparr>ad_kv := m\<rparr>"]],
       use m assms(4,5) in auto)
qed

text \<open>
  Opening for populate: the database holds what the directory held after the attempt to
  remove it, whose error the program ignores. \<open>removed\<close>: the attempt was a success and the
  path has no NUL byte.
\<close>

definition removed ::
  "('bt, 'lb, 'tx, 'lt, 'e, 'x) libs \<Rightarrow> bytes \<Rightarrow> ('b, 'f, 'e, 'x) pstate \<Rightarrow> bool" where
  "removed L p st \<longleftrightarrow> fst (os_RemoveAll L p (eng (ps_world st), ps_x st)) = None \<and> cstr p = p"

definition rocks_open ::
  "('e \<Rightarrow> astate) \<Rightarrow> bytes \<Rightarrow> bool \<Rightarrow> dbs \<Rightarrow> ('b, 'f, 'e) world \<Rightarrow> bool" where
  "rocks_open \<alpha> n blank g w \<longleftrightarrow> c_ok w \<and> a_it (\<alpha> (eng w)) = Map.empty \<and>
     (\<exists>s d ro wo db. g = no_dbs\<lparr>g_rdb := Some s\<rparr> \<and> store_live w s d ro wo \<and>
       a_db (\<alpha> (eng w)) d = Some db \<and> ad_rw db \<and> ad_name db = n \<and> (blank \<longrightarrow> ad_kv db = Map.empty))"

lemma rocks_openI:
  assumes "c_ok w" "open_result R \<alpha> n w1 s w" "a_it (\<alpha> (eng w1)) = Map.empty"
    and "blank \<Longrightarrow> disk_contents (\<alpha> (eng w1)) n = Map.empty"
  shows "rocks_open \<alpha> n blank (no_dbs\<lparr>g_rdb := Some s\<rparr>) w"
  using assms by (fastforce simp: rocks_open_def open_result_def)

lemma wpx_open_rocks:
  fixes st :: "('b, 'f, 'e, 'x) pstate"
  assumes "rocks_dir R \<alpha> bops" "disk_law L \<alpha>" "y_law L" "c_ok (ps_world st)"
    "a_it (\<alpha> (eng (ps_world st))) = Map.empty"
  shows "wpx (open_rocks L R dir) (check_fault L) (\<lambda>g st1.
    rocks_open \<alpha> (cstr (dir @ ''/rocks'')) (removed L (dir @ ''/rocks'') st) g (ps_world st1)) st"
  unfolding open_rocks_def
proof (rule wpx_seq)
  let ?p = "dir @ ''/rocks''"
  let ?P = "\<lambda>st1 :: ('b, 'f, 'e, 'x) pstate. c_ok (ps_world st1) \<and> a_it (\<alpha> (eng (ps_world st1))) = Map.empty \<and>
    (removed L ?p st \<longrightarrow> disk_contents (\<alpha> (eng (ps_world st1))) (cstr ?p) = Map.empty)"
  obtain r e1 x1 where rm: "os_RemoveAll L ?p (eng (ps_world st), ps_x st) = (r, (e1, x1))"
    by (metis prod.exhaust)
  obtain r' e2 x2 where mk: "os_MkdirAll L ?p perm_all (e1, x1) = (r', (e2, x2))"
    by (metis prod.exhaust)
  have "a_it (\<alpha> e2) = Map.empty" "r = None \<longrightarrow> disk_contents (\<alpha> e2) ?p = Map.empty"
    using assms(2,5) rm mk unfolding disk_law_def by metis+
  then show "wpx (reset_dir L False ?p) (check_fault L) (\<lambda>_. ?P) st"
    using assms(4) by (simp add: reset_dir_def io_if_def rm mk removed_def)
  fix u and st1 :: "('b, 'f, 'e, 'x) pstate"
  assume st1: "?P st1"
  show "wpx (bnd (on_world (NewStore R ?p)) (\<lambda>(s, err). andthen (check L err) (ret (no_dbs\<lparr>g_rdb := Some s\<rparr>))))
      (check_fault L) (\<lambda>g st1. rocks_open \<alpha> (cstr ?p) (removed L ?p st) g (ps_world st1)) st1"
    unfolding wpx_bnd wpx_on
    by (rule wp_wpx [OF rocks_dir.wp_open [OF assms(1)]])
      (use st1 in \<open>auto simp: wpx_check [OF assms(3)] split: prod.splits intro!: rocks_openI\<close>)
qed

text \<open>Every path of steps is a schedule.\<close>

lemma steps_schedule: "(pstep wb limit)\<^sup>*\<^sup>* c c' \<Longrightarrow> \<exists>is. run_schedule wb limit is c = Some c'"
proof (induction rule: converse_rtranclp_induct)
  case base
  show ?case by (rule exI [of _ "[]"]) simp
next
  case (step c c1)
  from step.hyps(1) obtain m i where "c = Running m" "worker_step wb limit i m = Some c1"
    by (auto elim: pstep.cases)
  with step.IH show ?case by (auto intro: exI [of _ "i # _"])
qed

text \<open>Opening on the reference engine succeeds.\<close>

lemma open_rocks_ref: "wpx (open_rocks ref_libs ref_rocksdb ''/tmp'') (\<lambda>_. False) (\<lambda>_ _. True) state_one"
proof -
  have bloom: "snd (NewBloomFilterPolicy ref_rocksdb n b e) = e" for n b e
    by (simp add: ref_rocksdb_def)
  have ok: "st_ok (fst (fst (db_Open ref_rocksdb (store_options ref_rocksdb) (cstr ''/tmp/rocks'')
      ((eng (world_open True))\<lparr>e_dirs := kv_del ''/tmp/rocks'' (e_dirs (eng (world_open True)))\<rparr>))))"
    by code_simp
  define st1 where "st1 = state_one\<lparr>ps_world := (world_open True)\<lparr>eng := (eng (world_open True))
    \<lparr>e_dirs := kv_del ''/tmp/rocks'' (e_dirs (eng (world_open True)))\<rparr>\<rparr>\<rparr>"
  have reset: "wpx (reset_dir ref_libs False ''/tmp/rocks'') (\<lambda>_. False) (\<lambda>_ st. st = st1) state_one"
    by (simp add: reset_dir_def io_if_def ref_libs_def state_one_def st1_def)
  have st1: "c_ok (ps_world st1)"
    using c_ok_world_open [of True] by (simp add: st1_def)
  have new: "wp (NewStore ref_rocksdb ''/tmp/rocks'') (\<lambda>x _. snd x = None) (ps_world st1)"
    by (rule wp_mono [OF wp_NewStore [OF st1]])
      (use ok in \<open>auto simp: opened_def bloom st1_def ref.default_policy\<close>)
  show ?thesis
    unfolding open_rocks_def append.simps
    by (rule wpx_seq [OF reset], simp add: split_def, rule wp_wpx [OF new])
      (simp add: check_def ref_libs_def)
qed

lemma populate_main_returns:
  fixes st :: "('b, 'f, 'e, 'x) pstate"
  assumes "rocks_dir R \<alpha> bops" "y_law L" "disk_law L \<alpha>" "c_ok (ps_world st)"
    "a_it (\<alpha> (eng (ps_world st))) = Map.empty" "trunc (nw_of numKeys) = n" "0 < n"
    "nw_of numKeys \<le> 2 ^ 57" "accepts R \<alpha>" "open_rocks L R dir st = Inr (g, st1)"
  shows "\<exists>sched counter st'. populate_main L R ''rocksdb'' dir numKeys (int v) sched st = Some (Inr (counter, st'))"
proof -
  let ?limit = "worker_limit (nw_of numKeys) 32" and ?p = "dir @ ''/rocks''"
  have "rocks_open \<alpha> (cstr ?p) (removed L ?p st) g (ps_world st1)"
    using wpx_open_rocks [OF assms(1,3,2,4,5), of dir] assms(10) by (simp add: wpx_def)
  then obtain s d ro wo db where o: "c_ok (ps_world st1)" "a_it (\<alpha> (eng (ps_world st1))) = Map.empty"
      "g = no_dbs\<lparr>g_rdb := Some s\<rparr>" "store_live (ps_world st1) s d ro wo"
      "a_db (\<alpha> (eng (ps_world st1))) d = Some db" "ad_rw db"
    by (auto simp: rocks_open_def)
  have kv: "rocks_kv R \<alpha> bops" using assms(1) by (rule rocks_dir.axioms)
  have limit: "?limit \<le> 2 ^ 52" using assms(8) by (simp add: worker_limit_32)
  obtain m where m: "(pstep (writeBatch L R g numKeys (int v)) ?limit)\<^sup>*\<^sup>*
      (Running (start_main 32 1000 v st1)) (Running m)" "pm_wg m = 0"
    using run_completes [OF kv assms(2) o(1,4,5) assms(6) [unfolded nw_of_def] assms(7) o(6) assms(9) _ _ limit
        rtranclp.rtrancl_refl, of 1000 32 v] o(3) by auto
  obtain sched where sched: "run_schedule (writeBatch L R g numKeys (int v)) ?limit sched
      (Running (start_main 32 1000 v st1)) = Some (Running m)"
    using steps_schedule [OF m(1)] by blast
  have ld: "loaded \<alpha> (int v) n d db (ps_world st1) (ps_world (pm_st m))"
    using run_loaded [OF kv assms(2) o(1,4,5) assms(6) [unfolded nw_of_def] assms(7) m(1) [unfolded o(3)]] by simp
  obtain st2 where "close_stores L R g (pm_st m) = Inr ((), st2)"
    using loaded_close [where F = "\<lambda>_. False" and L = L, OF assms(1) o(4,5,6,2) ld] o(3)
    by (auto simp: wpx_def split: sum.splits)
  with sched m(2) assms(10) show ?thesis
    by (intro exI [of _ sched]) (simp add: populate_main_def open_store_for_def)
qed

end
