(* ===== verification/PopulateStores.thy ===== *)
theory PopulateStores
  imports PopulateSpec
begin

text \<open>
  Runs of populate on badger, bolt, leveldb and lmdb: what the workers keep of the contents in every
  interleaving, for any store that meets the interface \<open>batch_store\<close>.
\<close>

section \<open>Runs on the other stores\<close>

context batch_store
begin

lemma grown_batch:
  assumes "trunc (f64 (numKeys * 1000000)) = n" "0 < n" "list_all (entry_ok v) es" "grown v n m (view (ps_x st))"
  shows "wpx (writeBatch L R g numKeys v es) F
    (\<lambda>(k, es') st'. list_all (entry_ok v) es' \<and> grown v n m (view (ps_x st'))) st"
  by (rule wpx_mono [OF wpx_batch [OF assms(3,1,2)]])
    (use assms(4) in \<open>auto simp: batch_stored_def all_filled_def intro: grown_apply dest: all_filled_ok [unfolded all_filled_def]\<close>)

lemma run_grown:
  assumes "trunc (f64 (numKeys * 1000000)) = n" "0 < n"
    and "(pstep (writeBatch L R g numKeys (int v)) limit)\<^sup>*\<^sup>* (Running (start_main N B v st)) c"
  shows "case c of Exited f \<Rightarrow> F f | Running m \<Rightarrow> grown (int v) n (view (ps_x st)) (view (ps_x (pm_st m)))"
  using populate.state_inv [where F = F and I = "\<lambda>st'. grown (int v) n (view (ps_x st)) (view (ps_x st'))",
      OF grown_batch [OF assms(1,2)] assms(3) refl start_entries] grown_refl
  by (auto simp: start_main_def split: pconf.splits)

text \<open>From the opened store to its close.\<close>

lemma main_grown:
  assumes "trunc (nw_of numKeys) = n" "0 < n" "nw_of numKeys \<le> 2 ^ 57" "g_rdb g = None"
    and "open_store_for L R which dir st = Inr (g, st1)" "populate_main L R which dir numKeys (int v) sched st = Some res"
  shows "case res of Inl f \<Rightarrow> F f
    | Inr (counter, st') \<Rightarrow> (\<exists>T. counter = of_nat T \<and> nw_of numKeys \<le> of_nat T \<and> of_nat T < nw_of numKeys + 32000) \<and>
        (\<exists>st2. grown (int v) n (view (ps_x st1)) (view (ps_x st2)) \<and> close_stores L R g st2 = Inr ((), st'))"
proof (rule populate_main_cases [OF assms(5,6)])
  fix f assume "(pstep (writeBatch L R g numKeys (int v)) (worker_limit (nw_of numKeys) 32))\<^sup>*\<^sup>*
      (Running (start_main 32 1000 v st1)) (Exited f)" "res = Inl f"
  then show ?thesis using run_grown [OF assms(1) [unfolded nw_of_def] assms(2)] by fastforce
next
  fix m
  assume steps: "(pstep (writeBatch L R g numKeys (int v)) (worker_limit (nw_of numKeys) 32))\<^sup>*\<^sup>*
      (Running (start_main 32 1000 v st1)) (Running m)"
    and wg: "pm_wg m = 0"
    and res: "res = (case close_stores L R g (pm_st m) of Inl f \<Rightarrow> Inl f | Inr (_, st2) \<Rightarrow> Inr (pm_counter m, st2))"
  have "wp (close_stores L R g) (\<lambda>_ _. True) (pm_st m)"
    using assms(4) by (auto simp: close_stores_def io_if_def split: prod.splits)
  then obtain st2 where "close_stores L R g (pm_st m) = Inr ((), st2)" by (auto elim: wpE)
  moreover have "grown (int v) n (view (ps_x st1)) (view (ps_x (pm_st m)))"
    using run_grown [OF assms(1) [unfolded nw_of_def] assms(2) steps] by simp
  ultimately show ?thesis
    using final_total [OF nw_of_nonneg [OF assms(1,2)] assms(3) steps wg] res by auto
qed

lemma main_returns:
  assumes "F = (\<lambda>_. False)" "trunc (nw_of numKeys) = n" "0 < n" "nw_of numKeys \<le> 2 ^ 57" "g_rdb g = None"
    and "open_store_for L R which dir st = Inr (g, st1)"
  shows "\<exists>sched counter st'. populate_main L R which dir numKeys (int v) sched st = Some (Inr (counter, st'))"
proof -
  let ?limit = "worker_limit (nw_of numKeys) 32"
  have limit: "?limit \<le> 2 ^ 52" using assms(4) by (simp add: worker_limit_32)
  have total: "\<exists>k es' st'. writeBatch L R g numKeys (int v) es st = Inr ((k, es'), st') \<and>
      list_all (entry_ok (int v)) es' \<and> True" if "list_all (entry_ok (int v)) es" for es st
    using wpx_batch [OF that assms(2) [unfolded nw_of_def] assms(3), of st] all_filled_ok
    by (fastforce simp: wpx_def assms(1) batch_stored_def split: sum.splits prod.splits)
  obtain m where m: "(pstep (writeBatch L R g numKeys (int v)) ?limit)\<^sup>*\<^sup>* (Running (start_main 32 1000 v st1)) (Running m)" "pm_wg m = 0"
    using populate.completes [where E = "list_all (entry_ok (int v))" and I = "\<lambda>_. True" and B = 1000, OF _ _ limit total start_inv start_entries]
    by auto
  obtain sched where sched: "run_schedule (writeBatch L R g numKeys (int v)) ?limit sched
      (Running (start_main 32 1000 v st1)) = Some (Running m)"
    using steps_schedule [OF m(1)] by blast
  have "wp (close_stores L R g) (\<lambda>_ _. True) (pm_st m)"
    using assms(5) by (auto simp: close_stores_def io_if_def split: prod.splits)
  then obtain st2 where "close_stores L R g (pm_st m) = Inr ((), st2)" by (auto elim: wpE)
  with sched m(2) assms(6) show ?thesis by (intro exI [of _ sched]) (simp add: populate_main_def)
qed

end

lemma open_batch_store:
  assumes "y_law L" "badger_law L (view ''badger'') pend" "leveldb_law L (view ''leveldb'') lops"
    "bolt_law L (view ''bolt'') bolt_tx" "lmdb_law L (view ''lmdb'') lmdb_tx"
    and "open_store_for L R which dir st = Inr (g, st1)" "which \<noteq> ''rocksdb''"
  shows "batch_store L R g (view which) (check_fault L) \<and> g_rdb g = None"
  using assms(6,7) badger_batch_store [OF assms(2,1)] leveldb_batch_store [OF assms(3,1)] bolt_batch_store [OF assms(4,1)]
    lmdb_batch_store [OF assms(5,1)]
  by (auto simp: open_store_for_def open_badger_def open_bolt_def open_leveldb_def open_lmdb_def no_dbs_def bnd_eq_Inr
      split: if_splits option.splits)

section \<open>Properties\<close>

text \<open>
  C3. populate on badger, bolt, leveldb or lmdb, from the opened store to its close, for any schedule of
  the workers: the process ends at a failed check, or the number it prints is at least the
  requested number of keys and exceeds it by less than 32,000, and when the store is closed it
  holds what it held when it was opened and keys of numbers below the requested number, with
  values of the requested size; no key is lost.
\<close>

theorem populate_main_stores:
  fixes st :: "('b, 'f, 'e, 'x) pstate" and view :: "bytes \<Rightarrow> 'x \<Rightarrow> contents"
  assumes "y_law L" and "badger_law L (view ''badger'') pend" and "leveldb_law L (view ''leveldb'') lops"
    and "bolt_law L (view ''bolt'') bolt_tx" and "lmdb_law L (view ''lmdb'') lmdb_tx"
    and "trunc (nw_of numKeys) = n" and "0 < n" and "nw_of numKeys \<le> 2 ^ 57" and "which \<noteq> ''rocksdb''"
    and "open_store_for L R which dir st = Inr (g, st1)"
    and "populate_main L R which dir numKeys (int v) sched st = Some res"
  shows "case res of Inl f \<Rightarrow> check_fault L f
    | Inr (counter, st') \<Rightarrow> (\<exists>T. counter = of_nat T \<and> nw_of numKeys \<le> of_nat T \<and> of_nat T < nw_of numKeys + 32000) \<and>
        (\<exists>st2. grown (int v) n (view which (ps_x st1)) (view which (ps_x st2)) \<and> close_stores L R g st2 = Inr ((), st'))"
proof -
  have "batch_store L R g (view which) (check_fault L)" "g_rdb g = None"
    using open_batch_store [where view = view, OF assms(1-5,10,9)] by simp_all
  from batch_store.main_grown [OF this(1) assms(6-8) this(2) assms(10,11)] show ?thesis .
qed

theorem populate_main_stores_witness:
  "\<exists>sched counter st' T. populate_main ref_libs ref_rocksdb ''badger'' ''/tmp'' (1 / 1000000) 4 sched state_one =
      Some (Inr (counter, st')) \<and> counter = of_nat T \<and> 1 \<le> T \<and> T < 32001 \<and> grown 4 1 Map.empty (map_of (ps_x st'))"
proof -
  have n: "trunc (nw_of (1 / 1000000)) = 1" "nw_of (1 / 1000000) \<le> 2 ^ 57" by (simp_all add: nw_of_one trunc_def)
  obtain st1 where open1: "open_store_for ref_libs ref_rocksdb ''badger'' ''/tmp'' state_one = Inr (no_dbs\<lparr>g_bdb := True\<rparr>, st1)" "ps_x st1 = []"
    by (simp add: open_store_for_def open_badger_def reset_dir_def ref_libs_def on_disk_def on_x_def bnd_def
        check_def io_if_def state_one_def split_def)
  have none: "g_rdb (no_dbs\<lparr>g_bdb := True\<rparr>) = None" by (simp add: no_dbs_def)
  obtain sched counter st' where run: "populate_main ref_libs ref_rocksdb ''badger'' ''/tmp'' (1 / 1000000) (int 4) sched state_one = Some (Inr (counter, st'))"
    using to_badger.main_returns [OF refl n(1) zero_less_one n(2) none open1(1), of 4] by blast
  note main = populate_main_stores [where view = "\<lambda>_. map_of", OF ref_laws n(1) zero_less_one n(2) _ open1(1) run]
  then obtain T st2 where "counter = of_nat T" "(1 :: rat) \<le> of_nat T" "of_nat T < (1 + 32000 :: rat)"
      "grown 4 1 Map.empty (map_of (ps_x st2))" "close_stores ref_libs ref_rocksdb (no_dbs\<lparr>g_bdb := True\<rparr>) st2 = Inr ((), st')"
    by (auto simp: nw_of_one open1(2))
  moreover from this(5) have "ps_x st' = ps_x st2"
    by (auto simp: close_stores_def no_dbs_def io_if_def ref_libs_def on_x_def bnd_def ret_def)
  moreover from calculation(2,3) have "1 \<le> T" "T < 32001" by simp_all
  ultimately show ?thesis using run
    by (intro exI [of _ sched] exI [of _ counter] exI [of _ st'] exI [of _ T]) simp
qed

end
