(* ===== verification/RwBench.thy ===== *)
theory RwBench
  imports Populate IterSpec
begin

text \<open>
  The write-then-iterate benchmark \<^verbatim>\<open>src/rw-bench/bench.go\<close>: fill all entries, put them into
  one RocksDB batch and one badger transaction, write the batch and count the keys by a scan,
  then commit the transaction and count again. Badger's iterator is the parameter
  \<open>badger_iter\<close>, whose \<open>bi_New\<close> is \<open>NewTransaction(false).NewIterator\<close>, and the file and profiling
  calls are the parameter \<open>profiler\<close>; the values of the flags are arguments of \<open>rw_main\<close>, the clock
  and the printed lines are left out. A scan is bounded by \<open>fuel\<close> rounds in the
  model; more rounds than there are keys are enough.
\<close>

section \<open>The program\<close>

record ('x, 'bi) badger_iter =
  bi_New :: "'x \<Rightarrow> 'bi"
  bi_Rewind :: "'bi \<Rightarrow> 'bi"
  bi_Valid :: "'bi \<Rightarrow> bool"
  bi_Next :: "'bi \<Rightarrow> 'bi"

fun create_puts ::
  "nat \<Rightarrow> ('b, 'f, 'e) rocksdb \<Rightarrow> int \<Rightarrow> int \<Rightarrow> WriteBatch \<Rightarrow> entry list \<Rightarrow>
     (('b, 'f, 'e, 'x) pstate, entry list) io" where
  "create_puts fuel R numKeys valueSize rb [] = ret []"
| "create_puts fuel R numKeys valueSize rb (e # es) =
     bnd (on_rng (rw_fillEntry fuel numKeys valueSize e)) (\<lambda>e'.
     andthen (on_world (WriteBatch_Put R rb (fst (e_op e')) (snd (e_op e'))))
     (bnd (create_puts fuel R numKeys valueSize rb es) (\<lambda>es'. ret (e' # es'))))"

definition createEntries ::
  "nat \<Rightarrow> ('b, 'f, 'e) rocksdb \<Rightarrow> Store \<Rightarrow> int \<Rightarrow> int \<Rightarrow> entry list \<Rightarrow>
     (('b, 'f, 'e, 'x) pstate, WriteBatch \<times> entry list) io" where
  "createEntries fuel R rocks numKeys valueSize entries =
     bnd (on_world (Store_NewWriteBatch R rocks)) (\<lambda>rb.
     bnd (create_puts fuel R numKeys valueSize rb entries) (\<lambda>es. ret (rb, es)))"

text \<open>\<open>for ritr.SeekToFirst(); ritr.Valid(); ritr.Next() { _ = ritr.Key(); count++ }\<close>\<close>

definition count_from :: "('b, 'f, 'e) rocksdb \<Rightarrow> Iterator \<Rightarrow> nat \<Rightarrow> int \<Rightarrow> ('b, 'f, 'e, int) rio" where
  "count_from R ritr = iter_for R ritr (Iterator_Valid R ritr)
     (\<lambda>count. andthen (Iterator_Key R ritr) (ret (False, go_int (count + 1))))"

definition count_rocks :: "('b, 'f, 'e) rocksdb \<Rightarrow> Store \<Rightarrow> nat \<Rightarrow> ('b, 'f, 'e, Iterator \<times> int) rio" where
  "count_rocks R rocks fuel =
     bnd (Store_NewIterator R rocks) (\<lambda>ritr.
     andthen (SeekToFirst R ritr)
     (bnd (count_from R ritr fuel 0) (\<lambda>count. ret (ritr, count))))"

fun count_badger :: "('x, 'bi) badger_iter \<Rightarrow> 'bi \<Rightarrow> nat \<Rightarrow> int \<Rightarrow> ('s, int) io" where
  "count_badger B it 0 count = fail OutOfFuel"
| "count_badger B it (Suc n) count =
     (if bi_Valid B it then count_badger B (bi_Next B it) n (go_int (count + 1)) else ret count)"

text \<open>The phases of \<open>main\<close>: opening both stores, and the entries.\<close>

definition open_both ::
  "('bt, 'lb, 'tx, 'lt, 'e, 'x) libs \<Rightarrow> ('b, 'f, 'e) rocksdb \<Rightarrow> (('b, 'f, 'e, 'x) pstate, Store) io" where
  "open_both L R =
     andthen (reset_dir L True ''tmp/badger'')
     (bnd (on_x (badger_Open L ((badger_DefaultOptions L ''tmp/badger'')\<lparr>bo_SyncWrites := False\<rparr>))) (\<lambda>err. andthen (check L err)
     (andthen (reset_dir L True ''tmp/rocks'')
     (bnd (on_world (NewStore R ''tmp/rocks'')) (\<lambda>(rocks, err). andthen (check L err)
     (ret rocks))))))"

definition make_entries :: "int \<Rightarrow> int \<Rightarrow> ('s, entry list) io" where
  "make_entries numKeys valueSize = (let n = go_int (numKeys * 1000000) in
     if n < 0 \<or> 0 < n \<and> valueSize < 0 then fail (Panic ''makeslice: len out of range'')
     else ret (replicate (nat n) (new_entry (nat valueSize))))"

text \<open>Writing the RocksDB batch and scanning; committing the badger transaction and scanning.\<close>

definition rocks_phase ::
  "('bt, 'lb, 'tx, 'lt, 'e, 'x) libs \<Rightarrow> ('b, 'f, 'e) rocksdb \<Rightarrow> nat \<Rightarrow> Store \<Rightarrow> WriteBatch \<Rightarrow>
     (('b, 'f, 'e, 'x) pstate, int) io" where
  "rocks_phase L R fuel rocks rb =
     bnd (on_world (Store_WriteBatch R rocks rb)) (\<lambda>err. andthen (check L err)
     (bnd (on_world (count_rocks R rocks fuel)) (\<lambda>(ritr, count).
     andthen (on_world (WriteBatch_Destroy rb))
     (andthen (on_world (Store_Close R rocks)) (ret count)))))"

definition badger_phase ::
  "('bt, 'lb, 'tx, 'lt, 'e, 'x) libs \<Rightarrow> ('x, 'bi) badger_iter \<Rightarrow> nat \<Rightarrow> 'bt \<Rightarrow>
     (('b, 'f, 'e, 'x) pstate, int) io" where
  "badger_phase L B fuel txn =
     bnd (on_x (badger_Commit L txn)) (\<lambda>err. andthen (check L err)
     (bnd (\<lambda>s. Inr (bi_New B (ps_x s), s)) (\<lambda>bitr.
     count_badger B (bi_Rewind B bitr) fuel 0)))"

definition rw_measure ::
  "('bt, 'lb, 'tx, 'lt, 'e, 'x) libs \<Rightarrow> ('x, 'bi) badger_iter \<Rightarrow> ('b, 'f, 'e) rocksdb \<Rightarrow> nat \<Rightarrow>
     Store \<Rightarrow> WriteBatch \<Rightarrow> entry list \<Rightarrow> (('b, 'f, 'e, 'x) pstate, int \<times> int) io" where
  "rw_measure L B R fuel rocks rb entries =
     bnd (on_x (badger_NewTransaction L)) (\<lambda>txn.
     bnd (badger_sets L entries txn) (\<lambda>txn.
     bnd (rocks_phase L R fuel rocks rb) (\<lambda>rcount.
     bnd (badger_phase L B fuel txn) (\<lambda>bcount. ret (rcount, bcount)))))"

definition rw_bench ::
  "('bt, 'lb, 'tx, 'lt, 'e, 'x) libs \<Rightarrow> ('x, 'bi) badger_iter \<Rightarrow> ('b, 'f, 'e) rocksdb \<Rightarrow> nat \<Rightarrow>
     int \<Rightarrow> int \<Rightarrow> (('b, 'f, 'e, 'x) pstate, int \<times> int) io" where
  "rw_bench L B R fuel numKeys valueSize =
     bnd (open_both L R) (\<lambda>rocks.
     bnd (make_entries numKeys valueSize) (\<lambda>entries0.
     bnd (createEntries fuel R rocks numKeys valueSize entries0) (\<lambda>(rb, entries).
     rw_measure L B R fuel rocks rb entries)))"

text \<open>
  The profiles around it. A file is a number; \<open>log.Fatal\<close> exits without running the deferred
  \<open>StopCPUProfile\<close>.
\<close>

record ('e, 'x) profiler =
  os_Create :: "bytes \<Rightarrow> 'e \<times> 'x \<Rightarrow> (nat \<times> bytes option) \<times> ('e \<times> 'x)"
  os_Close :: "nat \<Rightarrow> 'x \<Rightarrow> bytes option \<times> 'x"
  pprof_StartCPUProfile :: "nat \<Rightarrow> 'x \<Rightarrow> bytes option \<times> 'x"
  pprof_StopCPUProfile :: "'x \<Rightarrow> unit \<times> 'x"
  pprof_WriteHeapProfile :: "nat \<Rightarrow> 'x \<Rightarrow> bytes option \<times> 'x"

definition fatal_if :: "bytes \<Rightarrow> bytes option \<Rightarrow> ('s, unit) io" where
  "fatal_if msg err = (case err of None \<Rightarrow> ret () | Some e \<Rightarrow> fail (Fatal (msg @ e)))"

definition start_cpu_profile :: "('e, 'x) profiler \<Rightarrow> bytes \<Rightarrow> (('b, 'f, 'e, 'x) pstate, unit) io" where
  "start_cpu_profile P cpuprofile = io_if (cpuprofile \<noteq> [])
     (bnd (on_disk (os_Create P cpuprofile)) (\<lambda>(f, err).
      andthen (fatal_if ''could not create CPU profile: '' err)
      (bnd (on_x (pprof_StartCPUProfile P f)) (\<lambda>err.
      andthen (fatal_if ''could not start CPU profile: '' err) (ret ())))))"

definition write_mem_profile :: "('e, 'x) profiler \<Rightarrow> bytes \<Rightarrow> (('b, 'f, 'e, 'x) pstate, unit) io" where
  "write_mem_profile P memprofile = io_if (memprofile \<noteq> [])
     (bnd (on_disk (os_Create P memprofile)) (\<lambda>(f, err).
      andthen (fatal_if ''could not create memory profile: '' err)
      (bnd (on_x (pprof_WriteHeapProfile P f)) (\<lambda>err.
      andthen (fatal_if ''could not write memory profile: '' err)
      (andthen (on_x (os_Close P f)) (ret ()))))))"

definition rw_main ::
  "('e, 'x) profiler \<Rightarrow> ('bt, 'lb, 'tx, 'lt, 'e, 'x) libs \<Rightarrow> ('x, 'bi) badger_iter \<Rightarrow> ('b, 'f, 'e) rocksdb \<Rightarrow> nat \<Rightarrow>
     bytes \<Rightarrow> bytes \<Rightarrow> int \<Rightarrow> int \<Rightarrow> (('b, 'f, 'e, 'x) pstate, int \<times> int) io" where
  "rw_main P L B R fuel cpuprofile memprofile numKeys valueSize =
     andthen (start_cpu_profile P cpuprofile)
     (bnd (rw_bench L B R fuel numKeys valueSize) (\<lambda>counts.
     andthen (write_mem_profile P memprofile)
     (andthen (on_x (badger_Close L))
     (andthen (io_if (cpuprofile \<noteq> []) (on_x (pprof_StopCPUProfile P))) (ret counts)))))"

section \<open>A scan counts the keys\<close>

context rocks_iter
begin

lemma wp_count_from:
  assumes "c_ok w" "live_it w it i" "a_it (\<alpha> (eng w)) i = Some x" "iter_at xs 0 x" "length xs < fuel" "length xs < 2 ^ 63"
  shows "wp (count_from R it fuel 0) (\<lambda>r w'. mem_same w w' \<and> (\<exists>x'. \<alpha> (eng w') = a_put i x' (\<alpha> (eng w)) \<and>
    0 \<le> r \<and> r \<le> int (length xs) \<and> (\<not> ai_failed x' \<longrightarrow> r = int (length xs)))) w"
proof -
  let ?I = "\<lambda>j c. c = int j \<and> j \<le> length xs" and ?S = "\<lambda>(j :: nat) (c :: int). False"
  have "wp (count_from R it fuel 0) (\<lambda>r w'. mem_same w w' \<and> (\<exists>x'. \<alpha> (eng w') = a_put i x' (\<alpha> (eng w)) \<and>
      ai_seq x' = xs \<and> iter_end xs (\<lambda>_. True) ?I ?S x' r)) w"
    unfolding count_from_def
  proof (rule wp_iter_for [OF _ _ assms(1-4)])
    show "wp (Iterator_Valid R it) (\<lambda>b w'. mem_same w w' \<and> \<alpha> (eng w') = \<alpha> (eng w) \<and>
        b = (ai_pos x < length xs \<and> True)) w"
      if "c_ok w" "live_it w it i" "a_it (\<alpha> (eng w)) i = Some x" "ai_seq x = xs" for w x
      using wp_valid [OF that(1-3)] that(4) by simp
    show "wp (andthen (Iterator_Key R it) (ret (False, go_int (c + 1)))) (\<lambda>r w'. mem_same w w' \<and> \<alpha> (eng w') = \<alpha> (eng w) \<and>
        (if fst r then ?S (ai_pos x) (snd r) else ?I (Suc (ai_pos x)) (snd r))) w"
      if "c_ok w" "live_it w it i" "a_it (\<alpha> (eng w)) i = Some x" "ai_seq x = xs" "ai_pos x < length xs" "?I (ai_pos x) c"
      for w x c
    proof -
      obtain k e where k: "it_key R i (eng w) = (k, e)" by fastforce
      have "go_int (int (ai_pos x) + 1) = int (ai_pos x) + 1" using that(5) assms(6) by (intro go_int_small) auto
      then show ?thesis
        using that key_law [OF k that(3)] by (auto simp: wp_Iterator_Key [OF that(1,2)] k intro!: mem_same_frame)
    qed
  qed (use assms(5) in auto)
  then show ?thesis by (rule wp_mono) (auto simp: iter_end_def split: if_splits)
qed

lemma wp_count_rocks:
  assumes "c_ok w" "store_live w s d ro wo" "a_db (\<alpha> (eng w)) d = Some db"
    and "card (dom (ad_kv db)) < fuel" "card (dom (ad_kv db)) < 2 ^ 63"
  shows "wp (count_rocks R s fuel) (\<lambda>(it, r) w'. c_ok w' \<and> heap_keeps w w' \<and> finite (dom (ad_kv db)) \<and>
    (\<exists>i x. live_it w' it i \<and> a_it (\<alpha> (eng w')) i = Some x \<and>
      0 \<le> r \<and> r \<le> int (card (dom (ad_kv db))) \<and>
      (\<not> ai_failed x \<longrightarrow> r = int (card (dom (ad_kv db)))))) w"
  unfolding count_rocks_def
proof (rule wp_scan_first [OF assms(1-3)])
  fix it i xs x and w1 :: "('a, 'b, 'c) world"
  assume w1: "c_ok w1" "heap_keeps w w1" "live_it w1 it i" "\<alpha> (eng w1) = a_put i x (\<alpha> (eng w))" "iter_at xs 0 x"
    and xs: "key_sorted xs" "map_of xs = ad_kv db"
  note card = key_sorted_card [OF xs]
  have x: "a_it (\<alpha> (eng w1)) i = Some x" using w1(4) by simp
  show "wp (bnd (count_from R it fuel 0) (\<lambda>count. ret (it, count))) (\<lambda>(it, r) w'. c_ok w' \<and> heap_keeps w w' \<and>
    finite (dom (ad_kv db)) \<and> (\<exists>i x. live_it w' it i \<and> a_it (\<alpha> (eng w')) i = Some x \<and> 0 \<le> r \<and>
      r \<le> int (card (dom (ad_kv db))) \<and> (\<not> ai_failed x \<longrightarrow> r = int (card (dom (ad_kv db)))))) w1"
    unfolding wp_bnd wp_ret prod.case
    by (rule wp_mono [OF wp_count_from [OF w1(1,3) x w1(5)]])
      (use assms(4,5) card w1 in \<open>auto simp: mem_same_def intro: heap_keeps_same\<close>)
qed

end

text \<open>The entries of \<open>main\<close>, filled and put into the batch in order.\<close>

context rocks_kv
begin

lemma wp_create_puts:
  fixes st :: "('b, 'f, 'e, 'x) pstate"
  assumes "list_all (entry_ok v) es" "0 < numKeys" "numKeys \<le> 1000" "fair fuel (ps_rng st)"
    and "batch_at bops w wb ops (ps_world st)"
  shows "wp (create_puts fuel R numKeys v wb es) (\<lambda>es' st'. ps_x st' = ps_x st \<and>
    list_all2 (filled v (numKeys * 10000000)) es es' \<and>
    batch_at bops w wb (ops @ e_ops es') (ps_world st')) st"
  using assms
proof (induction es arbitrary: st ops)
  case (Cons e es)
  have e: "entry_ok v e" "list_all (entry_ok v) es" using Cons.prems(1) by simp_all
  show ?case
    unfolding create_puts.simps
  proof (rule wp_seq)
    show "wp (on_rng (rw_fillEntry fuel numKeys v e)) (\<lambda>e' st1. filled v (numKeys * 10000000) e e' \<and>
        ps_x st1 = ps_x st \<and> ps_world st1 = ps_world st \<and> fair fuel (ps_rng st1)) st"
      unfolding wp_on
      by (rule wp_mono [OF wp_rw_fillEntry [OF e(1) Cons.prems(2-4)]])
        (use Cons.prems(4) in \<open>auto dest: same_src_fair\<close>)
  next
    fix e' and st1 :: "('b, 'f, 'e, 'x) pstate"
    assume st1: "filled v (numKeys * 10000000) e e' \<and> ps_x st1 = ps_x st \<and> ps_world st1 = ps_world st \<and>
      fair fuel (ps_rng st1)"
    have "batch_at bops w wb ops (ps_world st1)" using st1 Cons.prems(5) by simp
    from wp_batch_op [OF this, of "(fst (e_op e'), Some (snd (e_op e')))"]
    have put: "wp (WriteBatch_Put R wb (fst (e_op e')) (snd (e_op e')))
        (\<lambda>_. batch_at bops w wb (ops @ [(fst (e_op e'), Some (snd (e_op e')))])) (ps_world st1)"
      by (simp add: batch_op_def)
    show "wp (andthen (on_world (WriteBatch_Put R wb (fst (e_op e')) (snd (e_op e'))))
        (bnd (create_puts fuel R numKeys v wb es) (\<lambda>es'. ret (e' # es'))))
      (\<lambda>es' st'. ps_x st' = ps_x st \<and> list_all2 (filled v (numKeys * 10000000)) (e # es) es' \<and>
        batch_at bops w wb (ops @ e_ops es') (ps_world st')) st1"
      unfolding wp_bnd wp_on wp_ret
      by (rule wp_mono [OF put], rule wp_mono [OF Cons.IH [OF e(2) Cons.prems(2,3)]])
        (use st1 in auto)
  qed
qed simp

lemma wp_createEntries:
  fixes st :: "('b, 'f, 'e, 'x) pstate"
  assumes "c_ok (ps_world st)" "list_all (entry_ok v) es" "0 < numKeys" "numKeys \<le> 1000"
    and "fair fuel (ps_rng st)"
  shows "wp (createEntries fuel R s numKeys v es) (\<lambda>(rb, es') st'. ps_x st' = ps_x st \<and>
    list_all2 (filled v (numKeys * 10000000)) es es' \<and>
    batch_at bops (ps_world st) rb (e_ops es') (ps_world st')) st"
  unfolding createEntries_def
proof (rule wp_seq)
  show "wp (on_world (Store_NewWriteBatch R s)) (\<lambda>rb st1. batch_at bops (ps_world st) rb [] (ps_world st1) \<and>
      ps_x st1 = ps_x st \<and> ps_rng st1 = ps_rng st) st"
    unfolding wp_on by (rule wp_mono [OF wp_batch_new [OF assms(1)]]) simp
next
  fix rb and st1 :: "('b, 'f, 'e, 'x) pstate"
  assume st1: "batch_at bops (ps_world st) rb [] (ps_world st1) \<and> ps_x st1 = ps_x st \<and> ps_rng st1 = ps_rng st"
  show "wp (bnd (create_puts fuel R numKeys v rb es) (\<lambda>es. ret (rb, es))) (\<lambda>(rb, es') st'.
      ps_x st' = ps_x st \<and> list_all2 (filled v (numKeys * 10000000)) es es' \<and>
      batch_at bops (ps_world st) rb (e_ops es') (ps_world st')) st1"
    unfolding wp_bnd wp_ret
    by (rule wp_mono [OF wp_create_puts [OF assms(2-4)]]) (use st1 assms(5) in auto)
qed

end

section \<open>The whole benchmark\<close>

text \<open>
  What the run relies on besides the engine's laws. The file system, for badger too: a
  directory removed without an error is empty, making a directory changes nothing, and
  removing a directory that does not contain badger's leaves the open badger alone; an opened
  badger has what its directory holds. Badger's iterator: it visits each key of the
  committed contents once.
\<close>

definition fs_law ::
  "('bt, 'lb, 'tx, 'lt, 'e, 'x) libs \<Rightarrow> ('e \<Rightarrow> astate) \<Rightarrow> ('x \<Rightarrow> contents) \<Rightarrow>
     ('x \<Rightarrow> bytes \<Rightarrow> contents) \<Rightarrow> bytes \<Rightarrow> bool" where
  "fs_law L \<alpha> view bdisk dir \<longleftrightarrow> disk_law L \<alpha> \<and>
     (\<forall>p e x e' x'. os_RemoveAll L p (e, x) = (None, (e', x')) \<longrightarrow>
        bdisk x' p = Map.empty \<and> (\<not> prefix p dir \<longrightarrow> view x' = view x)) \<and>
     (\<forall>p pm e x r e' x'. os_MkdirAll L p pm (e, x) = (r, (e', x')) \<longrightarrow> bdisk x' = bdisk x \<and> view x' = view x) \<and>
     (\<forall>p. bo_Dir (badger_DefaultOptions L p) = p) \<and>
     (\<forall>opt x x'. badger_Open L opt x = (None, x') \<longrightarrow> view x' = bdisk x (bo_Dir opt))"

definition badger_iter_law ::
  "('x, 'bi) badger_iter \<Rightarrow> ('x \<Rightarrow> contents) \<Rightarrow> ('bi \<Rightarrow> bytes list) \<Rightarrow> bool" where
  "badger_iter_law B view rest \<longleftrightarrow>
     (\<forall>x. distinct (rest (bi_Rewind B (bi_New B x))) \<and> set (rest (bi_Rewind B (bi_New B x))) = dom (view x)) \<and>
     (\<forall>it. bi_Valid B it = (rest it \<noteq> [])) \<and>
     (\<forall>it. rest it \<noteq> [] \<longrightarrow> rest (bi_Next B it) = tl (rest it))"

lemma fs_lawD:
  assumes "fs_law L \<alpha> view bdisk dir"
  shows "os_RemoveAll L p (e, x) = (None, (e', x')) \<Longrightarrow> disk_contents (\<alpha> e') p = Map.empty \<and>
      bdisk x' p = Map.empty \<and> (\<not> prefix p dir \<longrightarrow> view x' = view x)"
    and "os_MkdirAll L p pm (e, x) = (r, (e', x')) \<Longrightarrow>
      (\<forall>q. disk_contents (\<alpha> e') q = disk_contents (\<alpha> e) q) \<and> bdisk x' = bdisk x \<and> view x' = view x"
    and "bo_Dir (badger_DefaultOptions L p) = p"
    and "badger_Open L opt x = (None, x') \<Longrightarrow> view x' = bdisk x (bo_Dir opt)"
proof -
  note law = assms [unfolded fs_law_def disk_law_def]
  note rm = law [THEN conjunct1, THEN conjunct1] law [THEN conjunct2, THEN conjunct1]
  note mk = law [THEN conjunct1, THEN conjunct2] law [THEN conjunct2, THEN conjunct2, THEN conjunct1]
  show "os_RemoveAll L p (e, x) = (None, (e', x')) \<Longrightarrow> disk_contents (\<alpha> e') p = Map.empty \<and>
      bdisk x' p = Map.empty \<and> (\<not> prefix p dir \<longrightarrow> view x' = view x)"
    using rm by blast
  show "os_MkdirAll L p pm (e, x) = (r, (e', x')) \<Longrightarrow>
      (\<forall>q. disk_contents (\<alpha> e') q = disk_contents (\<alpha> e) q) \<and> bdisk x' = bdisk x \<and> view x' = view x"
    using mk by blast
qed (use assms in \<open>simp_all add: fs_law_def\<close>)

lemma wpx_reset_dir:
  fixes st :: "('b, 'f, 'e, 'x) pstate"
  assumes "fs_law L \<alpha> view bdisk dir" "y_law L"
  shows "wpx (reset_dir L True p) (check_fault L) (\<lambda>_ st1.
    (\<exists>e. ps_world st1 = (ps_world st)\<lparr>eng := e\<rparr>) \<and> ps_rng st1 = ps_rng st \<and>
    disk_contents (\<alpha> (eng (ps_world st1))) p = Map.empty \<and> bdisk (ps_x st1) p = Map.empty \<and>
    (\<not> prefix p dir \<longrightarrow> view (ps_x st1) = view (ps_x st))) st"
  by (auto simp: reset_dir_def io_if_def wpx_check [OF assms(2)] split: prod.splits
      dest!: fs_lawD(1,2) [OF assms(1)])

lemma wp_count_badger:
  assumes "badger_iter_law B view rest" "length (rest it) < fuel" "0 \<le> c" "c + int (length (rest it)) < 2 ^ 63"
  shows "wp (count_badger B it fuel c) (\<lambda>r s'. s' = s \<and> r = c + int (length (rest it))) s"
  using assms(2-)
proof (induction fuel arbitrary: it c)
  case (Suc n)
  show ?case
  proof (cases "rest it")
    case Nil
    then show ?thesis using assms(1) by (simp add: badger_iter_law_def)
  next
    case (Cons k ks)
    then have "bi_Valid B it" "rest (bi_Next B it) = ks"
      using assms(1) by (simp_all add: badger_iter_law_def)
    moreover have "go_int (c + 1) = c + 1" using Suc.prems Cons by (intro go_int_small) auto
    ultimately show ?thesis using Suc.IH [of "bi_Next B it" "c + 1"] Suc.prems Cons
      by (simp add: algebra_simps)
  qed
qed simp

lemma dom_apply_puts: "dom (apply_ops (e_ops es) m) = dom m \<union> (fst \<circ> e_op) ` set es"
  by (induction es arbitrary: m) auto

lemma wpx_badger_phase:
  fixes st :: "('b, 'f, 'e, 'x) pstate"
  assumes "badger_law L view pend" "badger_iter_law B view rest" "y_law L"
    and "n = card (dom (apply_ops (pend txn) (view (ps_x st))))" "n < fuel" "int n < 2 ^ 63"
  shows "wpx (badger_phase L B fuel txn) (check_fault L) (\<lambda>r _. r = int n) st"
proof -
  have "length (rest (bi_Rewind B (bi_New B x))) = n"
    if "badger_Commit L txn (ps_x st) = (None, x)" for x
    using that assms(1,2,4) distinct_card [of "rest (bi_Rewind B (bi_New B x))"]
    by (simp add: badger_law_def badger_iter_law_def)
  then show ?thesis
    using assms(5,6)
    by (auto simp: badger_phase_def wpx_check [OF assms(3)] wpx_def [of "\<lambda>s. Inr (bi_New B (ps_x s), s)"]
        split: prod.splits intro!: wp_wpx [OF wp_count_badger [OF assms(2)]])
qed

lemma on_scan:
  "bnd (on_world m) (\<lambda>(it, c). andthen (on_world (f it c)) (andthen (on_world (g it c)) (ret c))) =
     on_world (bnd m (\<lambda>(it, c). andthen (f it c) (andthen (g it c) (ret c))))"
  by (auto simp: fun_eq_iff bnd_def on_world_def ret_def split: sum.splits prod.splits)

context rocks_iter
begin

lemma wp_scan_close:
  assumes "c_ok w" "store_live w s d ro wo" "a_db (\<alpha> (eng w)) d = Some db" "live_wb w rb b"
    and "n = card (dom (ad_kv db))" "n < fuel" "n < 2 ^ 63"
  shows "wp (bnd (count_rocks R s fuel) (\<lambda>(it, c). andthen (WriteBatch_Destroy rb)
      (andthen (Store_Close R s) (ret c))))
    (\<lambda>r w'. 0 \<le> r \<and> r \<le> int n \<and> (never_fails \<alpha> \<longrightarrow> r = int n)) w"
proof -
  obtain gd where gd: "s_db s = Some gd" "live_db w gd d"
    using assms(2) by (elim store_liveE)
  have neq: "db_c gd \<noteq> wb_c rb" using gd(2) assms(4) by auto
  have tail: "wp (andthen (WriteBatch_Destroy rb) (andthen (Store_Close R s) (ret c))) (\<lambda>r _. r = c) w1"
    if w1: "c_ok w1" "heap_keeps w w1" for w1 and c :: int
  proof -
    have live: "live_wb w1 rb b" "live_db w1 gd d"
      using w1(2) assms(4) gd(2) by (auto dest: heap_keepsD)
    show ?thesis
      unfolding wp_bnd Store_Close_def with_db_def gd(1) option.case
      by (rule wp_mono [OF wp_WriteBatch_Destroy [OF w1(1) live(1)]], rule wp_mono [OF wp_DB_Close])
        (use live neq in auto)
  qed
  have count: "wp (count_rocks R s fuel) (\<lambda>x w1. c_ok w1 \<and> heap_keeps w w1 \<and> 0 \<le> snd x \<and>
      snd x \<le> int n \<and> (never_fails \<alpha> \<longrightarrow> snd x = int n)) w"
    by (rule wp_mono [OF wp_count_rocks [OF assms(1-3)]])
      (use assms(5-7) in \<open>auto simp: never_fails_def\<close>)
  show ?thesis
    unfolding split_def by (rule wp_seq [OF count], rule wp_mono [OF tail]) auto
qed

lemma wpx_rocks_phase:
  fixes st :: "('a, 'b, 'c, 'x) pstate"
  assumes "y_law L" "store_live w s d ro wo" "a_db (\<alpha> (eng w)) d = Some db"
    and "batch_at bops w rb ops (ps_world st)"
    and "n = card (dom (apply_ops ops (ad_kv db)))" "n < fuel" "n < 2 ^ 63"
  shows "wpx (rocks_phase L R fuel s rb) (check_fault L)
    (\<lambda>r st'. ps_x st' = ps_x st \<and> 0 \<le> r \<and> r \<le> int n \<and> (never_fails \<alpha> \<longrightarrow> r = int n)) st"
  unfolding rocks_phase_def on_scan
proof (rule wpx_seq)
  show "wpx (on_world (Store_WriteBatch R s rb)) (check_fault L) (\<lambda>r st1. ps_x st1 = ps_x st \<and>
      mem_same (ps_world st) (ps_world st1) \<and> (r = None \<longrightarrow>
        \<alpha> (eng (ps_world st1)) = a_write d db (apply_ops ops (ad_kv db)) (\<alpha> (eng w)))) st"
    unfolding wpx_on by (rule wp_wpx [OF wp_batch_write [OF assms(2-4)]]) auto
next
  fix r :: "bytes option" and st1 :: "('a, 'b, 'c, 'x) pstate"
  assume st1: "ps_x st1 = ps_x st \<and> mem_same (ps_world st) (ps_world st1) \<and> (r = None \<longrightarrow>
    \<alpha> (eng (ps_world st1)) = a_write d db (apply_ops ops (ad_kv db)) (\<alpha> (eng w)))"
  obtain b where b: "live_wb (ps_world st1) rb b" "c_ok (ps_world st1)"
      "c_heap (ps_world st1) = (c_heap w)(wb_c rb \<mapsto> Obj (WbObj b))" "c_heap w (wb_c rb) = None"
    using assms(4) st1 by (auto simp: batch_at_def mem_same_def)
  note live = store_live_keeps [OF assms(2) heap_keeps_alloc [OF b(4,3)]]
  show "wpx (andthen (check L r) (on_world (bnd (count_rocks R s fuel) (\<lambda>(it, c).
      andthen (WriteBatch_Destroy rb) (andthen (Store_Close R s) (ret c)))))) (check_fault L)
    (\<lambda>r st'. ps_x st' = ps_x st \<and> 0 \<le> r \<and> r \<le> int n \<and> (never_fails \<alpha> \<longrightarrow> r = int n)) st1"
    unfolding wpx_bnd [of "check L r"] wpx_check [OF assms(1)] wpx_on
    by (intro impI wp_wpx [OF wp_scan_close [where db = "db\<lparr>ad_kv := apply_ops ops (ad_kv db)\<rparr>",
        OF b(2) live _ b(1) _ assms(6,7)]])
      (use st1 assms(5) in simp_all)
qed

end

context rocks_dir
begin

lemma wpx_open_both:
  fixes st :: "('a, 'b, 'c, 'x) pstate"
  assumes "fs_law L \<alpha> view bdisk ''tmp/badger''" "y_law L" "c_ok (ps_world st)"
  shows "wpx (open_both L R) (check_fault L) (\<lambda>s st1. ps_rng st1 = ps_rng st \<and> c_ok (ps_world st1) \<and>
    view (ps_x st1) = Map.empty \<and> (\<exists>d ro wo db. store_live (ps_world st1) s d ro wo \<and>
      a_db (\<alpha> (eng (ps_world st1))) d = Some db \<and> ad_kv db = Map.empty)) st"
proof -
  have rocks: "wpx (bnd (on_world (NewStore R ''tmp/rocks'')) (\<lambda>(rocks, err). andthen (check L err) (ret rocks)))
      (check_fault L) (\<lambda>s st2. ps_rng st2 = ps_rng st1 \<and> c_ok (ps_world st2) \<and> ps_x st2 = ps_x st1 \<and>
        (\<exists>d ro wo db. store_live (ps_world st2) s d ro wo \<and>
          a_db (\<alpha> (eng (ps_world st2))) d = Some db \<and> ad_kv db = Map.empty)) st1"
    if "c_ok (ps_world st1)" "disk_contents (\<alpha> (eng (ps_world st1))) ''tmp/rocks'' = Map.empty"
    for st1 :: "('a, 'b, 'c, 'x) pstate"
    unfolding wpx_bnd wpx_on split_def
    by (rule wp_wpx [OF wp_open [OF that(1)]])
      (use that(2) in \<open>force simp: wpx_check [OF assms(2)] open_result_def cstr_def\<close>)
  show ?thesis
    unfolding open_both_def
    apply (rule wpx_seq [OF wpx_reset_dir [OF assms(1,2)]])
    apply (rule wpx_seq [where P = "\<lambda>err st2. ps_rng st2 = ps_rng st \<and> c_ok (ps_world st2) \<and> (err = None \<longrightarrow> view (ps_x st2) = Map.empty)"])
    subgoal using assms(3) by (auto simp: fs_lawD(3) [OF assms(1)] dest!: fs_lawD(4) [OF assms(1)] split: prod.splits)
    apply (rule wpx_seq [where P = "\<lambda>_ st2. ps_rng st2 = ps_rng st \<and> c_ok (ps_world st2) \<and> view (ps_x st2) = Map.empty"])
    subgoal by (simp add: wpx_check [OF assms(2)])
    apply (rule wpx_seq [OF wpx_reset_dir [OF assms(1,2)]])
    apply (rule wpx_mono [OF rocks])
    apply auto
    done
qed

end

text \<open>The two phases on one list of entries: both count the entries' distinct keys.\<close>

lemma wpx_rw_measure:
  fixes st :: "('b, 'f, 'e, 'x) pstate"
  assumes "rocks_iter R \<alpha> bops" "y_law L" "badger_law L view pend" "badger_iter_law B view rest"
    and "store_live w s d ro wo" "a_db (\<alpha> (eng w)) d = Some db" "ad_kv db = Map.empty"
    and "batch_at bops w rb (e_ops es) (ps_world st)" "view (ps_x st) = Map.empty"
    and n: "n = card ((fst \<circ> e_op) ` set es)" "n < fuel" "n < 2 ^ 63"
  shows "wpx (rw_measure L B R fuel s rb es) (check_fault L)
    (\<lambda>x _. snd x = int n \<and> 0 \<le> fst x \<and> fst x \<le> int n \<and> (never_fails \<alpha> \<longrightarrow> fst x = int n)) st"
proof -
  obtain t x where t: "badger_NewTransaction L (ps_x st) = (t, x)" by fastforce
  then have x: "view x = Map.empty" "pend t = []" using assms(3,9) by (auto simp: badger_law_def)
  have dom: "n = card (dom (apply_ops (e_ops es) Map.empty))" by (simp add: dom_apply_puts n(1))
  have badger: "wpx (bnd (badger_phase L B fuel txn) (\<lambda>b. ret (r, b)))
      (check_fault L) (\<lambda>x _. x = (r, int n)) st1"
    if "view (ps_x st1) = Map.empty" "pend txn = e_ops es" for r :: int and txn and st1 :: "('b, 'f, 'e, 'x) pstate"
    by (rule wpx_seq [OF wpx_badger_phase [OF assms(3,4,2)]])
      (use that dom n in \<open>auto split: prod.splits\<close>)
  have rocks: "wpx (rocks_phase L R fuel s rb) (check_fault L)
      (\<lambda>r st'. ps_x st' = x \<and> 0 \<le> r \<and> r \<le> int n \<and> (never_fails \<alpha> \<longrightarrow> r = int n)) (st\<lparr>ps_x := x\<rparr>)"
    using rocks_iter.wpx_rocks_phase [OF assms(1,2,5,6), of rb "e_ops es" "st\<lparr>ps_x := x\<rparr>" n fuel] assms(7,8) dom n
    by simp
  show ?thesis
    unfolding rw_measure_def
    by (subst wpx_bnd, simp add: t del: wpx_bnd, rule wpx_seq [OF wpx_badger_sets [OF assms(3,2)]])
      (use x in \<open>auto simp del: wpx_bnd intro!: wpx_seq [OF rocks] wpx_mono [OF badger]\<close>)
qed

text \<open>What the two counts have to do with the entries of the run.\<close>

definition counts_entries :: "('e \<Rightarrow> astate) \<Rightarrow> int \<Rightarrow> int \<Rightarrow> int \<times> int \<Rightarrow> bool" where
  "counts_entries \<alpha> numKeys v = (\<lambda>(rcount, bcount). \<exists>es. length es = nat (numKeys * 1000000) \<and>
     (\<forall>e \<in> set es. \<exists>k. 0 \<le> k \<and> k < numKeys * 10000000 \<and> fst (e_op e) = key_string v k) \<and>
     bcount = int (card ((fst \<circ> e_op) ` set es)) \<and> 0 \<le> rcount \<and> rcount \<le> bcount \<and>
     (never_fails \<alpha> \<longrightarrow> rcount = bcount))"

lemma wpx_rw_counted:
  fixes st :: "('b, 'f, 'e, 'x) pstate"
  assumes "rocks_iter R \<alpha> bops" "y_law L" "badger_law L view pend" "badger_iter_law B view rest"
    and "store_live w s d ro wo" "a_db (\<alpha> (eng w)) d = Some db" "ad_kv db = Map.empty"
    and "batch_at bops w rb (e_ops es) (ps_world st)" "view (ps_x st) = Map.empty"
    and "list_all2 (filled v (numKeys * 10000000)) (replicate (nat (numKeys * 1000000)) e0) es"
    and "numKeys * 1000000 < int fuel" "numKeys \<le> 1000" "0 < numKeys"
  shows "wpx (rw_measure L B R fuel s rb es) (check_fault L) (\<lambda>r _. counts_entries \<alpha> numKeys v r) st"
proof -
  have es: "length es = nat (numKeys * 1000000)"
    "\<forall>e \<in> set es. \<exists>k. 0 \<le> k \<and> k < numKeys * 10000000 \<and> fst (e_op e) = key_string v k"
    using assms(10) by (auto simp: list_all2_conv_all_nth filled_def e_op_def in_set_conv_nth)
  have "card ((fst \<circ> e_op) ` set es) \<le> nat (numKeys * 1000000)"
    using card_image_le [of "set es" "fst \<circ> e_op"] card_length [of es] es(1) by simp
  moreover have "nat (numKeys * 1000000) < 2 ^ 63" "nat (numKeys * 1000000) < fuel"
    using assms(11-13) by (simp_all add: nat_less_iff)
  ultimately have "card ((fst \<circ> e_op) ` set es) < 2 ^ 63" "card ((fst \<circ> e_op) ` set es) < fuel"
    by (auto elim: order.strict_trans1)
  then show ?thesis
    by (intro wpx_mono [OF wpx_rw_measure [OF assms(1-9) refl]]) (use es in \<open>auto simp: counts_entries_def\<close>)
qed

lemma wpx_rw_bench:
  fixes st :: "('b, 'f, 'e, 'x) pstate"
  assumes "rocks_iter R \<alpha> bops" and "rocks_dir R \<alpha> bops" and "y_law L"
    and "badger_law L view pend" and "badger_iter_law B view rest"
    and "fs_law L \<alpha> view bdisk ''tmp/badger''" and "c_ok (ps_world st)"
    and "0 < numKeys" and "numKeys \<le> 1000" and "0 \<le> v"
    and "fair fuel (ps_rng st)" and "numKeys * 1000000 < int fuel"
  shows "wpx (rw_bench L B R fuel numKeys v) (check_fault L) (\<lambda>r _. counts_entries \<alpha> numKeys v r) st"
proof -
  let ?es0 = "replicate (nat (numKeys * 1000000)) (new_entry (nat v))"
  have kv: "rocks_kv R \<alpha> bops" using assms(1) by (rule rocks_iter.axioms)
  have es0: "list_all (entry_ok v) ?es0"
    using new_entry_ok [of "nat v"] assms(10) by (simp add: list_all_iff)
  have make: "wpx (make_entries numKeys v) F Q s = Q ?es0 s" for F Q and s :: "('b, 'f, 'e, 'x) pstate"
    using assms(8-10) by (simp add: make_entries_def)
  have fill: "wpx (createEntries fuel R s numKeys v ?es0) (check_fault L) (\<lambda>p st2. ps_x st2 = ps_x st1 \<and>
      list_all2 (filled v (numKeys * 10000000)) ?es0 (snd p) \<and>
      batch_at bops (ps_world st1) (fst p) (e_ops (snd p)) (ps_world st2)) st1"
    if "c_ok (ps_world st1)" "ps_rng st1 = ps_rng st" for s and st1 :: "('b, 'f, 'e, 'x) pstate"
    by (rule wp_wpx [OF rocks_kv.wp_createEntries [OF kv that(1) es0 assms(8,9)]])
      (use assms(11) that(2) in auto)
  show ?thesis
    unfolding rw_bench_def
    by (rule wpx_seq [OF rocks_dir.wpx_open_both [OF assms(2,6,3,7)]], subst wpx_bnd, subst make,
        rule wpx_seq [OF fill])
      (use assms(8,9,12) in \<open>auto simp: split_def intro: wpx_rw_counted [OF assms(1,3-5)]\<close>)
qed

text \<open>Starting the CPU profile leaves the C memory and the generator alone.\<close>

definition profile_fault :: "bytes \<Rightarrow> bytes \<Rightarrow> fault \<Rightarrow> bool" where
  "profile_fault cpuprofile memprofile f \<longleftrightarrow>
     cpuprofile \<noteq> [] \<and> (\<exists>e. f = Fatal (''could not create CPU profile: '' @ e) \<or> f = Fatal (''could not start CPU profile: '' @ e)) \<or>
     memprofile \<noteq> [] \<and> (\<exists>e. f = Fatal (''could not create memory profile: '' @ e) \<or> f = Fatal (''could not write memory profile: '' @ e))"

lemma on_x_skip: "bnd (on_x (Pair ())) (\<lambda>_. m) = m"
  by (simp add: on_x_def bnd_def)

lemma wpx_profile_file:
  fixes st :: "('b, 'f, 'e, 'x) pstate"
  assumes "\<And>e. F (Fatal (m1 @ e))" "\<And>e. F (Fatal (m2 @ e))"
  shows "wpx (bnd (on_disk c) (\<lambda>(f, err). andthen (fatal_if m1 err) (bnd (on_x (act f)) (\<lambda>err.
      andthen (fatal_if m2 err) (andthen (on_x (fin f)) (ret ())))))) F (\<lambda>_ st'. c_ok (ps_world st') = c_ok (ps_world st) \<and> ps_rng st' = ps_rng st) st"
  using assms by (auto simp: fatal_if_def split: prod.splits option.splits)

lemma wpx_start_cpu_profile:
  assumes "\<And>f. profile_fault cpuprofile memprofile f \<Longrightarrow> F f"
  shows "wpx (start_cpu_profile P cpuprofile) F (\<lambda>_ st'. c_ok (ps_world st') = c_ok (ps_world st) \<and> ps_rng st' = ps_rng st) st"
proof (cases "cpuprofile = []")
  case False
  have "F (Fatal (''could not create CPU profile: '' @ e))" "F (Fatal (''could not start CPU profile: '' @ e))" for e
    by (rule assms, unfold profile_fault_def, use False in blast)+
  from wpx_profile_file [where F = F, OF this, where fin = "\<lambda>f. Pair ()" and c = "os_Create P cpuprofile" and act = "pprof_StartCPUProfile P"] False show ?thesis
    unfolding start_cpu_profile_def io_if_def by (simp only: on_x_skip not_False_eq_True if_True)
qed (simp add: start_cpu_profile_def io_if_def)

lemma wpx_write_mem_profile:
  assumes "\<And>f. profile_fault cpuprofile memprofile f \<Longrightarrow> F f"
  shows "wpx (write_mem_profile P memprofile) F (\<lambda>_ _. True) st"
proof (cases "memprofile = []")
  case False
  have "F (Fatal (''could not create memory profile: '' @ e))" "F (Fatal (''could not write memory profile: '' @ e))" for e
    by (rule assms, unfold profile_fault_def, use False in blast)+
  from wpx_mono [OF wpx_profile_file [where F = F, OF this, of "os_Create P memprofile" "pprof_WriteHeapProfile P" "os_Close P"] TrueI] False
  show ?thesis unfolding write_mem_profile_def io_if_def by (simp only: not_False_eq_True if_True)
qed (simp add: write_mem_profile_def io_if_def)


text \<open>An iterator over the association list of the reference libraries.\<close>

definition ref_badger_iter :: "(kvlist, bytes list) badger_iter" where
  "ref_badger_iter = \<lparr>bi_New = (\<lambda>x. remdups (map fst x)), bi_Rewind = (\<lambda>it. it),
     bi_Valid = (\<lambda>it. it \<noteq> []), bi_Next = tl\<rparr>"

lemma ref_run_laws:
  "badger_iter_law ref_badger_iter map_of (\<lambda>it. it)"
  "fs_law ref_libs ref_abs map_of (\<lambda>_ _. Map.empty) dir"
  by (simp add: badger_iter_law_def ref_badger_iter_def dom_map_of_conv_image_fst)
    (simp add: fs_law_def ref_disk_law, simp add: ref_libs_def)

definition rng_cycle :: rng where
  "rng_cycle = \<lparr>rg_src = (\<lambda>i. i mod 1000), rg_pos = 0, rg_val = 0, rg_left = 0\<rparr>"

lemma rng_cycle_fair: "0 < fuel \<Longrightarrow> fair fuel rng_cycle"
proof -
  have "i mod 1000 < (2 ^ 62 :: nat)" for i :: nat
    using mod_less_divisor [of 1000 i] by (simp add: order.strict_trans)
  then show "0 < fuel \<Longrightarrow> fair fuel rng_cycle" by (auto simp: fair_def rng_cycle_def)
qed

text \<open>A profiler whose files can be created, except with an empty name, and whose profiles start.\<close>

definition ref_profiler :: "('e, 'x) profiler" where
  "ref_profiler = \<lparr>os_Create = (\<lambda>p y. ((3, if p = [] then Some ''open : no such file or directory'' else None), y)),
     os_Close = (\<lambda>f x. (None, x)), pprof_StartCPUProfile = (\<lambda>f x. (None, x)), pprof_StopCPUProfile = Pair (),
     pprof_WriteHeapProfile = (\<lambda>f x. (None, x))\<rparr>"


end
