(* ===== verification/RandRead.thy ===== *)
theory RandRead
  imports Rand
begin

text \<open>
  The random-read benchmark \<^verbatim>\<open>src/randread/main.go\<close>: collecting the files of a directory,
  choosing a file and an offset, the serial read loop and \<open>main\<close>; the concurrent loops are in
  \<open>RandConc\<close>. The clock and the timer are inputs: a run of the serial loop is the list of the
  durations (in nanoseconds) of the reads it makes before it sees \<open>done\<close>. The histogram is
  third-party code and a parameter.
\<close>

section \<open>Files and the histogram\<close>

record ofile =
  f_name :: bytes
  f_size :: int

text \<open>\<open>ReadAt(b, off)\<close> fails unless all of \<open>len(b)\<close> bytes are there.\<close>

definition ReadAt :: "ofile \<Rightarrow> int \<Rightarrow> int \<Rightarrow> bytes option" where
  "ReadAt f n off = (if off < 0 then Some ''negative offset''
     else if off + n \<le> f_size f then None else Some ''EOF'')"

record 'h histogram =
  h_New :: 'h
  h_RecordValue :: "int \<Rightarrow> 'h \<Rightarrow> bytes option \<times> 'h"
  h_TotalCount :: "'h \<Rightarrow> int"

definition readSize :: int where
  "readSize = 1024"

section \<open>Choosing a file and an offset\<close>

definition getIndices :: "nat \<Rightarrow> ofile list \<Rightarrow> int \<Rightarrow> (rng, ofile \<times> int) io" where
  "getIndices fuel flist maxFileSize =
     bnd (Intn fuel (int (length flist))) (\<lambda>fidx.
     bnd (Int63n fuel (maxFileSize - readSize)) (\<lambda>iidx.
     ret (flist ! nat fidx, iidx)))"

definition getAIOIndices :: "nat \<Rightarrow> 'a list \<Rightarrow> int \<Rightarrow> (rng, 'a \<times> int) io" where
  "getAIOIndices fuel aios maxFileSize =
     bnd (Intn fuel (int (length aios))) (\<lambda>fidx.
     bnd (Int63n fuel (maxFileSize - readSize)) (\<lambda>iidx.
     ret (aios ! nat fidx, iidx)))"

section \<open>The serial loop\<close>

text \<open>Microseconds, cut off at the histogram's highest value.\<close>

definition clamp_dur :: "int \<Rightarrow> int" where
  "clamp_dur ns = (let dur = (if ns \<ge> 0 then ns div 1000 else - ((- ns) div 1000)) in
     if dur > 1000000 then 1000000 else dur)"

record 'h rstate =
  rs_rng :: rng
  rs_hist :: 'h

definition on_rrng :: "(rng, 'a) io \<Rightarrow> ('h rstate, 'a) io" where
  "on_rrng m = (\<lambda>s. case m (rs_rng s) of
     Inl e \<Rightarrow> Inl e | Inr (r, g) \<Rightarrow> Inr (r, s\<lparr>rs_rng := g\<rparr>))"

definition record_dur :: "'h histogram \<Rightarrow> int \<Rightarrow> ('h rstate, unit) io" where
  "record_dur H dur = (\<lambda>s. case h_RecordValue H dur (rs_hist s) of
     (None, h) \<Rightarrow> Inr ((), s\<lparr>rs_hist := h\<rparr>)
   | (Some e, h) \<Rightarrow> Inl (Fatal (''Unable to record hist: '' @ e)))"

definition read_once ::
  "'h histogram \<Rightarrow> nat \<Rightarrow> ofile list \<Rightarrow> int \<Rightarrow> int \<Rightarrow> ('h rstate, unit) io" where
  "read_once H fuel fList maxFileSize ns =
     bnd (on_rrng (getIndices fuel fList maxFileSize)) (\<lambda>(fd, offset).
     case ReadAt fd readSize offset of
       Some e \<Rightarrow> fail (Fatal (''Error reading file: '' @ e))
     | None \<Rightarrow> record_dur H (clamp_dur ns))"

fun serial_loop ::
  "'h histogram \<Rightarrow> nat \<Rightarrow> ofile list \<Rightarrow> int \<Rightarrow> int list \<Rightarrow> int \<Rightarrow> ('h rstate, int) io" where
  "serial_loop H fuel fList maxFileSize [] count = ret count"
| "serial_loop H fuel fList maxFileSize (ns # rest) count =
     andthen (read_once H fuel fList maxFileSize ns)
       (serial_loop H fuel fList maxFileSize rest (count + 1))"

definition Serial ::
  "'h histogram \<Rightarrow> nat \<Rightarrow> ofile list \<Rightarrow> int \<Rightarrow> int list \<Rightarrow> (rng, int \<times> 'h) io" where
  "Serial H fuel fList maxFileSize durs = (\<lambda>r.
     case serial_loop H fuel fList maxFileSize durs 0 \<lparr>rs_rng = r, rs_hist = h_New H\<rparr> of
       Inl f \<Rightarrow> Inl f
     | Inr (count, s) \<Rightarrow> Inr ((count, rs_hist s), rs_rng s))"

section \<open>Collecting the files\<close>

text \<open>
  What \<open>filepath.Walk\<close> reports of one path, and what opening it gives. \<open>y.AssertTruef\<close>
  ends the process when its condition is false.
\<close>

record visit =
  v_path :: bytes
  v_err :: "bytes option"
  v_isdir :: bool
  v_size :: int
  v_open_err :: "bytes option"

type_synonym fstate = "ofile list \<times> int"

definition getFile :: "(bool \<Rightarrow> fault option) \<Rightarrow> visit \<Rightarrow> (fstate, unit) io" where
  "getFile y_AssertTruef v = (\<lambda>(flist, maxFileSize).
     if v_err v \<noteq> None then Inr ((), (flist, maxFileSize))
     else if v_isdir v then Inr ((), (flist, maxFileSize))
     else case y_AssertTruef (v_open_err v = None) of
       Some f \<Rightarrow> Inl f
     | None \<Rightarrow> Inr ((), (flist @ [\<lparr>f_name = v_path v, f_size = v_size v\<rparr>], v_size v)))"

definition walk_files :: "(bool \<Rightarrow> fault option) \<Rightarrow> visit list \<Rightarrow> (fstate, unit) io" where
  "walk_files y_AssertTruef vs = io_for vs (getFile y_AssertTruef)"

text \<open>\<open>main\<close>: walk, require a file, call the loop the mode asks for with these arguments.\<close>

datatype rr_mode = SerialMode | Conc2Mode | ConcAioMode

definition randread_main ::
  "(bool \<Rightarrow> fault option) \<Rightarrow> bytes option \<Rightarrow> visit list \<Rightarrow> int \<Rightarrow> fault + (rr_mode \<times> ofile list \<times> int)" where
  "randread_main y_AssertTruef walk_err vs mode =
     (case walk_files y_AssertTruef vs ([], 0) of
        Inl f \<Rightarrow> Inl f
      | Inr (_, (flist, maxFileSize)) \<Rightarrow>
          (case walk_err of Some e \<Rightarrow> Inl (Fatal e) | None \<Rightarrow>
           if flist = [] then Inl (Fatal ''Must have files already created'')
           else if mode = 0 then Inr (SerialMode, flist, maxFileSize)
           else if mode = 1 then Inr (Conc2Mode, flist, maxFileSize)
           else if mode = 2 then Inr (ConcAioMode, flist, maxFileSize)
           else Inl (Fatal ''Unknown mode'')))"

section \<open>Offsets are in range\<close>

lemma wp_getAIOIndices:
  assumes "fair fuel g" "aios \<noteq> []" "int (length aios) < 2 ^ 63" "readSize < maxFileSize" "maxFileSize < 2 ^ 63"
  shows "wp (getAIOIndices fuel aios maxFileSize) (\<lambda>(a, off) g'. a \<in> set aios \<and> 0 \<le> off \<and>
    off + readSize < maxFileSize \<and> same_src g g') g"
proof -
  have second: "wp (Int63n fuel (maxFileSize - readSize)) (\<lambda>off g'. 0 \<le> off \<and> off < maxFileSize - readSize \<and>
      same_src g g') g1" if "same_src g g1" for g1
    by (rule wp_mono [OF Int63n_range])
      (use assms(1,4,5) that same_src_fair [OF that] in \<open>auto simp: readSize_def intro: same_src_trans\<close>)
  show ?thesis
    unfolding getAIOIndices_def
    by (rule wp_seq [OF Intn_range [OF assms(1) _ assms(3)]])
      (use assms(2) in \<open>auto intro!: wp_mono [OF second]\<close>)
qed

lemma getIndices_eq: "getIndices fuel flist maxFileSize = getAIOIndices fuel flist maxFileSize"
  by (simp add: getIndices_def getAIOIndices_def)

lemma getIndices_panics:
  assumes "fair fuel g" "flist \<noteq> []" "int (length flist) < 2 ^ 63" "maxFileSize \<le> readSize"
  shows "getIndices fuel flist maxFileSize g = Inl (Panic ''invalid argument to Int63n'')"
proof -
  obtain r where "Intn fuel (int (length flist)) g = Inr r"
    using Intn_range [OF assms(1) _ assms(3)] assms(2) by (auto simp: wp_def split: sum.splits)
  then show ?thesis
    using assms(4) by (simp add: getIndices_def bnd_def Int63n_def fail_def split: prod.splits)
qed

section \<open>The loop\<close>

lemma wp_on_rrng [wp_simps, simp]:
  "wp (on_rrng m) Q s = wp m (\<lambda>r g. Q r (s\<lparr>rs_rng := g\<rparr>)) (rs_rng s)"
  by (auto simp: wp_def on_rrng_def split: sum.splits)

text \<open>
  The histogram was made for values up to 1,000,000: recording one in that range succeeds and
  counts one more.
\<close>

definition hist_law :: "'h histogram \<Rightarrow> bool" where
  "hist_law H \<longleftrightarrow> h_TotalCount H (h_New H) = 0 \<and>
     (\<forall>v h. 0 \<le> v \<and> v \<le> 1000000 \<longrightarrow> fst (h_RecordValue H v h) = None \<and>
        h_TotalCount H (snd (h_RecordValue H v h)) = h_TotalCount H h + 1)"

lemma clamp_dur_range: "0 \<le> ns \<Longrightarrow> 0 \<le> clamp_dur ns \<and> clamp_dur ns \<le> 1000000"
  by (auto simp: clamp_dur_def Let_def pos_imp_zdiv_nonneg_iff)

text \<open>Files that are all at least as large as the size the offsets are drawn for.\<close>

definition readable_files :: "ofile list \<Rightarrow> int \<Rightarrow> bool" where
  "readable_files fs n \<longleftrightarrow> fs \<noteq> [] \<and> int (length fs) < 2 ^ 63 \<and> readSize < n \<and> n < 2 ^ 63 \<and>
     (\<forall>f \<in> set fs. n \<le> f_size f)"

lemma wp_read_once:
  assumes "hist_law H" "readable_files fs n" "fair fuel (rs_rng s)" "0 \<le> ns"
  shows "wp (read_once H fuel fs n ns) (\<lambda>_ s'. same_src (rs_rng s) (rs_rng s') \<and>
    h_TotalCount H (rs_hist s') = h_TotalCount H (rs_hist s) + 1) s"
proof -
  have rec: "wp (record_dur H (clamp_dur ns)) (\<lambda>_ s'. rs_rng s' = g \<and>
      h_TotalCount H (rs_hist s') = h_TotalCount H (rs_hist s) + 1) (s\<lparr>rs_rng := g\<rparr>)" for g
    using assms(1) clamp_dur_range [OF assms(4)]
    by (cases "h_RecordValue H (clamp_dur ns) (rs_hist s)")
      (auto simp: record_dur_def wp_def hist_law_def split: option.splits,
       (metis fst_conv snd_conv option.distinct(1))+)
  have files: "fs \<noteq> []" "int (length fs) < 2 ^ 63" "readSize < n" "n < 2 ^ 63" "\<forall>f \<in> set fs. n \<le> f_size f"
    using assms(2) by (simp_all add: readable_files_def)
  show ?thesis
    unfolding read_once_def wp_bnd wp_on_rrng getIndices_eq
    by (rule wp_mono [OF wp_getAIOIndices [OF assms(3) files(1-4)]])
      (use files(5) in \<open>auto simp: ReadAt_def intro!: wp_mono [OF rec]\<close>)
qed

lemma wp_serial_loop:
  assumes "hist_law H" "readable_files fs n" "\<forall>ns \<in> set durs. 0 \<le> ns" "fair fuel (rs_rng s)"
  shows "wp (serial_loop H fuel fs n durs count) (\<lambda>c s'. c = count + int (length durs) \<and>
    h_TotalCount H (rs_hist s') = h_TotalCount H (rs_hist s) + int (length durs)) s"
  using assms(3,4)
proof (induction durs arbitrary: count s)
  case (Cons ns durs)
  have "fair fuel (rs_rng s')" if "same_src (rs_rng s) (rs_rng s')" for s' :: "'a rstate"
    using Cons.prems(2) same_src_fair [OF that] by simp
  then have loop: "wp (serial_loop H fuel fs n durs (count + 1)) (\<lambda>c s'. c = count + 1 + int (length durs) \<and>
      h_TotalCount H (rs_hist s') = h_TotalCount H (rs_hist s1) + int (length durs)) s1"
    if "same_src (rs_rng s) (rs_rng s1)" for s1 :: "'a rstate"
    using Cons.IH Cons.prems(1) that by simp
  have "wp (read_once H fuel fs n ns) (\<lambda>_ s'. same_src (rs_rng s) (rs_rng s') \<and>
    h_TotalCount H (rs_hist s') = h_TotalCount H (rs_hist s) + 1) s"
    using wp_read_once [OF assms(1,2) Cons.prems(2)] Cons.prems(1) by simp
  then show ?case
    unfolding serial_loop.simps wp_bnd
    by (rule wp_mono) (auto intro!: wp_mono [OF loop])
qed simp

lemma wp_Serial: "wp (Serial H fuel fs n durs) Q g \<longleftrightarrow>
  wp (serial_loop H fuel fs n durs 0) (\<lambda>c s. Q (c, rs_hist s) (rs_rng s)) \<lparr>rs_rng = g, rs_hist = h_New H\<rparr>"
  by (auto simp: wp_def Serial_def split: sum.splits)

section \<open>The regular files of a walk\<close>

definition regular :: "visit \<Rightarrow> bool" where
  "regular v \<longleftrightarrow> v_err v = None \<and> \<not> v_isdir v"

definition visit_file :: "visit \<Rightarrow> ofile" where
  "visit_file v = \<lparr>f_name = v_path v, f_size = v_size v\<rparr>"

definition walk_result :: "visit list \<Rightarrow> fstate \<Rightarrow> fstate" where
  "walk_result vs = (\<lambda>(fs, n). (fs @ map visit_file (filter regular vs),
     if filter regular vs = [] then n else v_size (last (filter regular vs))))"

lemma walk_files_result:
  assumes "y_AssertTruef True = None" "\<forall>v \<in> set vs. regular v \<longrightarrow> v_open_err v = None"
  shows "walk_files y_AssertTruef vs st = Inr ((), walk_result vs st)"
  using assms(2)
proof (induction vs arbitrary: st)
  case (Cons v vs)
  have "getFile y_AssertTruef v st = Inr ((), walk_result [v] st)"
    using Cons.prems assms(1)
    by (cases st) (simp add: getFile_def walk_result_def regular_def visit_file_def)
  moreover have "walk_result vs (walk_result [v] st) = walk_result (v # vs) st"
    by (cases st) (simp add: walk_result_def)
  moreover have "io_for vs (getFile y_AssertTruef) (walk_result [v] st) = Inr ((), walk_result vs (walk_result [v] st))"
    using Cons.IH [of "walk_result [v] st"] Cons.prems by (simp add: walk_files_def)
  ultimately show ?case
    by (simp add: walk_files_def bnd_def)
qed (auto simp: walk_files_def walk_result_def ret_def)

text \<open>
  \<open>Serial\<close> over files that are all at least as large as the size the offsets are drawn for never
  fails: it reports the number of reads, and the histogram holds one value for each.
\<close>

lemma serial_total:
  assumes "hist_law H" "readable_files fList maxFileSize" "fair fuel r" "\<forall>ns \<in> set durs. 0 \<le> ns"
  shows "\<exists>h r'. Serial H fuel fList maxFileSize durs r = Inr ((int (length durs), h), r') \<and>
    h_TotalCount H h = int (length durs)"
proof -
  have "h_TotalCount H (h_New H) = 0"
    using assms(1) by (simp add: hist_law_def)
  then have "wp (Serial H fuel fList maxFileSize durs)
      (\<lambda>(c, h) _. c = int (length durs) \<and> h_TotalCount H h = int (length durs)) r"
    unfolding wp_Serial
    by (intro wp_mono [OF wp_serial_loop [OF assms(1,2,4)]]) (simp_all add: assms(3))
  then show ?thesis
    by (auto simp: wp_def split: sum.splits)
qed

section \<open>Properties\<close>

text \<open>A concrete histogram, two files and a source that draws zeros, for the witnesses.\<close>

definition ref_hist :: "int list histogram" where
  "ref_hist = \<lparr>h_New = [], h_RecordValue = (\<lambda>v h. if v \<le> 1000000 then (None, v # h) else (Some ''value to large'', h)),
     h_TotalCount = (\<lambda>h. int (length h))\<rparr>"

definition zero_rng :: rng where
  "zero_rng = \<lparr>rg_src = (\<lambda>_. 0), rg_pos = 0, rg_val = 0, rg_left = 0\<rparr>"

definition two_files :: "ofile list" where
  "two_files = [\<lparr>f_name = ''a'', f_size = 8192\<rparr>, \<lparr>f_name = ''b'', f_size = 4096\<rparr>]"

lemma ref_hist_law: "hist_law ref_hist"
  by (simp add: hist_law_def ref_hist_def)

lemma zero_rng_fair: "0 < fuel \<Longrightarrow> fair fuel zero_rng"
  by (auto simp: fair_def zero_rng_def)

lemma two_files_readable: "readable_files two_files 4096"
  by (simp add: readable_files_def two_files_def readSize_def)

text \<open>
  C33. \<open>main\<close> of randread: it reads from the regular files of the walk, in the walk's order,
  and the size it draws offsets for is that of the LAST of them. If every file is at least as
  large as the last one and that one is larger than a read, the files are readable; if the
  last one is not larger than a read, \<open>Serial\<close> panics in its first iteration.
\<close>

theorem randread_main_files:
  assumes "y_AssertTruef True = None" "\<forall>v \<in> set vs. regular v \<longrightarrow> v_open_err v = None"
    "fs = map visit_file (filter regular vs)" "fs \<noteq> []" "int (length vs) < 2 ^ 63" "v_size v < 2 ^ 63"
    "v = last (filter regular vs)"
  shows "randread_main y_AssertTruef None vs 0 = Inr (SerialMode, fs, v_size v) \<and>
    (readSize < v_size v \<and> (\<forall>f \<in> set fs. v_size v \<le> f_size f) \<longrightarrow> readable_files fs (v_size v)) \<and>
    (v_size v \<le> readSize \<and> fair fuel r \<longrightarrow>
      Serial H fuel fs (v_size v) (ns # durs) r = Inl (Panic ''invalid argument to Int63n''))"
proof (intro conjI impI)
  show "randread_main y_AssertTruef None vs 0 = Inr (SerialMode, fs, v_size v)"
    using assms(3,4,7) by (simp add: randread_main_def walk_files_result [where y_AssertTruef = y_AssertTruef, OF assms(1,2)] walk_result_def)
  have len: "int (length fs) < 2 ^ 63"
    using assms(5) le_less_trans [OF length_filter_le [of regular vs]] unfolding assms(3) by simp
  show "readable_files fs (v_size v)" if "readSize < v_size v \<and> (\<forall>f \<in> set fs. v_size v \<le> f_size f)"
    using that assms(4,6) len by (simp add: readable_files_def)
  show "Serial H fuel fs (v_size v) (ns # durs) r = Inl (Panic ''invalid argument to Int63n'')"
    if "v_size v \<le> readSize \<and> fair fuel r"
    using getIndices_panics [of fuel r fs "v_size v"] that assms(4) len
    by (simp add: Serial_def read_once_def bnd_def on_rrng_def)
qed

definition two_visits :: "int \<Rightarrow> visit list" where
  "two_visits n = [\<lparr>v_path = ''d'', v_err = None, v_isdir = True, v_size = 0, v_open_err = None\<rparr>,
     \<lparr>v_path = ''a'', v_err = None, v_isdir = False, v_size = 8192, v_open_err = None\<rparr>,
     \<lparr>v_path = ''b'', v_err = None, v_isdir = False, v_size = n, v_open_err = None\<rparr>]"

theorem randread_main_files_witness:
  "randread_main (\<lambda>b. if b then None else Some (Fatal ''assert'')) None (two_visits 4096) 0 =
     Inr (SerialMode, two_files, 4096) \<and> readable_files two_files 4096 \<and>
   Serial ref_hist 1 (map visit_file (filter regular (two_visits 1000))) 1000 [5] zero_rng =
     Inl (Panic ''invalid argument to Int63n'')"
proof -
  have ev: "map visit_file (filter regular (two_visits 4096)) = two_files"
    "v_size (last (filter regular (two_visits n))) = n" for n
    by (simp_all add: two_visits_def two_files_def regular_def visit_file_def)
  show ?thesis
    using randread_main_files [OF _ _ refl _ _ _ refl, of "\<lambda>b. if b then None else Some (Fatal ''assert'')"
        "two_visits 4096" 1 zero_rng ref_hist 5 "[]"]
      randread_main_files [OF _ _ refl _ _ _ refl, of "\<lambda>b. if b then None else Some (Fatal ''assert'')"
        "two_visits 1000" 1 zero_rng ref_hist 5 "[]"] zero_rng_fair [of 1]
    unfolding ev
    by (simp add: two_visits_def regular_def two_files_def readSize_def)
qed

end
