(* ===== verification/GoPool.thy ===== *)
theory GoPool
  imports Prelude
begin

text \<open>
  Goroutines that run until a flag is set: the shape of the concurrent loops of
  \<^verbatim>\<open>src/randread/main.go\<close>. \<open>main\<close> starts a timer that sets \<open>done\<close>; the function starts the
  goroutines, each of which tests \<open>done\<close> in its loop and calls \<open>wg.Done\<close> at its end, and a
  goroutine that only watches; then it waits for the wait group. The steps of a goroutine are
  the parameter \<open>act\<close>: given the time the step takes, the flag, the local variables and
  the shared state, it ends the process, or goes on, or has called \<open>wg.Done\<close> (\<open>None\<close>). The
  watcher is the parameter \<open>tick\<close>.
\<close>

section \<open>The step relation\<close>

record ('p, 's) pool =
  pl_done :: bool
  pl_gos :: "'p option list"
  pl_wg :: nat
  pl_st :: 's

datatype ('p, 's) plconf = PRun "('p, 's) pool" | PExit fault

datatype plevent = Timer | Tick | Go nat int

type_synonym ('p, 's) act = "int \<Rightarrow> bool \<Rightarrow> 'p \<Rightarrow> 's \<Rightarrow> fault + ('p option \<times> 's)"

definition go_step :: "('p, 's) act \<Rightarrow> nat \<Rightarrow> int \<Rightarrow> ('p, 's) pool \<Rightarrow> ('p, 's) plconf option" where
  "go_step act j ns m = (if length (pl_gos m) \<le> j then None else case pl_gos m ! j of
     None \<Rightarrow> None
   | Some p \<Rightarrow> (case act ns (pl_done m) p (pl_st m) of
       Inl f \<Rightarrow> Some (PExit f)
     | Inr (p', s) \<Rightarrow> Some (PRun (m\<lparr>pl_gos := (pl_gos m)[j := p'], pl_st := s,
         pl_wg := (if p' = None then pl_wg m - 1 else pl_wg m)\<rparr>))))"

fun pool_move :: "('p, 's) act \<Rightarrow> (bool \<Rightarrow> 's \<Rightarrow> 's) \<Rightarrow> plevent \<Rightarrow> ('p, 's) pool \<Rightarrow> ('p, 's) plconf option" where
  "pool_move act tick Timer m = Some (PRun (m\<lparr>pl_done := True\<rparr>))"
| "pool_move act tick Tick m = Some (PRun (m\<lparr>pl_st := tick (pl_done m) (pl_st m)\<rparr>))"
| "pool_move act tick (Go j ns) m = (if ns < 0 then None else go_step act j ns m)"

inductive pool_step :: "('p, 's) act \<Rightarrow> (bool \<Rightarrow> 's \<Rightarrow> 's) \<Rightarrow> ('p, 's) plconf \<Rightarrow> ('p, 's) plconf \<Rightarrow> bool"
  for act tick where
  move: "pool_move act tick ev m = Some c \<Longrightarrow> pool_step act tick (PRun m) c"

inductive_simps pool_step_PRun: "pool_step act tick (PRun m) c"
inductive_simps pool_step_PExit: "pool_step act tick (PExit f) c"

definition start_pool :: "'p list \<Rightarrow> 's \<Rightarrow> ('p, 's) pool" where
  "start_pool ps s = \<lparr>pl_done = False, pl_gos = map Some ps, pl_wg = length ps, pl_st = s\<rparr>"

text \<open>A run under an explicit schedule, and its result once \<open>wg.Wait\<close> returns.\<close>

fun run_pool :: "('p, 's) act \<Rightarrow> (bool \<Rightarrow> 's \<Rightarrow> 's) \<Rightarrow> plevent list \<Rightarrow> ('p, 's) plconf \<Rightarrow> ('p, 's) plconf option" where
  "run_pool act tick [] c = Some c"
| "run_pool act tick (ev # evs) (PExit f) = None"
| "run_pool act tick (ev # evs) (PRun m) = (case pool_move act tick ev m of
     None \<Rightarrow> None | Some c \<Rightarrow> run_pool act tick evs c)"

definition pool_result :: "('p, 's) plconf option \<Rightarrow> (fault + 's) option" where
  "pool_result r = (case r of None \<Rightarrow> None
   | Some (PExit f) \<Rightarrow> Some (Inl f)
   | Some (PRun m) \<Rightarrow> if pl_wg m = 0 then Some (Inr (pl_st m)) else None)"

lemma run_pool_steps: "run_pool act tick evs c = Some c' \<Longrightarrow> (pool_step act tick)\<^sup>*\<^sup>* c c'"
proof (induction act tick evs c rule: run_pool.induct)
  case (3 act tick ev evs m)
  then show ?case
    by (auto split: option.splits intro: converse_rtranclp_into_rtranclp pool_step.move)
qed simp_all

lemma run_pool_append:
  "run_pool act tick (evs @ evs') c = Option.bind (run_pool act tick evs c) (run_pool act tick evs')"
  by (induction act tick evs c rule: run_pool.induct) (simp_all split: option.split)

definition is_go :: "plevent \<Rightarrow> bool" where
  "is_go ev \<longleftrightarrow> (case ev of Go j ns \<Rightarrow> True | _ \<Rightarrow> False)"

text \<open>How many goroutines have not called \<open>wg.Done\<close>.\<close>

definition running :: "'p option list \<Rightarrow> nat" where
  "running gs = sum_list (map (\<lambda>g. if g = None then 0 else 1) gs)"

lemma running_update:
  assumes "j < length gs" "gs ! j = Some p"
  shows "running (gs[j := p']) = (if p' = None then running gs - 1 else running gs)" "0 < running gs"
proof -
  let ?f = "\<lambda>g :: 'a option. if g = None then 0 else 1 :: nat"
  have sum: "sum_list (map ?f (gs[j := p'])) + 1 = sum_list (map ?f gs) + ?f p'"
    using sum_map_update [OF assms(1), of ?f p'] assms(2) by simp
  have "1 \<in> set (map ?f gs)" using assms by (force simp: in_set_conv_nth)
  then have "1 \<le> sum_list (map ?f gs)" by (rule member_le_sum_list) simp_all
  with sum show "running (gs[j := p']) = (if p' = None then running gs - 1 else running gs)" "0 < running gs"
    by (auto simp: running_def)
qed

lemma running_0: "running gs = 0 \<longleftrightarrow> set gs \<subseteq> {None}"
  by (induction gs) (auto simp: running_def)

section \<open>The contract of the goroutines\<close>

text \<open>
  An invariant of the flag, the local variables and the shared state, the faults that may end
  the process, and a measure that every step takes down once \<open>done\<close> is set.
\<close>

locale done_pool =
  fixes act :: "('p, 's) act" and tick :: "bool \<Rightarrow> 's \<Rightarrow> 's"
    and inv_p :: "bool \<Rightarrow> 'p option list \<Rightarrow> 's \<Rightarrow> bool" and todo :: "'p option list \<Rightarrow> 's \<Rightarrow> nat"
    and ends :: "fault \<Rightarrow> bool"
  assumes act_ok: "inv_p d gs s \<Longrightarrow> j < length gs \<Longrightarrow> gs ! j = Some p \<Longrightarrow> 0 \<le> ns \<Longrightarrow>
      act ns d p s = Inr (p', s') \<Longrightarrow>
      inv_p d (gs[j := p']) s' \<and> (d \<longrightarrow> todo (gs[j := p']) s' < todo gs s)"
    and act_fault: "inv_p d gs s \<Longrightarrow> j < length gs \<Longrightarrow> gs ! j = Some p \<Longrightarrow> 0 \<le> ns \<Longrightarrow>
      act ns d p s = Inl f \<Longrightarrow> ends f"
    and timer_ok: "inv_p d gs s \<Longrightarrow> inv_p True gs s"
    and tick_ok: "inv_p d gs s \<Longrightarrow> inv_p d gs (tick d s) \<and> todo gs (tick d s) = todo gs s"
begin

definition good :: "nat \<Rightarrow> ('p, 's) plconf \<Rightarrow> bool" where
  "good n c = (case c of PExit f \<Rightarrow> ends f
   | PRun m \<Rightarrow> inv_p (pl_done m) (pl_gos m) (pl_st m) \<and> pl_wg m = running (pl_gos m) \<and> length (pl_gos m) = n)"

lemma good_start: "inv_p False (map Some ps) s \<Longrightarrow> good (length ps) (PRun (start_pool ps s))"
  by (auto simp: good_def start_pool_def running_def comp_def sum_list_triv)

lemma good_move:
  assumes "good n (PRun m)" "pool_move act tick ev m = Some c"
  shows "good n c"
proof (cases ev)
  case (Go j ns)
  then obtain p where p: "j < length (pl_gos m)" "pl_gos m ! j = Some p" "0 \<le> ns" "go_step act j ns m = Some c"
    using assms(2) by (auto simp: go_step_def split: if_splits option.splits)
  have m: "inv_p (pl_done m) (pl_gos m) (pl_st m)" "pl_wg m = running (pl_gos m)" "length (pl_gos m) = n"
    using assms(1) by (simp_all add: good_def)
  show ?thesis
  proof (cases "act ns (pl_done m) p (pl_st m)")
    case (Inl f)
    then show ?thesis using p act_fault [OF m(1) p(1-3)] by (auto simp: go_step_def good_def)
  next
    case (Inr r)
    obtain p' s where r: "act ns (pl_done m) p (pl_st m) = Inr (p', s)" using Inr by (cases r) auto
    then have c: "c = PRun (m\<lparr>pl_gos := (pl_gos m)[j := p'], pl_st := s,
        pl_wg := (if p' = None then pl_wg m - 1 else pl_wg m)\<rparr>)" using p by (simp add: go_step_def)
    then show ?thesis
      using m running_update(1) [OF p(1,2), of p'] act_ok [OF m(1) p(1-3) r] by (simp add: good_def)
  qed
qed (use assms timer_ok tick_ok in \<open>auto simp: good_def\<close>)

lemma good_steps: "(pool_step act tick)\<^sup>*\<^sup>* c c' \<Longrightarrow> good n c \<Longrightarrow> good n c'"
  by (induction rule: rtranclp_induct) (auto elim!: pool_step.cases dest: good_move)

lemma go_todo:
  assumes "inv_p True (pl_gos m) (pl_st m)" "pl_done m" "0 \<le> ns" "go_step act j ns m = Some (PRun m1)"
  shows "todo (pl_gos m1) (pl_st m1) < todo (pl_gos m) (pl_st m) \<and> pl_done m1"
proof -
  obtain p p' s where p: "j < length (pl_gos m)" "pl_gos m ! j = Some p" "act ns True p (pl_st m) = Inr (p', s)"
      "pl_gos m1 = (pl_gos m)[j := p']" "pl_st m1 = s" "pl_done m1"
    using assms(2,4) by (auto simp: go_step_def split: if_splits option.splits sum.splits)
  then show ?thesis using act_ok [OF assms(1) p(1,2) assms(3) p(3)] by simp
qed

text \<open>Once \<open>done\<close> is set, the steps of the goroutines are bounded by the measure.\<close>

lemma run_bound:
  assumes "good n (PRun m)" "pl_done m" "run_pool act tick evs (PRun m) = Some c"
  shows "length (filter is_go evs) \<le> todo (pl_gos m) (pl_st m) + (case c of PExit f \<Rightarrow> 1 | PRun m' \<Rightarrow> 0)"
  using assms
proof (induction evs arbitrary: m)
  case (Cons ev evs)
  obtain c1 where c1: "pool_move act tick ev m = Some c1" "run_pool act tick evs c1 = Some c"
    using Cons.prems(3) by (auto split: option.splits)
  note g1 = good_move [OF Cons.prems(1) c1(1)]
  have inv: "inv_p True (pl_gos m) (pl_st m)" using Cons.prems(1,2) by (simp add: good_def)
  show ?case
  proof (cases c1)
    case (PRun m1)
    have "todo (pl_gos m1) (pl_st m1) + (if is_go ev then 1 else 0) \<le> todo (pl_gos m) (pl_st m) \<and> pl_done m1"
      using c1(1) Cons.prems(2) tick_ok [OF inv] go_todo [OF inv Cons.prems(2)]
      by (cases ev) (auto simp: PRun is_go_def Suc_le_eq not_less split: if_splits)
    then show ?thesis using Cons.IH [of m1] g1 c1(2) PRun by (fastforce split: if_splits)
  next
    case (PExit f)
    then have "evs = []" "c = PExit f" using c1(2) by (cases evs; simp)+
    then show ?thesis by simp
  qed
qed simp

text \<open>
  From every state the goroutines can get to, they come to an end: after the timer, some schedule
  takes the wait group to zero, unless a fault ends the process.
\<close>

lemma done_returns:
  assumes "good n (PRun m)" "pl_done m"
  shows "\<exists>evs r. pool_result (run_pool act tick evs (PRun m)) = Some r"
  using assms
proof (induction "todo (pl_gos m) (pl_st m)" arbitrary: m rule: less_induct)
  case less
  have inv: "inv_p True (pl_gos m) (pl_st m)" "pl_wg m = running (pl_gos m)"
    using less.prems by (simp_all add: good_def)
  show ?case
  proof (cases "running (pl_gos m) = 0")
    case True
    then show ?thesis by (intro exI [of _ "[]"]) (simp add: pool_result_def inv(2))
  next
    case False
    then obtain j p where p: "j < length (pl_gos m)" "pl_gos m ! j = Some p"
      unfolding running_0 by (metis in_set_conv_nth not_None_eq singletonI subsetI)
    then obtain c where c: "go_step act j 0 m = Some c"
      by (cases "act 0 (pl_done m) p (pl_st m)") (auto simp: go_step_def)
    then have move: "pool_move act tick (Go j 0) m = Some c" by simp
    show ?thesis
    proof (cases c)
      case (PRun m1)
      from less.hyps [of m1] go_todo [OF inv(1) less.prems(2) _ c [unfolded PRun]]
        good_move [OF less.prems(1) move] PRun
      obtain evs r where "pool_result (run_pool act tick evs c) = Some r" by auto
      with move show ?thesis by (intro exI [of _ "Go j 0 # evs"]) simp
    next
      case (PExit f)
      with move show ?thesis by (intro exI [of _ "[Go j 0]"]) (simp add: pool_result_def)
    qed
  qed
qed

lemma pool_returns:
  assumes "good n (PRun m)"
  shows "\<exists>evs r. pool_result (run_pool act tick evs (PRun m)) = Some r"
proof -
  have "good n (PRun (m\<lparr>pl_done := True\<rparr>))" using assms timer_ok by (auto simp: good_def)
  from done_returns [OF this] obtain evs r where
    "pool_result (run_pool act tick evs (PRun (m\<lparr>pl_done := True\<rparr>))) = Some r" by auto
  then show ?thesis by (intro exI [of _ "Timer # evs"]) simp
qed

text \<open>A result: all goroutines have ended and the invariant holds.\<close>

lemma result_good:
  assumes "pool_result (run_pool act tick evs (PRun m)) = Some r" "good n (PRun m)"
  shows "case r of Inl f \<Rightarrow> ends f | Inr s \<Rightarrow> \<exists>d. inv_p d (replicate n None) s"
proof -
  obtain c where c: "run_pool act tick evs (PRun m) = Some c" using assms(1) by (auto simp: pool_result_def split: option.splits)
  have good: "good n c" using good_steps [OF run_pool_steps [OF c] assms(2)] .
  show ?thesis
  proof (cases c)
    case (PRun m1)
    with c assms(1) good have m1: "r = Inr (pl_st m1)" "running (pl_gos m1) = 0" "inv_p (pl_done m1) (pl_gos m1) (pl_st m1)" "length (pl_gos m1) = n"
      by (auto simp: pool_result_def good_def split: if_splits)
    then have "pl_gos m1 = replicate n None" by (intro replicate_eqI) (auto simp: running_0)
    with m1 show ?thesis by (simp only: sum.case) metis
  qed (use c assms(1) good in \<open>auto simp: pool_result_def good_def\<close>)
qed

end

end
