(* ===== verification/RandConc.thy ===== *)
theory RandConc
  imports RandRead GoPool GoProfile
begin

text \<open>
  The concurrent loops of \<^verbatim>\<open>src/randread/main.go\<close>, \<open>Conc2\<close> and \<open>ConcAio\<close>, as pools of goroutines
  that run until \<open>done\<close> is set. Every test of \<open>done\<close>, every read, every recorded value and every
  wait is a step of its own, so the goroutines interleave between them. \<open>Conc2\<close> takes no
  lock around \<open>RecordValue\<close>; here each call of it is one step. The asynchronous reader is
  third-party code and a parameter.
\<close>

section \<open>Conc2\<close>

text \<open>
  The local variables of a goroutine are its place in the loop and its random source. Shared are
  the histogram and what the watching goroutine has printed: the totals, and at its end the
  total it reports. The number of reads made is a ghost variable.
\<close>

datatype cpc = CTest | CRead | CRecord int

record 'h conc =
  cn_hist :: 'h
  cn_reads :: nat
  cn_lines :: "int list"
  cn_total :: "int option"

fun conc2_act ::
  "'h histogram \<Rightarrow> nat \<Rightarrow> ofile list \<Rightarrow> int \<Rightarrow> (cpc \<times> rng, 'h conc) act" where
  "conc2_act H fuel fList maxFileSize ns d (CTest, r) s =
     (if d then Inr (None, s) else Inr (Some (CRead, r), s))"
| "conc2_act H fuel fList maxFileSize ns d (CRead, r) s =
     (case getIndices fuel fList maxFileSize r of
        Inl f \<Rightarrow> Inl f
      | Inr ((fd, offset), r') \<Rightarrow> (case ReadAt fd readSize offset of
          Some e \<Rightarrow> Inl (Fatal (''Error reading file: '' @ e))
        | None \<Rightarrow> Inr (Some (CRecord (clamp_dur ns), r'), s\<lparr>cn_reads := Suc (cn_reads s)\<rparr>)))"
| "conc2_act H fuel fList maxFileSize ns d (CRecord dur, r) s =
     (case h_RecordValue H dur (cn_hist s) of
        (Some e, h) \<Rightarrow> Inl (Fatal (''Unable to record hist: '' @ e))
      | (None, h) \<Rightarrow> Inr (Some (CTest, r), s\<lparr>cn_hist := h\<rparr>))"

text \<open>The watcher: every second the total so far; the first time after \<open>done\<close>, its report.\<close>

definition conc2_tick :: "'h histogram \<Rightarrow> bool \<Rightarrow> 'h conc \<Rightarrow> 'h conc" where
  "conc2_tick H d s = (if cn_total s \<noteq> None then s
     else s\<lparr>cn_lines := cn_lines s @ [h_TotalCount H (cn_hist s)],
       cn_total := (if d then Some (h_TotalCount H (cn_hist s)) else None)\<rparr>)"

definition start_conc2 :: "'h histogram \<Rightarrow> rng list \<Rightarrow> (cpc \<times> rng, 'h conc) pool" where
  "start_conc2 H rs = start_pool (map (Pair CTest) rs)
     \<lparr>cn_hist = h_New H, cn_reads = 0, cn_lines = [], cn_total = None\<rparr>"

definition Conc2 ::
  "'h histogram \<Rightarrow> nat \<Rightarrow> ofile list \<Rightarrow> int \<Rightarrow> rng list \<Rightarrow> plevent list \<Rightarrow> (fault + 'h conc) option" where
  "Conc2 H fuel fList maxFileSize rs evs =
     pool_result (run_pool (conc2_act H fuel fList maxFileSize) (conc2_tick H) evs (PRun (start_conc2 H rs)))"

section \<open>ConcAio\<close>

text \<open>
  Reads are handed to the asynchronous reader; a goroutine that has seen \<open>done\<close> collects the
  outstanding requests of every file until none is left. If a reader cannot be created, the
  function returns early (\<open>Inr None\<close>). Nothing records into the histogram, whose total is reported.
\<close>

record ('a, 'x) goaio =
  NewAIOExt :: "bytes \<Rightarrow> nat \<Rightarrow> 'x \<Rightarrow> (bytes + 'a) \<times> 'x"
  aio_ReadAt :: "'a \<Rightarrow> int \<Rightarrow> int \<Rightarrow> 'x \<Rightarrow> bytes option \<times> 'x"
  aio_WaitAny :: "'a \<Rightarrow> nat \<Rightarrow> 'x \<Rightarrow> (int \<times> bytes option) \<times> 'x"

fun open_aios :: "('a, 'x) goaio \<Rightarrow> ofile list \<Rightarrow> 'x \<Rightarrow> 'a list option \<times> 'x" where
  "open_aios A [] x = (Some [], x)"
| "open_aios A (f # fs) x = (case NewAIOExt A (f_name f) 32 x of
     (Inl e, x1) \<Rightarrow> (None, x1)
   | (Inr a, x1) \<Rightarrow> (case open_aios A fs x1 of
       (None, x2) \<Rightarrow> (None, x2) | (Some as, x2) \<Rightarrow> (Some (a # as), x2)))"

datatype 'a apc = ATest | AIssue | ADrain "'a list"

fun aio_act ::
  "('a, 'x) goaio \<Rightarrow> nat \<Rightarrow> 'a list \<Rightarrow> int \<Rightarrow> ('a apc \<times> rng, 'x) act" where
  "aio_act A fuel aios maxFileSize ns d (ATest, r) x =
     (if d then Inr (Some (ADrain aios, r), x) else Inr (Some (AIssue, r), x))"
| "aio_act A fuel aios maxFileSize ns d (AIssue, r) x =
     (case getAIOIndices fuel aios maxFileSize r of
        Inl f \<Rightarrow> Inl f
      | Inr ((a, offset), r') \<Rightarrow> (case aio_ReadAt A a readSize offset x of
          (Some e, x') \<Rightarrow> Inl (Fatal (''Unable to read: '' @ e))
        | (None, x') \<Rightarrow> Inr (Some (ATest, r'), x')))"
| "aio_act A fuel aios maxFileSize ns d (ADrain [], r) x = Inr (None, x)"
| "aio_act A fuel aios maxFileSize ns d (ADrain (a # as), r) x =
     (case aio_WaitAny A a 32 x of
        ((n, Some e), x') \<Rightarrow> Inl (Fatal (''Failed to collect reqs: '' @ e))
      | ((n, None), x') \<Rightarrow> Inr (Some (ADrain (if n = 0 then as else a # as), r), x'))"

definition start_aio :: "rng list \<Rightarrow> 'x \<Rightarrow> ('a apc \<times> rng, 'x) pool" where
  "start_aio rs x = start_pool (map (Pair ATest) rs) x"

definition ConcAio ::
  "'h histogram \<Rightarrow> ('a, 'x) goaio \<Rightarrow> nat \<Rightarrow> ofile list \<Rightarrow> int \<Rightarrow> rng list \<Rightarrow> 'x \<Rightarrow> plevent list \<Rightarrow>
     (fault + (int \<times> 'a list \<times> 'x) option) option" where
  "ConcAio H A fuel fList maxFileSize rs x evs = (case open_aios A fList x of
     (None, x1) \<Rightarrow> Some (Inr None)
   | (Some aios, x1) \<Rightarrow> map_option (map_sum id (\<lambda>x2. Some (h_TotalCount H (h_New H), aios, x2)))
       (pool_result (run_pool (aio_act A fuel aios maxFileSize) (\<lambda>d x. x) evs (PRun (start_aio rs x1)))))"

section \<open>main\<close>

text \<open>
  The loop that \<open>main\<close> chooses, with the inputs of each: the durations of the serial reads and
  its source, the sources of the goroutines and the schedule, and the state of the asynchronous
  reader. A profile may be started before; its \<open>Stop\<close> comes after the result. The result is the total of the histogram, which each loop reports; \<open>Inr None\<close> if a
  reader could not be created.
\<close>

definition randread_run ::
  "'x pkg_profile \<Rightarrow> 'h histogram \<Rightarrow> ('a, 'x) goaio \<Rightarrow> nat \<Rightarrow> (bool \<Rightarrow> fault option) \<Rightarrow> bytes option \<Rightarrow> visit list \<Rightarrow>
     bytes \<Rightarrow> int \<Rightarrow> int list \<Rightarrow> rng \<Rightarrow> rng list \<Rightarrow> 'x \<Rightarrow> plevent list \<Rightarrow> (fault + int option) option" where
  "randread_run P H A fuel y_AssertTruef walk_err vs profilemode mode durs r rs x0 evs =
     (case randread_main y_AssertTruef walk_err vs mode of
        Inl f \<Rightarrow> Some (Inl f)
      | Inr (SerialMode, flist, maxFileSize) \<Rightarrow>
          Some (map_sum id (\<lambda>((count, h), r'). Some (h_TotalCount H h)) (Serial H fuel flist maxFileSize durs r))
      | Inr (Conc2Mode, flist, maxFileSize) \<Rightarrow>
          map_option (map_sum id (\<lambda>s. Some (h_TotalCount H (cn_hist s)))) (Conc2 H fuel flist maxFileSize rs evs)
      | Inr (ConcAioMode, flist, maxFileSize) \<Rightarrow>
          map_option (map_sum id (map_option fst)) (ConcAio H A fuel flist maxFileSize rs
            (start_profile P (randread_profile profilemode) x0) evs))"

section \<open>Reads are counted\<close>

text \<open>Whether a goroutine has read and not recorded yet; the steps it still has once \<open>done\<close> is set.\<close>

definition unrecorded :: "(cpc \<times> rng) option \<Rightarrow> nat" where
  "unrecorded g = (case g of Some (CRecord dur, r) \<Rightarrow> 1 | _ \<Rightarrow> 0)"

definition conc2_left :: "(cpc \<times> rng) option \<Rightarrow> nat" where
  "conc2_left g = (case g of None \<Rightarrow> 0 | Some (CTest, r) \<Rightarrow> 1 | Some (CRecord dur, r) \<Rightarrow> 2 | Some (CRead, r) \<Rightarrow> 3)"

definition conc2_go :: "nat \<Rightarrow> bool \<Rightarrow> (cpc \<times> rng) option \<Rightarrow> bool" where
  "conc2_go fuel d g = (case g of None \<Rightarrow> d
   | Some (pc, r) \<Rightarrow> fair fuel r \<and> (\<forall>dur. pc = CRecord dur \<longrightarrow> 0 \<le> dur \<and> dur \<le> 1000000))"

definition conc2_inv :: "'h histogram \<Rightarrow> nat \<Rightarrow> bool \<Rightarrow> (cpc \<times> rng) option list \<Rightarrow> 'h conc \<Rightarrow> bool" where
  "conc2_inv H fuel d gs s \<longleftrightarrow> list_all (conc2_go fuel d) gs \<and>
     h_TotalCount H (cn_hist s) + int (sum_list (map unrecorded gs)) = int (cn_reads s) \<and>
     sorted (cn_lines s) \<and> (\<forall>n \<in> set (cn_lines s). n \<le> h_TotalCount H (cn_hist s)) \<and>
     (\<forall>n. cn_total s = Some n \<longrightarrow> d \<and> cn_lines s \<noteq> [] \<and> n = last (cn_lines s))"

lemma conc2_inv_go:
  assumes "conc2_inv H fuel d gs s" "j < length gs"
  shows "conc2_go fuel d (gs ! j)"
  using assms by (simp add: conc2_inv_def list_all_length)

lemma conc2_inv_update:
  assumes "conc2_inv H fuel d gs s" "j < length gs" "conc2_go fuel d g"
    and "h_TotalCount H h + int (unrecorded g) - int n = h_TotalCount H (cn_hist s) + int (unrecorded (gs ! j))  - int (cn_reads s)"
    and "h_TotalCount H (cn_hist s) \<le> h_TotalCount H h"
  shows "conc2_inv H fuel d (gs[j := g]) (s\<lparr>cn_hist := h, cn_reads := n\<rparr>)"
proof -
  have "list_all (conc2_go fuel d) (gs[j := g])"
    using assms(1,3) by (auto simp: conc2_inv_def list_all_iff dest!: set_update_subset_insert [THEN subsetD])
  moreover have "sum_list (map unrecorded (gs[j := g])) + unrecorded (gs ! j) = sum_list (map unrecorded gs) + unrecorded g"
    using assms(2) by (rule sum_map_update)
  then have "h_TotalCount H h + int (sum_list (map unrecorded (gs[j := g]))) = int n"
    using assms(1,4) unfolding conc2_inv_def by linarith
  ultimately show ?thesis using assms(1,5) by (auto simp: conc2_inv_def)
qed

locale conc2_run =
  fixes H :: "'h histogram" and fuel :: nat and fList :: "ofile list" and maxFileSize :: int
  assumes hist: "hist_law H" and files: "readable_files fList maxFileSize"
begin

lemma record_law:
  assumes "0 \<le> v" "v \<le> 1000000"
  obtains h' where "h_RecordValue H v h = (None, h')" "h_TotalCount H h' = h_TotalCount H h + 1"
  using hist assms by (cases "h_RecordValue H v h") (auto simp: hist_law_def, metis fst_conv snd_conv)

lemma read_law:
  assumes "fair fuel r"
  obtains fd offset r' where "getIndices fuel fList maxFileSize r = Inr ((fd, offset), r')"
    "ReadAt fd readSize offset = None" "fair fuel r'"
proof -
  have f: "fList \<noteq> []" "int (length fList) < 2 ^ 63" "readSize < maxFileSize" "maxFileSize < 2 ^ 63"
    "\<forall>f \<in> set fList. maxFileSize \<le> f_size f"
    using files by (simp_all add: readable_files_def)
  from wp_getAIOIndices [OF assms f(1-4)] show ?thesis
    using f(5) assms by (auto simp: getIndices_eq ReadAt_def same_src_fair elim!: wpE intro!: that)
qed

text \<open>One step of a goroutine, which never ends the process.\<close>

lemma conc2_act_step:
  assumes "conc2_inv H fuel d gs s" "j < length gs" "gs ! j = Some p" "0 \<le> ns"
  obtains g s' where "conc2_act H fuel fList maxFileSize ns d p s = Inr (g, s')"
    "conc2_inv H fuel d (gs[j := g]) s'" "d \<longrightarrow> conc2_left g < conc2_left (Some p)"
proof -
  note go = conc2_inv_go [OF assms(1,2)] and upd = conc2_inv_update [OF assms(1,2)]
  obtain pc r where p: "p = (pc, r)" by (cases p)
  have r: "fair fuel r" using go assms(3) by (simp add: p conc2_go_def)
  show ?thesis
  proof (cases pc)
    case CTest
    show ?thesis
      using upd [of _ "cn_hist s" "cn_reads s"] r assms(3)
      by (intro that [of "if d then None else Some (CRead, r)" s])
        (auto simp: p CTest conc2_go_def unrecorded_def conc2_left_def)
  next
    case CRead
    obtain fd offset r' where o: "getIndices fuel fList maxFileSize r = Inr ((fd, offset), r')"
        "ReadAt fd readSize offset = None" "fair fuel r'" using read_law [OF r] .
    show ?thesis
      using o upd [of _ "cn_hist s" "Suc (cn_reads s)"] assms(3) clamp_dur_range [OF assms(4)]
      by (intro that [of "Some (CRecord (clamp_dur ns), r')" "s\<lparr>cn_reads := Suc (cn_reads s)\<rparr>"])
        (auto simp: p CRead conc2_go_def unrecorded_def conc2_left_def)
  next
    case (CRecord dur)
    have "0 \<le> dur" "dur \<le> 1000000" using go assms(3) by (simp_all add: p CRecord conc2_go_def)
    then obtain h' where h': "h_RecordValue H dur (cn_hist s) = (None, h')"
        "h_TotalCount H h' = h_TotalCount H (cn_hist s) + 1" by (rule record_law)
    show ?thesis
      using h' r upd [of _ h' "cn_reads s"] assms(3)
      by (intro that [of "Some (CTest, r)" "s\<lparr>cn_hist := h'\<rparr>"])
        (auto simp: p CRecord conc2_go_def unrecorded_def conc2_left_def)
  qed
qed

lemma conc2_tick_inv:
  assumes "conc2_inv H fuel d gs s"
  shows "conc2_inv H fuel d gs (conc2_tick H d s)"
  using assms by (auto simp: conc2_inv_def conc2_tick_def sorted_append split: if_splits)

sublocale pool2: done_pool "conc2_act H fuel fList maxFileSize" "conc2_tick H" "conc2_inv H fuel"
  "\<lambda>gs _. sum_list (map conc2_left gs)" "\<lambda>_. False"
proof
  show "conc2_inv H fuel d (gs[j := p']) s' \<and> (d \<longrightarrow> sum_list (map conc2_left (gs[j := p'])) < sum_list (map conc2_left gs))"
    if "conc2_inv H fuel d gs s" "j < length gs" "gs ! j = Some p" "0 \<le> ns"
      "conc2_act H fuel fList maxFileSize ns d p s = Inr (p', s')" for gs s j p ns d p' s'
    using conc2_act_step [OF that(1-4)] that(5) sum_map_update [OF that(2), of conc2_left p'] that(3) by fastforce
  show False
    if "conc2_inv H fuel d gs s" "j < length gs" "gs ! j = Some p" "0 \<le> ns"
      "conc2_act H fuel fList maxFileSize ns d p s = Inl f" for gs s j p ns d f
    using conc2_act_step [OF that(1-4)] that(5) by auto
  show "conc2_inv H fuel True gs s" if "conc2_inv H fuel d gs s" for d gs s
    using that by (auto simp: conc2_inv_def conc2_go_def list_all_iff split: option.splits)
qed (simp add: conc2_tick_inv)

lemma conc2_start: "\<forall>r \<in> set rs. fair fuel r \<Longrightarrow> pool2.good (length rs) (PRun (start_conc2 H rs))"
  unfolding start_conc2_def
  using pool2.good_start [of "map (Pair CTest) rs"] hist
  by (simp add: conc2_inv_def conc2_go_def unrecorded_def hist_law_def list_all_iff comp_def)

lemma conc2_result:
  assumes "\<forall>r \<in> set rs. fair fuel r" "Conc2 H fuel fList maxFileSize rs evs = Some res"
  shows "\<exists>s d. res = Inr s \<and> conc2_inv H fuel d (replicate (length rs) None) s"
  using pool2.result_good [OF assms(2) [unfolded Conc2_def] conc2_start [OF assms(1)]] by (auto split: sum.splits)

lemma conc2_left_bound: "sum_list (map conc2_left gs) \<le> 3 * length gs"
  by (induction gs) (auto simp: conc2_left_def split: option.splits cpc.splits)

lemma conc2_reached:
  assumes "\<forall>r \<in> set rs. fair fuel r"
    and "run_pool (conc2_act H fuel fList maxFileSize) (conc2_tick H) evs (PRun (start_conc2 H rs)) = Some c"
  obtains m where "c = PRun m" "pool2.good (length rs) (PRun m)"
  using pool2.good_steps [OF run_pool_steps [OF assms(2)] conc2_start [OF assms(1)]]
  by (cases c) (auto simp: pool2.good_def)

lemma conc2_finishes:
  assumes "\<forall>r \<in> set rs. fair fuel r"
    and "run_pool (conc2_act H fuel fList maxFileSize) (conc2_tick H) evs (PRun (start_conc2 H rs)) = Some c"
  shows "\<exists>evs' s. Conc2 H fuel fList maxFileSize rs (evs @ evs') = Some (Inr s)"
proof -
  obtain m where m: "c = PRun m" "pool2.good (length rs) (PRun m)" using conc2_reached [OF assms] .
  obtain evs' r where "pool_result (run_pool (conc2_act H fuel fList maxFileSize) (conc2_tick H) evs' (PRun m)) = Some r"
    using pool2.pool_returns [OF m(2)] by auto
  then have "Conc2 H fuel fList maxFileSize rs (evs @ evs') = Some r"
    using assms(2) m(1) by (simp add: Conc2_def run_pool_append)
  with conc2_result [OF assms(1) this] show ?thesis by auto
qed

lemma conc2_bound:
  assumes "\<forall>r \<in> set rs. fair fuel r"
    and "run_pool (conc2_act H fuel fList maxFileSize) (conc2_tick H) evs (PRun (start_conc2 H rs)) = Some (PRun m)" "pl_done m"
    and "run_pool (conc2_act H fuel fList maxFileSize) (conc2_tick H) evs' (PRun m) = Some c"
  shows "length (filter is_go evs') \<le> 3 * length rs"
proof -
  have good: "pool2.good (length rs) (PRun m)" using conc2_reached [OF assms(1,2)] by auto
  obtain m' where "c = PRun m'"
    using pool2.good_steps [OF run_pool_steps [OF assms(4)] good] by (cases c) (auto simp: pool2.good_def)
  with pool2.run_bound [OF good assms(3,4)] conc2_left_bound [of "pl_gos m"] good show ?thesis
    by (simp add: pool2.good_def)
qed

end

section \<open>Requests are collected\<close>

text \<open>
  What the code relies on of the asynchronous reader, in terms of the number of outstanding
  requests of each reader: a new reader has none, a read that is accepted adds one, and \<open>WaitAny\<close>
  collects some of them, none only if there are none.
\<close>

definition aio_law :: "('a, 'x) goaio \<Rightarrow> ('x \<Rightarrow> 'a \<Rightarrow> nat) \<Rightarrow> bool" where
  "aio_law A pend \<longleftrightarrow>
     (\<forall>f q x a x'. NewAIOExt A f q x = (Inr a, x') \<longrightarrow> pend x' = (pend x)(a := 0)) \<and>
     (\<forall>a n off x x'. aio_ReadAt A a n off x = (None, x') \<longrightarrow> pend x' = (pend x)(a := Suc (pend x a))) \<and>
     (\<forall>a q x n x'. aio_WaitAny A a q x = ((n, None), x') \<longrightarrow> 0 \<le> n \<and> nat n \<le> pend x a \<and>
        pend x' = (pend x)(a := pend x a - nat n) \<and> (n = 0 \<longrightarrow> pend x a = 0))"

lemma open_aios_fresh:
  assumes "aio_law A pend" "open_aios A fs x = (Some as, x')"
  shows "length as = length fs" "\<forall>a \<in> set as. pend x' a = 0"
proof -
  have "length as = length fs \<and> (\<forall>a. pend x' a = (if a \<in> set as then 0 else pend x a))"
    using assms(2)
  proof (induction fs arbitrary: x as)
    case (Cons f fs)
    obtain a x1 as1 where *: "NewAIOExt A (f_name f) 32 x = (Inr a, x1)" "open_aios A fs x1 = (Some as1, x')" "as = a # as1"
      using Cons.prems by (auto split: prod.splits sum.splits option.splits)
    then have "pend x1 = (pend x)(a := 0)" using assms(1) by (auto simp: aio_law_def)
    with Cons.IH [OF *(2)] *(3) show ?case by auto
  qed simp
  then show "length as = length fs" "\<forall>a \<in> set as. pend x' a = 0" by simp_all
qed

text \<open>The goroutines that will still wait for a reader, and the steps left once \<open>done\<close> is set.\<close>

definition covers :: "('a apc \<times> rng) option \<Rightarrow> 'a \<Rightarrow> bool" where
  "covers g a = (case g of None \<Rightarrow> False | Some (ADrain l, r) \<Rightarrow> a \<in> set l | Some (pc, r) \<Rightarrow> True)"

definition aio_left :: "nat \<Rightarrow> ('a apc \<times> rng) option \<Rightarrow> nat" where
  "aio_left n g = (case g of None \<Rightarrow> 0 | Some (ADrain l, r) \<Rightarrow> length l + 1 | Some (ATest, r) \<Rightarrow> n + 2 | Some (AIssue, r) \<Rightarrow> n + 4)"

definition aio_todo :: "('x \<Rightarrow> 'a \<Rightarrow> nat) \<Rightarrow> 'a list \<Rightarrow> ('a apc \<times> rng) option list \<Rightarrow> 'x \<Rightarrow> nat" where
  "aio_todo pend aios gs x = sum_list (map (aio_left (length aios)) gs) + (\<Sum>a \<in> set aios. pend x a)"

definition aio_go :: "nat \<Rightarrow> 'a list \<Rightarrow> ('a apc \<times> rng) option \<Rightarrow> bool" where
  "aio_go fuel aios g = (case g of None \<Rightarrow> True
   | Some (pc, r) \<Rightarrow> fair fuel r \<and> (\<forall>l. pc = ADrain l \<longrightarrow> set l \<subseteq> set aios))"

definition aio_inv :: "('x \<Rightarrow> 'a \<Rightarrow> nat) \<Rightarrow> nat \<Rightarrow> 'a list \<Rightarrow> ('a apc \<times> rng) option list \<Rightarrow> 'x \<Rightarrow> bool" where
  "aio_inv pend fuel aios gs x \<longleftrightarrow> list_all (aio_go fuel aios) gs \<and>
     (\<forall>a \<in> set aios. 0 < pend x a \<longrightarrow> (\<exists>g \<in> set gs. covers g a))"

lemma aio_inv_update:
  assumes "aio_inv pend fuel aios gs x" "j < length gs" "aio_go fuel aios g"
    and "\<And>a. a \<in> set aios \<Longrightarrow> 0 < pend x' a \<Longrightarrow> covers g a \<or> 0 < pend x a \<and> \<not> covers (gs ! j) a"
  shows "aio_inv pend fuel aios (gs[j := g]) x'"
proof -
  have "\<exists>g' \<in> set (gs[j := g]). covers g' a" if a: "a \<in> set aios" "0 < pend x' a" for a
    using assms(4) [OF a]
  proof
    assume "covers g a"
    with set_update_memI [OF assms(2)] show ?thesis by blast
  next
    assume pend: "0 < pend x a \<and> \<not> covers (gs ! j) a"
    then obtain g' where "g' \<in> set gs" "covers g' a" using assms(1) a(1) by (auto simp: aio_inv_def)
    then obtain i where i: "i < length gs" "covers (gs ! i) a" by (metis in_set_conv_nth)
    then have "gs[j := g] ! i = gs ! i" using pend by (metis nth_list_update_neq)
    with i show ?thesis by (metis length_list_update nth_mem)
  qed
  moreover have "list_all (aio_go fuel aios) (gs[j := g])"
    using assms(1,3) by (auto simp: aio_inv_def list_all_iff dest!: set_update_subset_insert [THEN subsetD])
  ultimately show ?thesis by (simp add: aio_inv_def)
qed

lemma sum_pend_upd:
  "a \<in> set aios \<Longrightarrow> (\<Sum>b \<in> set aios. ((p :: 'a \<Rightarrow> nat)(a := n)) b) + p a = (\<Sum>b \<in> set aios. p b) + n"
  by (simp add: sum.remove [of "set aios" a] cong: sum.cong_simp)

definition aio_error :: "fault \<Rightarrow> bool" where
  "aio_error f \<longleftrightarrow> (\<exists>e. f = Fatal (''Unable to read: '' @ e) \<or> f = Fatal (''Failed to collect reqs: '' @ e))"

locale conc_aio_run =
  fixes A :: "('a, 'x) goaio" and pend :: "'x \<Rightarrow> 'a \<Rightarrow> nat" and fuel :: nat and aios :: "'a list" and maxFileSize :: int
  assumes law: "aio_law A pend" and readers: "aios \<noteq> []" "int (length aios) < 2 ^ 63"
    and size: "readSize < maxFileSize" "maxFileSize < 2 ^ 63"
begin

lemma issue_law:
  assumes "fair fuel r"
  obtains a offset r' where "getAIOIndices fuel aios maxFileSize r = Inr ((a, offset), r')" "a \<in> set aios" "fair fuel r'"
  using wp_getAIOIndices [OF assms readers size] assms by (auto simp: same_src_fair elim!: wpE intro!: that)

lemma read_adds: "aio_ReadAt A a n off x = (None, x') \<Longrightarrow> pend x' = (pend x)(a := Suc (pend x a))"
  using law unfolding aio_law_def by blast

lemma wait_takes:
  assumes "aio_WaitAny A a q x = ((n, None), x')"
  shows "0 \<le> n" "nat n \<le> pend x a" "pend x' = (pend x)(a := pend x a - nat n)" "n = 0 \<Longrightarrow> pend x a = 0"
  using law assms unfolding aio_law_def by blast+

lemma aio_todo_update:
  assumes "j < length gs" "aio_left (length aios) g + (\<Sum>a \<in> set aios. pend x' a) <
      aio_left (length aios) (gs ! j) + (\<Sum>a \<in> set aios. pend x a)"
  shows "aio_todo pend aios (gs[j := g]) x' < aio_todo pend aios gs x"
  using sum_map_update [OF assms(1), of "aio_left (length aios)" g] assms(2) by (simp add: aio_todo_def)

lemma aio_drain_step:
  assumes "aio_inv pend fuel aios gs x" "j < length gs" "gs ! j = Some (ADrain (a # as), r)"
    and "aio_WaitAny A a 32 x = ((n, None), x')"
  shows "aio_inv pend fuel aios (gs[j := Some (ADrain (if n = 0 then as else a # as), r)]) x'"
    and "aio_todo pend aios (gs[j := Some (ADrain (if n = 0 then as else a # as), r)]) x' < aio_todo pend aios gs x"
proof -
  have "aio_go fuel aios (Some (ADrain (a # as), r))" using assms(1-3) by (metis aio_inv_def list_all_length)
  then have go: "fair fuel r" "a \<in> set aios" "set as \<subseteq> set aios" by (simp_all add: aio_go_def)
  note wt = wait_takes [OF assms(4)]
  show "aio_inv pend fuel aios (gs[j := Some (ADrain (if n = 0 then as else a # as), r)]) x'"
    by (rule aio_inv_update [OF assms(1,2)]) (use go wt assms(1,3) in
      \<open>auto simp: aio_go_def covers_def aio_inv_def split: if_splits\<close>)
  show "aio_todo pend aios (gs[j := Some (ADrain (if n = 0 then as else a # as), r)]) x' < aio_todo pend aios gs x"
    by (rule aio_todo_update [OF assms(2)]) (use wt sum_pend_upd [OF go(2), of "pend x" "pend x a - nat n"] assms(3) in
      \<open>auto simp: aio_left_def\<close>)
qed

lemma aio_act_step:
  assumes "aio_inv pend fuel aios gs x" "j < length gs" "gs ! j = Some p"
  shows "case aio_act A fuel aios maxFileSize ns d p x of Inl f \<Rightarrow> aio_error f
    | Inr (g, x') \<Rightarrow> aio_inv pend fuel aios (gs[j := g]) x' \<and>
        (d \<longrightarrow> aio_todo pend aios (gs[j := g]) x' < aio_todo pend aios gs x)"
proof -
  note upd = aio_inv_update [OF assms(1,2)] and todo = aio_todo_update [OF assms(2)]
  obtain pc r where p: "p = (pc, r)" by (cases p)
  have r: "fair fuel r" using assms by (auto simp: p aio_inv_def list_all_length aio_go_def)
  consider "pc = ATest" | "pc = AIssue" | "pc = ADrain []" | a as where "pc = ADrain (a # as)"
    by (metis apc.exhaust list.exhaust)
  then show ?thesis
  proof cases
    case 1
    have "aio_inv pend fuel aios (gs[j := Some (AIssue, r)]) x" "aio_inv pend fuel aios (gs[j := Some (ADrain aios, r)]) x"
      using r assms(3) by (auto simp: p 1 aio_go_def covers_def intro!: upd)
    then show ?thesis
      using todo [of "Some (ADrain aios, r)" x x] assms(3) by (simp add: p 1 aio_left_def)
  next
    case 2
    obtain a offset r' where o: "getAIOIndices fuel aios maxFileSize r = Inr ((a, offset), r')" "a \<in> set aios" "fair fuel r'"
      using issue_law [OF r] .
    have "aio_inv pend fuel aios (gs[j := Some (ATest, r')]) x'" for x'
      using o(3) by (auto simp: aio_go_def covers_def intro!: upd)
    moreover have "(\<Sum>b \<in> set aios. pend x' b) = Suc (\<Sum>b \<in> set aios. pend x b)" if "aio_ReadAt A a readSize offset x = (None, x')" for x'
      using read_adds [OF that] sum_pend_upd [OF o(2), of "pend x" "Suc (pend x a)"] by simp
    ultimately show ?thesis
      using o todo [of "Some (ATest, r')" _ x] assms(3)
      by (auto simp: p 2 aio_left_def aio_error_def split: prod.splits option.splits)
  next
    case 3
    have "aio_inv pend fuel aios (gs[j := None]) x"
      using assms(3) by (auto simp: p 3 aio_go_def covers_def intro!: upd)
    then show ?thesis using todo [of None x x] assms(3) by (simp add: p 3 aio_left_def)
  next
    case 4
    have "aio_inv pend fuel aios (gs[j := Some (ADrain (if n = 0 then as else a # as), r)]) x' \<and>
        aio_todo pend aios (gs[j := Some (ADrain (if n = 0 then as else a # as), r)]) x' < aio_todo pend aios gs x"
      if "aio_WaitAny A a 32 x = ((n, None), x')" for n x'
      using aio_drain_step [OF assms(1,2) _ that] assms(3) by (simp add: p 4)
    then show ?thesis by (auto simp: p 4 aio_error_def split: prod.splits option.splits)
  qed
qed

sublocale pool_aio: done_pool "aio_act A fuel aios maxFileSize" "\<lambda>d x. x" "\<lambda>d. aio_inv pend fuel aios"
  "aio_todo pend aios" aio_error
proof
  show "aio_inv pend fuel aios (gs[j := p']) x' \<and> (d \<longrightarrow> aio_todo pend aios (gs[j := p']) x' < aio_todo pend aios gs x)"
    if "aio_inv pend fuel aios gs x" "j < length gs" "gs ! j = Some p" "aio_act A fuel aios maxFileSize ns d p x = Inr (p', x')"
    for gs x j p ns d p' x'
    using aio_act_step [where ns = ns and d = d, OF that(1-3)] that(4) by simp
  show "aio_error f"
    if "aio_inv pend fuel aios gs x" "j < length gs" "gs ! j = Some p" "aio_act A fuel aios maxFileSize ns d p x = Inl f"
    for gs x j p ns d f
    using aio_act_step [where ns = ns and d = d, OF that(1-3)] that(4) by simp
qed simp_all

lemma aio_start:
  assumes "\<forall>r \<in> set rs. fair fuel r" "\<forall>a \<in> set aios. pend x a = 0"
  shows "pool_aio.good (length rs) (PRun (start_aio rs x))"
  unfolding start_aio_def
  using pool_aio.good_start [of "map (Pair ATest) rs" x] assms
  by (simp add: aio_inv_def aio_go_def list_all_iff)

lemma aio_result:
  assumes "\<forall>r \<in> set rs. fair fuel r" "\<forall>a \<in> set aios. pend x a = 0"
    and "pool_result (run_pool (aio_act A fuel aios maxFileSize) (\<lambda>d x. x) evs (PRun (start_aio rs x))) = Some res"
  shows "case res of Inl f \<Rightarrow> aio_error f | Inr x' \<Rightarrow> \<forall>a \<in> set aios. pend x' a = 0"
  using pool_aio.result_good [OF assms(3) aio_start [OF assms(1,2)]]
  by (auto simp: aio_inv_def covers_def split: sum.splits)

lemma aio_returns:
  assumes "\<forall>r \<in> set rs. fair fuel r" "\<forall>a \<in> set aios. pend x a = 0"
  shows "\<exists>evs res. pool_result (run_pool (aio_act A fuel aios maxFileSize) (\<lambda>d x. x) evs (PRun (start_aio rs x))) = Some res"
  using pool_aio.pool_returns [OF aio_start [OF assms]] .

end

lemma conc2_total:
  assumes "hist_law H" and "readable_files fList maxFileSize" and "\<forall>r \<in> set rs. fair fuel r"
    and "Conc2 H fuel fList maxFileSize rs evs = Some res"
  shows "\<exists>s. res = Inr s \<and> h_TotalCount H (cn_hist s) = int (cn_reads s) \<and> sorted (cn_lines s) \<and>
    (\<forall>n \<in> set (cn_lines s). n \<le> int (cn_reads s)) \<and> (\<forall>n. cn_total s = Some n \<longrightarrow> n \<le> int (cn_reads s))"
proof -
  obtain s d where s: "res = Inr s" "conc2_inv H fuel d (replicate (length rs) None) s"
    using conc2_run.conc2_result [OF conc2_run.intro [OF assms(1,2)] assms(3,4)] by blast
  have "unrecorded None = 0" by (simp add: unrecorded_def)
  with s show ?thesis by (auto simp: conc2_inv_def sum_list_replicate)
qed

lemma concaio_total:
  assumes "aio_law A pend" and "hist_law H" and "fList \<noteq> []" and "int (length fList) < 2 ^ 63"
    and "readSize < maxFileSize" and "maxFileSize < 2 ^ 63" and "\<forall>r \<in> set rs. fair fuel r"
  shows "(\<exists>evs res. ConcAio H A fuel fList maxFileSize rs x evs = Some res) \<and>
    (\<forall>evs res. ConcAio H A fuel fList maxFileSize rs x evs = Some res \<longrightarrow> (case res of
        Inl f \<Rightarrow> aio_error f
      | Inr None \<Rightarrow> fst (open_aios A fList x) = None
      | Inr (Some (count, aios, x')) \<Rightarrow> count = 0 \<and> length aios = length fList \<and> (\<forall>a \<in> set aios. pend x' a = 0)))"
proof (cases "open_aios A fList x")
  case (Pair r x1)
  show ?thesis
  proof (cases r)
    case None
    then show ?thesis by (simp add: Pair ConcAio_def)
  next
    case (Some aios)
    note fresh = open_aios_fresh [OF assms(1) Pair [unfolded Some]]
    have run: "conc_aio_run A pend aios maxFileSize"
      by (rule conc_aio_run.intro) (use assms(1,3-6) fresh(1) in auto)
    have "h_TotalCount H (h_New H) = 0" using assms(2) by (simp add: hist_law_def)
    moreover have "case z of Inl f \<Rightarrow> aio_error f | Inr x' \<Rightarrow> \<forall>a \<in> set aios. pend x' a = 0"
      if "pool_result (run_pool (aio_act A fuel aios maxFileSize) (\<lambda>d x. x) evs (PRun (start_aio rs x1))) = Some z" for evs z
      using conc_aio_run.aio_result [OF run assms(7) fresh(2) that] .
    ultimately have "case res of Inl f \<Rightarrow> aio_error f
        | Inr None \<Rightarrow> fst (open_aios A fList x) = None
        | Inr (Some (count, aios, x')) \<Rightarrow> count = 0 \<and> length aios = length fList \<and> (\<forall>a \<in> set aios. pend x' a = 0)"
      if "ConcAio H A fuel fList maxFileSize rs x evs = Some res" for evs res
      using that fresh(1) by (force simp: Pair Some ConcAio_def split: sum.splits)
    moreover have "\<exists>evs res. ConcAio H A fuel fList maxFileSize rs x evs = Some res"
      using conc_aio_run.aio_returns [OF run assms(7) fresh(2)] by (auto simp: Pair Some ConcAio_def)
    ultimately show ?thesis by blast
  qed
qed

section \<open>Properties\<close>


lemma getIndices_zero:
  "rg_src r = (\<lambda>_. 0) \<Longrightarrow> getIndices 1 two_files 4096 r = Inr ((hd two_files, 0), r\<lparr>rg_pos := Suc (Suc (rg_pos r))\<rparr>)"
  by (simp add: getIndices_def Intn_def Int31n_def Int31_def Int63n_def Int63_def bnd_def two_files_def readSize_def)

lemma read_zero: "ReadAt (hd two_files) readSize 0 = None"
  by (simp add: two_files_def ReadAt_def readSize_def)


text \<open>
  C31. \<open>Conc2\<close> comes to an end: in whatever state a schedule leaves it, it can go on to the end of
  the function, and once the timer has set \<open>done\<close> no schedule has more than three more steps
  for each goroutine.
\<close>

theorem conc2_ends:
  assumes "hist_law H" and "readable_files fList maxFileSize" and "\<forall>r \<in> set rs. fair fuel r"
    and "run_pool (conc2_act H fuel fList maxFileSize) (conc2_tick H) evs (PRun (start_conc2 H rs)) = Some (PRun m)"
  shows "(\<exists>evs' s. Conc2 H fuel fList maxFileSize rs (evs @ evs') = Some (Inr s)) \<and>
    (pl_done m \<longrightarrow> (\<forall>evs' c. run_pool (conc2_act H fuel fList maxFileSize) (conc2_tick H) evs' (PRun m) = Some c \<longrightarrow>
      length (filter is_go evs') \<le> 3 * length rs))"
  using conc2_run.conc2_finishes [OF conc2_run.intro [OF assms(1,2)] assms(3,4)]
    conc2_run.conc2_bound [OF conc2_run.intro [OF assms(1,2)] assms(3,4)] by blast

theorem conc2_ends_witness:
  "\<exists>m. run_pool (conc2_act ref_hist 1 two_files 4096) (conc2_tick ref_hist) [Go 1 0, Timer]
      (PRun (start_conc2 ref_hist [zero_rng, zero_rng])) = Some (PRun m) \<and> pl_done m \<and>
    (\<exists>evs' s. Conc2 ref_hist 1 two_files 4096 [zero_rng, zero_rng] ([Go 1 0, Timer] @ evs') = Some (Inr s)) \<and>
    (\<forall>evs' c. run_pool (conc2_act ref_hist 1 two_files 4096) (conc2_tick ref_hist) evs' (PRun m) = Some c \<longrightarrow>
      length (filter is_go evs') \<le> 6)"
proof -
  obtain m where m: "run_pool (conc2_act ref_hist 1 two_files 4096) (conc2_tick ref_hist) [Go 1 0, Timer]
      (PRun (start_conc2 ref_hist [zero_rng, zero_rng])) = Some (PRun m)" "pl_done m"
    by (simp add: start_conc2_def start_pool_def go_step_def)
  have "\<forall>r \<in> set [zero_rng, zero_rng]. fair 1 r" using zero_rng_fair [of 1] by simp
  from conc2_ends [OF ref_hist_law two_files_readable this m(1)] m show ?thesis by auto
qed

text \<open>
  C32. \<open>ConcAio\<close>, in any interleaving: it can come to its end; it ends the process only if a
  request is refused or collecting fails, and otherwise, if all readers could be created, no
  request of any reader is outstanding when it returns, although goroutines go on issuing
  requests while others already collect. The number of reads it reports is always zero.
\<close>

theorem concaio_collects:
  assumes "aio_law A pend" and "hist_law H" and "fList \<noteq> []" and "int (length fList) < 2 ^ 63"
    and "readSize < maxFileSize" and "maxFileSize < 2 ^ 63" and "\<forall>r \<in> set rs. fair fuel r"
  shows "(\<exists>evs res. ConcAio H A fuel fList maxFileSize rs x evs = Some res) \<and>
    (\<forall>evs res. ConcAio H A fuel fList maxFileSize rs x evs = Some res \<longrightarrow> (case res of
        Inl f \<Rightarrow> aio_error f
      | Inr None \<Rightarrow> fst (open_aios A fList x) = None
      | Inr (Some (count, aios, x')) \<Rightarrow> count = 0 \<and> length aios = length fList \<and> (\<forall>a \<in> set aios. pend x' a = 0)))"
  using assms by (rule concaio_total)

text \<open>A reader that counts its outstanding requests and collects one at a time.\<close>

definition ref_aio :: "(bytes, bytes \<Rightarrow> nat) goaio" where
  "ref_aio = \<lparr>NewAIOExt = (\<lambda>f q x. (Inr f, x(f := 0))), aio_ReadAt = (\<lambda>a n off x. (None, x(a := Suc (x a)))),
     aio_WaitAny = (\<lambda>a q x. if x a = 0 then ((0, None), x) else ((1, None), x(a := x a - 1)))\<rparr>"

lemma ref_aio_law: "aio_law ref_aio (\<lambda>x. x)"
  by (auto simp: aio_law_def ref_aio_def split: if_splits)

interpretation two_conc2: conc2_run ref_hist 1 two_files 4096
  by (rule conc2_run.intro [OF ref_hist_law two_files_readable])

interpretation two_aio: conc_aio_run ref_aio "\<lambda>x. x" 1 "[''a'', ''b'']" 4096
  by unfold_locales (simp_all add: ref_aio_law readSize_def)

lemma getAIOIndices_zero:
  "rg_src r = (\<lambda>_. 0) \<Longrightarrow> getAIOIndices 1 [a, b] 4096 r = Inr ((a, 0), r\<lparr>rg_pos := Suc (Suc (rg_pos r))\<rparr>)"
  by (simp add: getAIOIndices_def Intn_def Int31n_def Int31_def Int63n_def Int63_def bnd_def readSize_def)

theorem concaio_collects_witness:
  "\<exists>evs count aios x'. ConcAio ref_hist ref_aio 1 two_files 4096 [zero_rng, zero_rng] (\<lambda>_. 0) evs = Some (Inr (Some (count, aios, x'))) \<and>
    count = 0 \<and> length aios = 2 \<and> (\<forall>a \<in> set aios. x' a = 0)"
proof -
  let ?evs = "[Go 0 0, Go 0 0, Go 1 0, Timer, Go 0 0, Go 0 0, Go 0 0, Go 0 0, Go 1 0, Go 1 0, Go 0 0, Go 1 0, Go 1 0, Go 1 0, Go 1 0]"
  obtain count aios x' where run: "ConcAio ref_hist ref_aio 1 two_files 4096 [zero_rng, zero_rng] (\<lambda>_. 0) ?evs = Some (Inr (Some (count, aios, x')))"
    by (simp add: ConcAio_def start_aio_def start_pool_def go_step_def pool_result_def two_files_def
        getAIOIndices_zero [unfolded One_nat_def] zero_rng_def ref_aio_def)
  have "\<forall>r \<in> set [zero_rng, zero_rng]. fair 1 r" using zero_rng_fair [of 1] by simp
  moreover have "two_files \<noteq> []" "int (length two_files) < 2 ^ 63" "readSize < 4096" "(4096 :: int) < 2 ^ 63" "length two_files = 2"
    by (simp_all add: two_files_def readSize_def)
  ultimately show ?thesis
    using concaio_collects [OF ref_aio_law ref_hist_law, of two_files 4096 "[zero_rng, zero_rng]" 1 "\<lambda>_. 0"] run by force
qed

lemma randread_main_modes:
  assumes "y_AssertTruef True = None" "\<forall>v \<in> set vs. regular v \<longrightarrow> v_open_err v = None"
    and "fs = map visit_file (filter regular vs)" "fs \<noteq> []" "v = last (filter regular vs)"
  shows "randread_main y_AssertTruef None vs mode =
    (if mode = 0 then Inr (SerialMode, fs, v_size v) else if mode = 1 then Inr (Conc2Mode, fs, v_size v)
     else if mode = 2 then Inr (ConcAioMode, fs, v_size v) else Inl (Fatal ''Unknown mode''))"
  using assms(3-5) by (simp add: randread_main_def walk_files_result [where y_AssertTruef = y_AssertTruef, OF assms(1,2)] walk_result_def)



end
