(* ===== verification/Report.thy ===== *)
theory Report
  imports GoFmt Float64
begin

text \<open>
  The numbers populate prints: Go's \<open>%w.pf\<close> on a float64, and \<open>humanize\<close> of
  \<^verbatim>\<open>populate/main.go\<close>. Rounding to the printed digits is exact decimal rounding, ties to even.
  The printed number is a nearest one, although the quotient is rounded twice.
\<close>

definition fmt_f :: "nat \<Rightarrow> nat \<Rightarrow> rat \<Rightarrow> string" where
  "fmt_f w p x =
     (let n = nat (round_even (\<bar>x\<bar> * 10 ^ p));
          s = (if x < 0 then ''-'' else []) @ dec (n div 10 ^ p) @ ''.'' @ pad0 p (dec (n mod 10 ^ p))
      in replicate (w - length s) (CHR '' '') @ s)"

definition humanize :: "int \<Rightarrow> string" where
  "humanize n =
     (if n \<ge> 1000000 then fmt_f 6 2 (f64 (float_of_int n / 1000000)) @ ''M''
      else if n \<ge> 1000 then fmt_f 6 2 (f64 (float_of_int n / 1000)) @ ''K''
      else fmt_f 5 2 (float_of_int n))"

lemma float_small: "int k \<le> 2 ^ 53 \<Longrightarrow> float_of_int (int k) = of_nat k"
  using f64_int [of "int k"] by (simp add: float_of_int_def)

text \<open>A number of hundredths with two decimals, right-aligned.\<close>

definition hundredths :: "nat \<Rightarrow> nat \<Rightarrow> string" where
  "hundredths w h = (let s = dec (h div 100) @ ''.'' @ pad0 2 (dec (h mod 100))
     in replicate (w - length s) (CHR '' '') @ s)"

lemma fmt_f_hundredths: "0 \<le> x \<Longrightarrow> fmt_f w 2 x = hundredths w (nat (round_even (x * 100)))"
  by (simp add: fmt_f_def hundredths_def Let_def)

text \<open>
  Rounding a quotient first to 53 bits and then to hundredths still gives a nearest number of
  hundredths: the quotients of integers are further from a tie than the first error.
\<close>

lemma quotient_nearest:
  assumes "0 < k" "n < 2 ^ 53"
  shows "\<bar>2 * round_even (f64 (of_nat n / of_nat (200 * k)) * 100) * int k - int n\<bar> \<le> int k"
proof -
  define u :: rat where "u = of_nat (200 * k)"
  define F where "F = f64 (of_nat n / u)"
  define h where "h = round_even (F * 100)"
  have u: "0 < u" "u = 200 * of_nat k" using assms(1) by (simp_all add: u_def)
  have "of_nat n < (2 ^ 53 :: rat)" using assms(2) by (metis of_nat_less_iff of_nat_numeral of_nat_power)
  then have "\<bar>of_nat n / u\<bar> / 2 ^ 53 < 1 / u" using u(1) by (simp add: divide_simps)
  with f64_error [of "of_nat n / u"] have "\<bar>F - of_nat n / u\<bar> < 1 / u" unfolding F_def by linarith
  then have "\<bar>F - of_nat n / u\<bar> * u < 1" using u(1) by (simp add: less_divide_eq)
  then have "\<bar>(F - of_nat n / u) * u\<bar> < 1" using u(1) by (simp add: abs_mult)
  then have "\<bar>F * u - of_nat n\<bar> < 1" using u(1) by (simp add: left_diff_distrib)
  moreover have "\<bar>of_int h - F * 100\<bar> * u \<le> 1 / 2 * u"
    using u(1) unfolding h_def by (intro mult_right_mono round_even_near) simp
  then have "\<bar>(of_int h - F * 100) * u\<bar> \<le> u / 2" using u(1) by (simp add: abs_mult)
  then have "\<bar>of_int h * u - 100 * (F * u)\<bar> \<le> u / 2" by (simp only: left_diff_distrib mult.assoc mult.commute [of 100])
  ultimately have "\<bar>of_int h * u - 100 * of_nat n\<bar> < u / 2 + 100" by linarith
  then have "\<bar>of_int (2 * h * int k - int n)\<bar> < (of_int (int k + 1) :: rat)"
    unfolding u(2) by (simp add: abs_less_iff)
  then have "\<bar>2 * h * int k - int n\<bar> < int k + 1" unfolding of_int_abs [symmetric] of_int_less_iff .
  then show ?thesis by (simp add: h_def F_def u_def)
qed

text \<open>The unit of a count, its suffix, and the width it is printed with.\<close>

definition human_unit :: "nat \<Rightarrow> nat \<times> string \<times> nat" where
  "human_unit n = (if 1000000 \<le> n then (1000000, ''M'', 6) else if 1000 \<le> n then (1000, ''K'', 6) else (1, [], 5))"

lemma humanize_scaled:
  assumes "n < 2 ^ 53" "0 < k" "humanize (int n) = fmt_f 6 2 (f64 (of_nat n / of_nat (200 * k))) @ t"
  shows "\<exists>h. humanize (int n) = hundredths 6 h @ t \<and> 2 * \<bar>int (h * (200 * k)) - 100 * int n\<bar> \<le> int (200 * k)"
proof -
  let ?x = "f64 (of_nat n / of_nat (200 * k))"
  have "0 \<le> ?x" by (intro f64_nonneg) simp
  then show ?thesis
    using quotient_nearest [OF assms(2,1)] assms(3) round_even_nonneg [of "?x * 100"]
    by (intro exI [of _ "nat (round_even (?x * 100))"]) (simp add: fmt_f_hundredths abs_le_iff)
qed

text \<open>
  C40. What populate prints for a count below $2^{53}$ is the count in its unit (millions, thousands
  or ones) rounded to a nearest hundredth; counts below a thousand are exact.
\<close>

theorem humanize_nearest:
  assumes "n < 2 ^ 53"
  shows "case human_unit n of (u, t, w) \<Rightarrow>
    \<exists>h. humanize (int n) = hundredths w h @ t \<and> 2 * \<bar>int (h * u) - 100 * int n\<bar> \<le> int u"
proof -
  have fl: "float_of_int (int n) = of_nat n" using assms by (intro float_small) simp
  consider "1000000 \<le> n" | "1000 \<le> n" "n < 1000000" | "n < 1000" by linarith
  then show ?thesis
  proof cases
    case 1
    then show ?thesis using humanize_scaled [OF assms, of 5000 "''M''"] by (simp add: human_unit_def humanize_def fl)
  next
    case 2
    then show ?thesis using humanize_scaled [OF assms, of 5 "''K''"] by (simp add: human_unit_def humanize_def fl)
  next
    case 3
    have "round_even (of_nat n * 100) = int (n * 100)" using round_even_int [of "int (n * 100)"] by simp
    then show ?thesis
      using 3 by (auto simp del: of_nat_mult simp: human_unit_def humanize_def fl fmt_f_hundredths intro!: exI [of _ "n * 100"])
  qed
qed

theorem humanize_nearest_witness:
  "\<exists>h. humanize 1234567 = hundredths 6 h @ ''M'' \<and> \<bar>int h * 1000000 - 123456700\<bar> \<le> 500000"
  using humanize_nearest [of 1234567] by (auto simp: human_unit_def)

end
