(* ===== verification/RunParallel.thy ===== *)
theory RunParallel
  imports Prelude
begin

text \<open>
  The read benchmarks of \<^verbatim>\<open>src/bench_test.go\<close>, part one: the hit counter and
  \<open>runRandomReadBenchmark\<close>, which lets several goroutines share \<open>b.N\<close> iterations through
  \<open>testing.PB\<close>. A goroutine is a small state machine; a step of it enters the store's view, or
  asks \<open>pb.Next()\<close> and runs the iteration it grants, or leaves the view and adds its counts to
  the shared counter. The locale \<open>read_loop\<close> is what a store's loop has to guarantee; the
  counts follow for every interleaving.
\<close>

section \<open>The hit counter\<close>

record hitCounter =
  found :: "64 word"
  notFound :: "64 word"
  errored :: "64 word"

definition Reset :: "hitCounter \<Rightarrow> hitCounter" where
  "Reset h = h\<lparr>found := 0, notFound := 0, errored := 0\<rparr>"

definition Update :: "hitCounter \<Rightarrow> hitCounter \<Rightarrow> hitCounter" where
  "Update h c = h\<lparr>found := found h + found c, notFound := notFound h + notFound c,
     errored := errored h + errored c\<rparr>"

text \<open>\<open>Print\<close> reports the three counts and their sum.\<close>

definition looked_at :: "hitCounter \<Rightarrow> 64 word" where
  "looked_at h = found h + notFound h + errored h"

text \<open>The outcome of one read, and the counter it increments.\<close>

datatype hit = Found | NotFound | Errored

fun count_hit :: "hit \<Rightarrow> hitCounter \<Rightarrow> hitCounter" where
  "count_hit Found c = c\<lparr>found := found c + 1\<rparr>"
| "count_hit NotFound c = c\<lparr>notFound := notFound c + 1\<rparr>"
| "count_hit Errored c = c\<lparr>errored := errored c + 1\<rparr>"

fun hits_of :: "hit \<Rightarrow> hitCounter \<Rightarrow> 64 word" where
  "hits_of Found c = found c"
| "hits_of NotFound c = notFound c"
| "hits_of Errored c = errored c"

definition tally :: "hit list \<Rightarrow> hitCounter" where
  "tally hs = \<lparr>found = of_nat (count_list hs Found), notFound = of_nat (count_list hs NotFound),
     errored = of_nat (count_list hs Errored)\<rparr>"

lemma hits_of_count: "hits_of k (count_hit h c) = hits_of k c + (if h = k then 1 else 0)"
  by (cases h; cases k) simp_all

lemma hits_of_Update: "hits_of k (Update h c) = hits_of k h + hits_of k c"
  by (cases k) (simp_all add: Update_def)

lemma hits_of_tally: "hits_of k (tally hs) = of_nat (count_list hs k)"
  by (cases k) (simp_all add: tally_def)

lemma hitCounter_eqI: "(\<And>k. hits_of k a = hits_of k b) \<Longrightarrow> a = (b :: hitCounter)"
  by (rule hitCounter.equality) (metis hits_of.simps | simp)+

lemma count_list_hits: "count_list hs Found + count_list hs NotFound + count_list hs Errored = length hs"
proof (induction hs)
  case (Cons h hs)
  then show ?case by (cases h) simp_all
qed simp

lemma looked_at_tally: "looked_at (tally hs) = of_nat (length hs)"
  using count_list_hits [of hs] by (simp add: looked_at_def tally_def flip: of_nat_add)

section \<open>Sharing the iterations\<close>

text \<open>
  \<open>pb.Next()\<close>: a goroutine takes \<open>grain\<close> iterations at a time from the shared count
  \<open>globalN\<close> and uses them up one by one. The result, the shared count, the goroutine's cache.
\<close>

definition pb_Next :: "nat \<Rightarrow> nat \<Rightarrow> nat \<Rightarrow> nat \<Rightarrow> bool \<times> nat \<times> nat" where
  "pb_Next grain bN globalN cache =
     (if cache = 0 then
        let n = globalN + grain in
        if n \<le> bN then (True, n, grain - 1)
        else if n < bN + grain then (True, n, bN + grain - n - 1)
        else (False, n, 0)
      else (True, globalN, cache - 1))"

datatype 't gpc = GStart | GLoop 't | GDone

record 't reader =
  rd_pc :: "'t gpc"
  rd_cache :: nat
  rd_c :: hitCounter

record ('s, 't) rbench =
  rb_st :: 's
  rb_globalN :: nat
  rb_readers :: "'t reader list"
  rb_counter :: hitCounter

datatype ('s, 't) rconf = RRun "('s, 't) rbench" | RExit fault

definition reader_step ::
  "nat \<Rightarrow> nat \<Rightarrow> ('s, 't) io \<Rightarrow> ('t \<Rightarrow> hitCounter \<Rightarrow> ('s, hitCounter) io) \<Rightarrow> ('t \<Rightarrow> ('s, unit) io) \<Rightarrow>
     nat \<Rightarrow> ('s, 't) rbench \<Rightarrow> ('s, 't) rconf option" where
  "reader_step grain bN enter body leave i m =
     (if length (rb_readers m) \<le> i then None
      else let r = rb_readers m ! i in case rd_pc r of
        GStart \<Rightarrow> (case enter (rb_st m) of
            Inl f \<Rightarrow> Some (RExit f)
          | Inr (t, s) \<Rightarrow> Some (RRun (m\<lparr>rb_st := s, rb_readers := (rb_readers m)[i := r\<lparr>rd_pc := GLoop t\<rparr>]\<rparr>)))
      | GLoop t \<Rightarrow> (case pb_Next grain bN (rb_globalN m) (rd_cache r) of (ok, g, cache) \<Rightarrow>
          if ok
          then (case body t (rd_c r) (rb_st m) of
              Inl f \<Rightarrow> Some (RExit f)
            | Inr (c, s) \<Rightarrow> Some (RRun (m\<lparr>rb_st := s, rb_globalN := g,
                rb_readers := (rb_readers m)[i := r\<lparr>rd_cache := cache, rd_c := c\<rparr>]\<rparr>)))
          else (case leave t (rb_st m) of
              Inl f \<Rightarrow> Some (RExit f)
            | Inr (_, s) \<Rightarrow> Some (RRun (m\<lparr>rb_st := s, rb_globalN := g,
                rb_readers := (rb_readers m)[i := r\<lparr>rd_pc := GDone, rd_cache := cache\<rparr>],
                rb_counter := Update (rb_counter m) (rd_c r)\<rparr>))))
      | GDone \<Rightarrow> None)"

inductive rstep ::
  "nat \<Rightarrow> nat \<Rightarrow> ('s, 't) io \<Rightarrow> ('t \<Rightarrow> hitCounter \<Rightarrow> ('s, hitCounter) io) \<Rightarrow> ('t \<Rightarrow> ('s, unit) io) \<Rightarrow>
     ('s, 't) rconf \<Rightarrow> ('s, 't) rconf \<Rightarrow> bool"
  for grain bN enter body leave where
  move: "reader_step grain bN enter body leave i m = Some c \<Longrightarrow> rstep grain bN enter body leave (RRun m) c"

inductive_cases rstep_RRunE: "rstep grain bN enter body leave (RRun m) c"
inductive_simps rstep_RExit: "rstep grain bN enter body leave (RExit f) c"

definition no_hits :: hitCounter where
  "no_hits = \<lparr>found = 0, notFound = 0, errored = 0\<rparr>"

text \<open>\<open>runRandomReadBenchmark\<close>: the shared counter is reset, the goroutines start with their own.\<close>

definition start_readers :: "nat \<Rightarrow> 's \<Rightarrow> ('s, 't) rbench" where
  "start_readers G st = \<lparr>rb_st = st, rb_globalN = 0,
     rb_readers = replicate G \<lparr>rd_pc = GStart, rd_cache = 0, rd_c = no_hits\<rparr>,
     rb_counter = Reset no_hits\<rparr>"

text \<open>A run under an explicit schedule: the indices of the goroutines that move, in order.\<close>

fun run_readers ::
  "nat \<Rightarrow> nat \<Rightarrow> ('s, 't) io \<Rightarrow> ('t \<Rightarrow> hitCounter \<Rightarrow> ('s, hitCounter) io) \<Rightarrow> ('t \<Rightarrow> ('s, unit) io) \<Rightarrow>
     nat list \<Rightarrow> ('s, 't) rconf \<Rightarrow> ('s, 't) rconf option" where
  "run_readers grain bN enter body leave [] c = Some c"
| "run_readers grain bN enter body leave (i # is) (RExit f) = None"
| "run_readers grain bN enter body leave (i # is) (RRun m) =
     (case reader_step grain bN enter body leave i m of
        None \<Rightarrow> None | Some c \<Rightarrow> run_readers grain bN enter body leave is c)"

definition all_done :: "('s, 't) rbench \<Rightarrow> bool" where
  "all_done m \<longleftrightarrow> (\<forall>r \<in> set (rb_readers m). rd_pc r = GDone)"

text \<open>
  The whole benchmark under a schedule: the counter that \<open>Print\<close> reports, or the fault that
  ended the process. \<open>None\<close>: the schedule names a goroutine that cannot move, or ends too early.
\<close>

definition runRandomReadBenchmark ::
  "nat \<Rightarrow> nat \<Rightarrow> nat \<Rightarrow> ('s, 't) io \<Rightarrow> ('t \<Rightarrow> hitCounter \<Rightarrow> ('s, hitCounter) io) \<Rightarrow> ('t \<Rightarrow> ('s, unit) io) \<Rightarrow>
     nat list \<Rightarrow> 's \<Rightarrow> (fault + hitCounter \<times> 's) option" where
  "runRandomReadBenchmark G grain bN enter body leave sched st =
     (case run_readers grain bN enter body leave sched (RRun (start_readers G st)) of
        None \<Rightarrow> None
      | Some (RExit f) \<Rightarrow> Some (Inl f)
      | Some (RRun m) \<Rightarrow> if all_done m then Some (Inr (rb_counter m, rb_st m)) else None)"

lemma run_readers_steps:
  "run_readers grain bN enter body leave is c = Some c' \<Longrightarrow> (rstep grain bN enter body leave)\<^sup>*\<^sup>* c c'"
proof (induction grain bN enter body leave "is" c rule: run_readers.induct)
  case (3 grain bN enter body leave i "is" m)
  then show ?case
    by (auto split: option.splits intro: converse_rtranclp_into_rtranclp rstep.move)
qed simp_all

lemma steps_run_readers:
  "(rstep grain bN enter body leave)\<^sup>*\<^sup>* c c' \<Longrightarrow> \<exists>is. run_readers grain bN enter body leave is c = Some c'"
proof (induction rule: converse_rtranclp_induct)
  case base
  have "run_readers grain bN enter body leave [] c' = Some c'" by simp
  then show ?case by blast
next
  case (step c c1)
  from step.hyps(1) obtain m i where m: "c = RRun m" "reader_step grain bN enter body leave i m = Some c1"
    by (cases rule: rstep.cases) auto
  obtain "is" where "run_readers grain bN enter body leave is c1 = Some c'" using step.IH by blast
  with m have "run_readers grain bN enter body leave (i # is) c = Some c'" by simp
  then show ?case by blast
qed

section \<open>Counting, for every interleaving\<close>

text \<open>The iterations a goroutine has been granted but not run, and the counts it still holds.\<close>

definition cached :: "'t reader list \<Rightarrow> nat" where
  "cached rs = sum_list (map rd_cache rs)"

definition held :: "hit \<Rightarrow> 't reader \<Rightarrow> 64 word" where
  "held k r = (if rd_pc r = GDone then 0 else hits_of k (rd_c r))"

definition pc_rank :: "'t reader \<Rightarrow> nat" where
  "pc_rank r = (case rd_pc r of GStart \<Rightarrow> 2 | GLoop t \<Rightarrow> 1 | GDone \<Rightarrow> 0)"

definition todo :: "nat \<Rightarrow> ('s, 't) rbench \<Rightarrow> nat" where
  "todo bN m = bN + cached (rb_readers m) - min (rb_globalN m) bN + sum_list (map pc_rank (rb_readers m))"

lemma todo_arith:
  "a' + c = a + (c' :: nat) \<Longrightarrow> p + c = Suc (q + c') \<Longrightarrow> p \<le> b \<Longrightarrow> q \<le> b \<Longrightarrow> b + a' + s - p < b + a + s - q"
  by linarith

lemma pb_Next_granted:
  assumes "pb_Next grain bN g c = (ok, g', c')" "0 < grain"
  shows "if ok then min g' bN + c = Suc (min g bN) + c' \<and> g \<le> g' else c = 0 \<and> c' = 0 \<and> bN \<le> g \<and> g \<le> g'"
  using assms by (auto simp: pb_Next_def Let_def split: if_splits)

lemmas step_simps = reader_step_def Let_def

lemma hits_of_none [simp]: "hits_of k no_hits = 0" "Reset no_hits = no_hits"
  by (cases k) (simp_all add: no_hits_def Reset_def)

locale read_loop =
  fixes enter :: "('s, 't) io" and body :: "'t \<Rightarrow> hitCounter \<Rightarrow> ('s, hitCounter) io"
    and leave :: "'t \<Rightarrow> ('s, unit) io" and I :: "hit list \<Rightarrow> 's \<Rightarrow> bool" and T :: "'t \<Rightarrow> bool"
    and F :: "fault \<Rightarrow> bool"
  assumes enter_law: "I hs s \<Longrightarrow> wpx enter F (\<lambda>t s'. I hs s' \<and> T t) s"
    and body_law: "I hs s \<Longrightarrow> T t \<Longrightarrow> wpx (body t c) F (\<lambda>c' s'. \<exists>h. I (hs @ [h]) s' \<and> c' = count_hit h c) s"
    and leave_law: "I hs s \<Longrightarrow> T t \<Longrightarrow> wpx (leave t) F (\<lambda>_ s'. I hs s') s"
begin

text \<open>
  The iterations granted so far are those run and those still cached; the counts of the runs are
  in the shared counter or still held by a goroutine; nobody is done before all are granted.
\<close>

definition counted :: "nat \<Rightarrow> ('s, 't) rbench \<Rightarrow> hit list \<Rightarrow> bool" where
  "counted bN m hs \<longleftrightarrow> I hs (rb_st m) \<and> length hs + cached (rb_readers m) = min (rb_globalN m) bN \<and>
     (\<forall>k. hits_of k (rb_counter m) + sum_list (map (held k) (rb_readers m)) = of_nat (count_list hs k)) \<and>
     (\<forall>r \<in> set (rb_readers m). (\<forall>t. rd_pc r = GLoop t \<longrightarrow> T t) \<and>
       (rd_pc r = GDone \<longrightarrow> rd_cache r = 0 \<and> bN \<le> rb_globalN m))"

lemma counted_update:
  assumes "counted bN m hs" "i < length (rb_readers m)"
    and "I hs' s" "g \<ge> rb_globalN m"
    and "length hs' + rd_cache r + min (rb_globalN m) bN = length hs + rd_cache (rb_readers m ! i) + min g bN"
    and "\<And>k. hits_of k h + held k r + of_nat (count_list hs k) =
      hits_of k (rb_counter m) + held k (rb_readers m ! i) + of_nat (count_list hs' k)"
    and "\<And>t. rd_pc r = GLoop t \<Longrightarrow> T t" "rd_pc r = GDone \<Longrightarrow> rd_cache r = 0 \<and> bN \<le> g"
  shows "counted bN (m\<lparr>rb_st := s, rb_globalN := g, rb_readers := (rb_readers m)[i := r], rb_counter := h\<rparr>) hs'"
proof -
  let ?rs = "rb_readers m" and ?rs' = "(rb_readers m)[i := r]"
  have c: "cached ?rs' + rd_cache (?rs ! i) = cached ?rs + rd_cache r"
    unfolding cached_def using assms(2) by (rule sum_map_update)
  have "hits_of k h + sum_list (map (held k) ?rs') = of_nat (count_list hs' k)" for k
  proof -
    have 1: "sum_list (map (held k) ?rs') + held k (?rs ! i) = sum_list (map (held k) ?rs) + held k r"
      using assms(2) by (rule sum_map_update)
    have 2: "hits_of k (rb_counter m) + sum_list (map (held k) ?rs) = of_nat (count_list hs k)"
      using assms(1) by (simp add: counted_def)
    have "sum_list (map (held k) ?rs') = sum_list (map (held k) ?rs) + held k r - held k (?rs ! i)"
      unfolding 1 [symmetric] by simp
    moreover have "sum_list (map (held k) ?rs) = of_nat (count_list hs k) - hits_of k (rb_counter m)"
      unfolding 2 [symmetric] by simp
    moreover have "of_nat (count_list hs' k) = hits_of k h + held k r + of_nat (count_list hs k) -
        hits_of k (rb_counter m) - held k (?rs ! i)"
      unfolding assms(6) [of k] by simp
    ultimately show ?thesis by simp
  qed
  moreover have "length hs' + cached ?rs' = min g bN"
    using c assms(1,5) by (simp add: counted_def)
  moreover have "r' \<in> set ?rs \<or> r' = r" if "r' \<in> set ?rs'" for r'
    using that set_update_subset_insert by fastforce
  ultimately show ?thesis
    using assms by (auto simp: counted_def) (metis order.trans)+
qed

definition fine :: "nat \<Rightarrow> ('s, 't) rconf \<Rightarrow> bool" where
  "fine bN c \<longleftrightarrow> (case c of RExit f \<Rightarrow> F f | RRun m \<Rightarrow> \<exists>hs. counted bN m hs)"

lemma fineI: "counted bN m hs \<Longrightarrow> fine bN (RRun m)" "F f \<Longrightarrow> fine bN (RExit f)"
  by (auto simp: fine_def)

lemma counted_enter:
  assumes "counted bN m hs" "i < length (rb_readers m)" "rd_pc (rb_readers m ! i) = GStart"
    and "reader_step grain bN enter body leave i m = Some c"
  shows "fine bN c"
proof -
  define r where "r = rb_readers m ! i"
  have "I hs (rb_st m)" using assms(1) by (simp add: counted_def)
  note law = enter_law [OF this]
  show ?thesis
  proof (cases "enter (rb_st m)")
    case (Inl f)
    then show ?thesis using law assms(2-4) by (auto simp: step_simps wpx_def intro: fineI)
  next
    case (Inr ts)
    obtain t s where ts: "enter (rb_st m) = Inr (t, s)" "I hs s" "T t"
      using law Inr by (cases ts) (auto simp: wpx_def)
    have "c = RRun (m\<lparr>rb_st := s, rb_readers := (rb_readers m)[i := r\<lparr>rd_pc := GLoop t\<rparr>]\<rparr>)"
      using assms(2-4) ts(1) by (auto simp: step_simps r_def)
    then show ?thesis
      using counted_update [OF assms(1,2) ts(2), of "rb_globalN m" "r\<lparr>rd_pc := GLoop t\<rparr>" "rb_counter m"] ts(3) assms(3)
      by (auto simp: held_def r_def intro: fineI)
  qed
qed

lemma counted_body:
  assumes "counted bN m hs" "i < length (rb_readers m)" "rd_pc (rb_readers m ! i) = GLoop t" "0 < grain"
    and "pb_Next grain bN (rb_globalN m) (rd_cache (rb_readers m ! i)) = (True, g, cache)"
    and "reader_step grain bN enter body leave i m = Some c"
  shows "fine bN c"
proof -
  define r where "r = rb_readers m ! i"
  have "I hs (rb_st m)" "T t" using assms(1-3) by (auto simp: counted_def)
  note law = body_law [OF this, of "rd_c r"] and granted = pb_Next_granted [OF assms(5,4)]
  show ?thesis
  proof (cases "body t (rd_c r) (rb_st m)")
    case (Inl f)
    then show ?thesis using law assms(2,3,5,6) by (auto simp: step_simps r_def wpx_def intro: fineI)
  next
    case (Inr cs)
    obtain h s where hs: "body t (rd_c r) (rb_st m) = Inr (count_hit h (rd_c r), s)" "I (hs @ [h]) s"
      using law Inr by (cases cs) (auto simp: wpx_def)
    let ?r = "r\<lparr>rd_cache := cache, rd_c := count_hit h (rd_c r)\<rparr>"
    have "c = RRun (m\<lparr>rb_st := s, rb_globalN := g, rb_readers := (rb_readers m)[i := ?r]\<rparr>)"
      using assms(2,3,5,6) hs(1) by (auto simp: step_simps r_def)
    moreover have "hits_of k (rb_counter m) + held k ?r + of_nat (count_list hs k) =
        hits_of k (rb_counter m) + held k (rb_readers m ! i) + of_nat (count_list (hs @ [h]) k)" for k
      using assms(3) by (auto simp: held_def hits_of_count r_def)
    ultimately show ?thesis
      using counted_update [OF assms(1,2) hs(2), of g ?r "rb_counter m"] granted assms(3) \<open>T t\<close>
      by (auto simp: r_def intro: fineI)
  qed
qed

lemma counted_leave:
  assumes "counted bN m hs" "i < length (rb_readers m)" "rd_pc (rb_readers m ! i) = GLoop t" "0 < grain"
    and "pb_Next grain bN (rb_globalN m) (rd_cache (rb_readers m ! i)) = (False, g, cache)"
    and "reader_step grain bN enter body leave i m = Some c"
  shows "fine bN c"
proof -
  define r where "r = rb_readers m ! i"
  have "I hs (rb_st m)" "T t" using assms(1-3) by (auto simp: counted_def)
  note law = leave_law [OF this] and granted = pb_Next_granted [OF assms(5,4)]
  show ?thesis
  proof (cases "leave t (rb_st m)")
    case (Inl f)
    then show ?thesis using law assms(2,3,5,6) by (auto simp: step_simps wpx_def intro: fineI)
  next
    case (Inr us)
    obtain s where s: "leave t (rb_st m) = Inr ((), s)" "I hs s"
      using law Inr by (cases us) (auto simp: wpx_def)
    let ?r = "r\<lparr>rd_pc := GDone, rd_cache := cache\<rparr>"
    have "c = RRun (m\<lparr>rb_st := s, rb_globalN := g, rb_readers := (rb_readers m)[i := ?r],
        rb_counter := Update (rb_counter m) (rd_c r)\<rparr>)"
      using assms(2,3,5,6) s(1) by (auto simp: step_simps r_def)
    then show ?thesis
      using counted_update [OF assms(1,2) s(2), of g ?r "Update (rb_counter m) (rd_c r)"] granted assms(3)
      by (auto simp: held_def hits_of_Update r_def intro: fineI)
  qed
qed

lemma counted_step:
  assumes "counted bN m hs" "0 < grain" "reader_step grain bN enter body leave i m = Some c"
  shows "fine bN c"
proof -
  have i: "i < length (rb_readers m)" using assms(3) by (auto simp: step_simps split: if_splits)
  obtain ok g cache where nx: "pb_Next grain bN (rb_globalN m) (rd_cache (rb_readers m ! i)) = (ok, g, cache)"
    by (metis prod.exhaust)
  show ?thesis
  proof (cases "rd_pc (rb_readers m ! i)")
    case (GLoop t)
    then show ?thesis
      using nx counted_body [OF assms(1) i GLoop assms(2) _ assms(3)] counted_leave [OF assms(1) i GLoop assms(2) _ assms(3)]
      by (cases ok) auto
  qed (use counted_enter [OF assms(1) i _ assms(3)] assms(3) i in \<open>auto simp: step_simps\<close>)
qed

lemma counted_start: "I [] st \<Longrightarrow> counted bN (start_readers G st) []"
  by (auto simp: counted_def start_readers_def cached_def held_def sum_list_replicate)

lemma counted_steps:
  assumes "(rstep grain bN enter body leave)\<^sup>*\<^sup>* (RRun (start_readers G st)) c" "0 < grain" "I [] st"
  shows "fine bN c"
  using assms(1)
proof (induction rule: rtranclp_induct)
  case base
  show ?case using counted_start [OF assms(3)] by (rule fineI)
next
  case (step c c')
  from step.hyps(2) obtain m i where "c = RRun m" "reader_step grain bN enter body leave i m = Some c'"
    by (cases rule: rstep.cases) auto
  with step.IH counted_step [OF _ assms(2)] show ?case by (auto simp: fine_def)
qed

text \<open>When every goroutine is done, the shared counter is the tally of exactly \<open>b.N\<close> reads.\<close>

lemma counted_done:
  assumes "counted bN m hs" "all_done m" "rb_readers m \<noteq> []"
  shows "length hs = bN" "I hs (rb_st m)" "rb_counter m = tally hs"
proof -
  have "\<forall>r \<in> set (rb_readers m). rd_pc r = GDone" using assms(2) by (simp add: all_done_def)
  then have "\<forall>r \<in> set (rb_readers m). rd_cache r = 0 \<and> (\<forall>k. held k r = 0)" and "bN \<le> rb_globalN m"
    using assms(1,3) by (auto simp: counted_def held_def) (metis list.set_sel(1))
  then have "cached (rb_readers m) = 0" "sum_list (map (held k) (rb_readers m)) = 0" "min (rb_globalN m) bN = bN" for k
    unfolding cached_def by (simp_all add: sum_list_0 cong: map_cong)
  then show "length hs = bN" "I hs (rb_st m)" "rb_counter m = tally hs"
    using assms(1) by (simp_all add: counted_def hits_of_tally hitCounter_eqI)
qed

lemma steps_readers:
  assumes "(rstep grain bN enter body leave)\<^sup>*\<^sup>* (RRun m0) (RRun m)"
  shows "length (rb_readers m) = length (rb_readers m0)"
proof -
  have "case c of RExit f \<Rightarrow> True | RRun m \<Rightarrow> length (rb_readers m) = length (rb_readers m0)"
    if "(rstep grain bN enter body leave)\<^sup>*\<^sup>* (RRun m0) c" for c
    using that
  proof (induction rule: rtranclp_induct)
    case (step c c')
    then show ?case
      by (auto elim!: rstep.cases simp: reader_step_def Let_def split: if_splits gpc.splits sum.splits prod.splits)
  qed simp
  from this [OF assms] show ?thesis by simp
qed

theorem final_counts:
  assumes "(rstep grain bN enter body leave)\<^sup>*\<^sup>* (RRun (start_readers G st)) c" "0 < grain" "0 < G" "I [] st"
  shows "case c of RExit f \<Rightarrow> F f
    | RRun m \<Rightarrow> all_done m \<longrightarrow> (\<exists>hs. length hs = bN \<and> I hs (rb_st m) \<and> rb_counter m = tally hs)"
proof (cases c)
  case (RRun m)
  with counted_steps [OF assms(1,2,4)] obtain hs where hs: "counted bN m hs" by (auto simp: fine_def)
  have "rb_readers m \<noteq> []"
    using steps_readers [OF assms(1) [unfolded RRun]] assms(3) by (auto simp: start_readers_def)
  then show ?thesis using counted_done [OF hs] RRun by auto
qed (use counted_steps [OF assms(1,2,4)] in \<open>auto simp: fine_def\<close>)

text \<open>
  A step uses up an iteration or moves a goroutine forward, so a run is short; and while a
  goroutine is not done, it can move.
\<close>

lemma step_todo:
  assumes "counted bN m hs" "0 < grain" "reader_step grain bN enter body leave i m = Some (RRun m')"
  shows "todo bN m' < todo bN m"
proof -
  define r where "r = rb_readers m ! i"
  have i: "i < length (rb_readers m)" using assms(3) by (auto simp: step_simps split: if_splits)
  obtain ok g cache where nx: "pb_Next grain bN (rb_globalN m) (rd_cache r) = (ok, g, cache)"
    by (metis prod.exhaust)
  note granted = pb_Next_granted [OF nx assms(2)]
  have cache: "cached ((rb_readers m)[i := r']) + rd_cache r = cached (rb_readers m) + rd_cache r'" for r'
    unfolding cached_def r_def using i by (rule sum_map_update)
  have rank: "sum_list (map pc_rank ((rb_readers m)[i := r'])) + pc_rank r =
      sum_list (map pc_rank (rb_readers m)) + pc_rank r'" for r'
    unfolding r_def using i by (rule sum_map_update)
  note upd = cache rank
  show ?thesis
  proof (cases "rd_pc r")
    case GStart
    then obtain t s where "m' = m\<lparr>rb_st := s, rb_readers := (rb_readers m)[i := r\<lparr>rd_pc := GLoop t\<rparr>]\<rparr>"
      using assms(3) i by (auto simp: step_simps r_def split: sum.splits)
    then show ?thesis using upd [of "r\<lparr>rd_pc := GLoop t\<rparr>"] GStart by (simp add: todo_def pc_rank_def)
  next
    case (GLoop t)
    consider c s where "ok" "m' = m\<lparr>rb_st := s, rb_globalN := g,
          rb_readers := (rb_readers m)[i := r\<lparr>rd_cache := cache, rd_c := c\<rparr>]\<rparr>"
      | s where "\<not> ok" "m' = m\<lparr>rb_st := s, rb_globalN := g,
          rb_readers := (rb_readers m)[i := r\<lparr>rd_pc := GDone, rd_cache := cache\<rparr>],
          rb_counter := Update (rb_counter m) (rd_c r)\<rparr>"
      using assms(3) i nx GLoop by (auto simp: step_simps r_def split: sum.splits if_splits)
    then show ?thesis
    proof cases
      case 1
      then show ?thesis
        using upd [of "r\<lparr>rd_cache := cache, rd_c := c\<rparr>"] granted GLoop
        by (simp add: todo_def pc_rank_def todo_arith [of _ "rd_cache r" _ cache])
    next
      case 2
      then show ?thesis
        using upd [of "r\<lparr>rd_pc := GDone, rd_cache := cache\<rparr>"] granted GLoop by (simp add: todo_def pc_rank_def)
    qed
  qed (use assms(3) i in \<open>simp add: step_simps r_def\<close>)
qed

lemma steps_bound:
  assumes "(rstep grain bN enter body leave ^^ n) (RRun m) c" "counted bN m hs" "0 < grain"
  shows "n \<le> Suc (todo bN m)"
  using assms(1,2)
proof (induction n arbitrary: m hs)
  case (Suc n)
  from Suc.prems(1) obtain c1 where c1: "rstep grain bN enter body leave (RRun m) c1"
      "(rstep grain bN enter body leave ^^ n) c1 c"
    using relpowp_Suc_D2 [OF Suc.prems(1)] by blast
  from c1(1) obtain i where i: "reader_step grain bN enter body leave i m = Some c1" by (cases rule: rstep.cases) auto
  show ?case
  proof (cases c1)
    case (RRun m1)
    then show ?thesis
      using Suc.IH [of m1] c1(2) counted_step [OF Suc.prems(2) assms(3) i] step_todo [OF Suc.prems(2) assms(3), of i m1] i
      by (fastforce simp: fine_def)
  next
    case (RExit f)
    then have "n = 0" using c1(2) by (metis relpowp_Suc_D2 rstep_RExit not0_implies_Suc)
    then show ?thesis by simp
  qed
qed simp

lemma can_finish:
  assumes "counted bN m hs" "0 < grain"
  shows "\<exists>c. (rstep grain bN enter body leave)\<^sup>*\<^sup>* (RRun m) c \<and> (case c of RExit f \<Rightarrow> True | RRun m' \<Rightarrow> all_done m')"
  using assms(1)
proof (induction "todo bN m" arbitrary: m hs rule: less_induct)
  case less
  show ?case
  proof (cases "all_done m")
    case False
    then obtain i where i: "i < length (rb_readers m)" "rd_pc (rb_readers m ! i) \<noteq> GDone"
      by (auto simp: all_done_def in_set_conv_nth)
    then have "reader_step grain bN enter body leave i m \<noteq> None"
      by (auto simp: step_simps split: gpc.splits sum.splits prod.splits)
    then obtain c where c: "reader_step grain bN enter body leave i m = Some c" by blast
    show ?thesis
    proof (cases c)
      case (RRun m')
      obtain hs' where "counted bN m' hs'"
        using counted_step [OF less.prems assms(2) c] RRun by (auto simp: fine_def)
      from less.hyps [OF step_todo [OF less.prems assms(2) c [unfolded RRun]] this] c RRun
      show ?thesis by (meson rstep.move converse_rtranclp_into_rtranclp)
    qed (use c rstep.move in \<open>fastforce split: rconf.splits\<close>)
  qed (rule exI [of _ "RRun m"], simp)
qed

lemma todo_start: "todo bN (start_readers G st) = bN + 2 * G"
  by (simp add: todo_def start_readers_def cached_def pc_rank_def sum_list_replicate)

lemma benchmark_counts:
  assumes "runRandomReadBenchmark G grain bN enter body leave sched st = Some res" "0 < grain" "0 < G" "I [] st"
  shows "case res of Inl f \<Rightarrow> F f
    | Inr (counter, st') \<Rightarrow> \<exists>hs. length hs = bN \<and> I hs st' \<and> counter = tally hs"
proof -
  obtain c where c: "run_readers grain bN enter body leave sched (RRun (start_readers G st)) = Some c"
    using assms(1) by (auto simp: runRandomReadBenchmark_def split: option.splits)
  show ?thesis
    using final_counts [OF run_readers_steps [OF c] assms(2-4)] assms(1) c
    by (auto simp: runRandomReadBenchmark_def split: rconf.splits if_splits)
qed

text \<open>Some schedule gets to the end, and no schedule is longer than that.\<close>

lemma benchmark_returns:
  assumes "0 < grain" "I [] st"
  shows "\<exists>sched res. runRandomReadBenchmark G grain bN enter body leave sched st = Some res"
proof -
  obtain c where c: "(rstep grain bN enter body leave)\<^sup>*\<^sup>* (RRun (start_readers G st)) c"
      "case c of RExit f \<Rightarrow> True | RRun m' \<Rightarrow> all_done m'"
    using can_finish [OF counted_start [OF assms(2)] assms(1)] by blast
  obtain sched where "run_readers grain bN enter body leave sched (RRun (start_readers G st)) = Some c"
    using steps_run_readers [OF c(1)] by blast
  with c(2) show ?thesis
    by (intro exI [of _ sched]) (auto simp: runRandomReadBenchmark_def split: rconf.splits)
qed

lemma schedule_bound:
  assumes "run_readers grain bN enter body leave sched (RRun (start_readers G st)) = Some c" "0 < grain" "I [] st"
  shows "length sched \<le> Suc (bN + 2 * G)"
proof -
  have "(rstep grain bN enter body leave ^^ length is) c0 c'"
    if "run_readers grain bN enter body leave is c0 = Some c'" for "is" c0 c'
    using that
  proof (induction "is" arbitrary: c0)
    case (Cons i "is")
    then show ?case
      by (cases c0) (auto split: option.splits intro: relpowp_Suc_I2 rstep.move simp del: relpowp.simps)
  qed simp
  from steps_bound [OF this [OF assms(1)] counted_start [OF assms(3)] assms(2)] show ?thesis
    by (simp add: todo_start)
qed

end

end
