(* ===== verification/ReadBench.thy ===== *)
theory ReadBench
  imports RunParallel Populate IterSpec
begin

text \<open>
  The read benchmarks of \<^verbatim>\<open>src/bench_test.go\<close>, part two: random reads on the five stores, and
  the iteration over a RocksDB store. RocksDB is opened read-only through the store of this
  repository. The read side of badger, goleveldb, bolt and lmdb is the parameter \<open>readers\<close>:
  a view is begun, gives a transaction or an error, and is ended. The number of iterations
  \<open>b.N\<close>, the number of goroutines and the grain are chosen by the testing framework.
\<close>

section \<open>Opening\<close>

record ('bv, 'bi, 'tv, 'lv, 'x) readers =
  y_AssertTruef :: "bool \<Rightarrow> fault option"
  badger_View :: "'x \<Rightarrow> (bytes + 'bv) \<times> 'x"
  badger_Get :: "'bv \<Rightarrow> bytes \<Rightarrow> 'x \<Rightarrow> (bytes + 'bi) \<times> 'x"
  badger_ValueCopy :: "'bi \<Rightarrow> 'x \<Rightarrow> (bytes + bytes) \<times> 'x"
  badger_EndView :: "'bv \<Rightarrow> 'x \<Rightarrow> bytes option \<times> 'x"
  badger_ErrKeyNotFound :: bytes
  leveldb_Get :: "bytes \<Rightarrow> 'x \<Rightarrow> (bytes + bytes) \<times> 'x"
  leveldb_ErrNotFound :: bytes
  bolt_View :: "'x \<Rightarrow> (bytes + 'tv) \<times> 'x"
  bolt_ViewBucket :: "'tv \<Rightarrow> bytes \<Rightarrow> nat option"
  bolt_Get :: "'tv \<Rightarrow> nat \<Rightarrow> bytes \<Rightarrow> bytes option"
  bolt_EndView :: "'tv \<Rightarrow> 'x \<Rightarrow> bytes option \<times> 'x"
  lmdb_SetMaxReaders :: "int \<Rightarrow> 'x \<Rightarrow> bytes option \<times> 'x"
  lmdb_View :: "'x \<Rightarrow> (bytes + 'lv) \<times> 'x"
  lmdb_OpenDBI :: "'lv \<Rightarrow> bytes \<Rightarrow> nat \<Rightarrow> bytes + nat"
  lmdb_SetRawRead :: "bool \<Rightarrow> 'lv \<Rightarrow> 'lv"
  lmdb_Get :: "'lv \<Rightarrow> nat \<Rightarrow> bytes \<Rightarrow> bytes + bytes"
  lmdb_IsNotFound :: "bytes \<Rightarrow> bool"
  lmdb_EndView :: "'lv \<Rightarrow> 'x \<Rightarrow> bytes option \<times> 'x"

definition getBadger ::
  "('bt, 'lb, 'tx, 'lt, 'e, 'x) libs \<Rightarrow> bytes \<Rightarrow> (('b, 'f, 'e, 'x) pstate, bytes option) io" where
  "getBadger L dir = on_x (badger_Open L ((badger_DefaultOptions L (dir @ ''/badger''))
     \<lparr>bo_TableLoadingMode := options_LoadToRAM L, bo_ReadOnly := True\<rparr>))"

definition getRocks ::
  "('bt, 'lb, 'tx, 'lt, 'e, 'x) libs \<Rightarrow> ('b, 'f, 'e) rocksdb \<Rightarrow> bytes \<Rightarrow> (('b, 'f, 'e, 'x) pstate, Store) io" where
  "getRocks L R dir =
     bnd (on_world (NewReadOnlyStore R (dir @ ''/rocks''))) (\<lambda>(rdb, err).
     andthen (check L err) (ret rdb))"

definition getLevelDB ::
  "('bt, 'lb, 'tx, 'lt, 'e, 'x) libs \<Rightarrow> bytes \<Rightarrow> (('b, 'f, 'e, 'x) pstate, unit) io" where
  "getLevelDB L dir = bnd (on_x (leveldb_OpenFile L (dir @ ''/level/l.db''))) (check L)"

definition getBoltDB ::
  "('bt, 'lb, 'tx, 'lt, 'e, 'x) libs \<Rightarrow> bytes \<Rightarrow> (('b, 'f, 'e, 'x) pstate, unit) io" where
  "getBoltDB L dir = bnd (on_x (bolt_Open L (dir @ ''/bolt/bolt.db'') perm_all
     ((bolt_DefaultOptions L)\<lparr>bolt_ReadOnly := True\<rparr>))) (check L)"

definition getLmdb ::
  "('bt, 'lb, 'tx, 'lt, 'e, 'x) libs \<Rightarrow> ('bv, 'bi, 'tv, 'lv, 'x) readers \<Rightarrow> bytes \<Rightarrow>
     (('b, 'f, 'e, 'x) pstate, unit) io" where
  "getLmdb L D dir =
     bnd (on_x (lmdb_NewEnv L)) (\<lambda>err. andthen (check L err)
     (bnd (on_x (lmdb_SetMaxReaders D (2 ^ 63 - 1))) (\<lambda>err. andthen (check L err)
     (bnd (on_x (lmdb_SetMaxDBs L 1)) (\<lambda>err. andthen (check L err)
     (bnd (on_x (lmdb_SetMapSize L (2 ^ 38))) (\<lambda>err. andthen (check L err)
     (bnd (on_x (lmdb_Open L (dir @ ''/lmdb'') (or (lmdb_Readonly L) (lmdb_NoReadahead L)) perm_all)) (check L)))))))))"

text \<open>
  A closure run in a view: an error of the view itself is checked before the closure runs, which
  ends the process, and the view's result is checked at its end.
\<close>

definition begin_view ::
  "('bt, 'lb, 'tx, 'lt, 'e, 'x) libs \<Rightarrow> ('x \<Rightarrow> (bytes + 't) \<times> 'x) \<Rightarrow> (('b, 'f, 'e, 'x) pstate, 't) io" where
  "begin_view L view = bnd (on_x view) (\<lambda>r. case r of
     Inl e \<Rightarrow> andthen (check L (Some e)) (fail (Fatal e))
   | Inr t \<Rightarrow> ret t)"

definition assert_f :: "('bv, 'bi, 'tv, 'lv, 'x) readers \<Rightarrow> bool \<Rightarrow> ('s, unit) io" where
  "assert_f D b = (case y_AssertTruef D b of None \<Rightarrow> ret () | Some f \<Rightarrow> fail f)"

section \<open>Random reads\<close>

text \<open>One iteration of a reader's loop: draw a key, look it up, count the outcome.\<close>

definition read_body ::
  "('t \<Rightarrow> bytes \<Rightarrow> (('b, 'f, 'e, 'x) pstate, hit) io) \<Rightarrow> rat \<Rightarrow> int \<Rightarrow>
     't \<Rightarrow> hitCounter \<Rightarrow> (('b, 'f, 'e, 'x) pstate, hitCounter) io" where
  "read_body look numKeys valueSize t c =
     bnd (on_rng (newKey numKeys valueSize)) (\<lambda>key.
     bnd (look t key) (\<lambda>h. ret (count_hit h c)))"

text \<open>The lookups of the five stores. RocksDB's slice is never freed.\<close>

definition look_rocks ::
  "('b, 'f, 'e) rocksdb \<Rightarrow> Store \<Rightarrow> unit \<Rightarrow> bytes \<Rightarrow> (('b, 'f, 'e, 'x) pstate, hit) io" where
  "look_rocks R rdb _ key = bnd (on_world (Store_Get R rdb key)) (\<lambda>r. ret (case r of
     Inl err \<Rightarrow> Errored
   | Inr rdb_slice \<Rightarrow> if Slice_Size rdb_slice > 0 then Found else NotFound))"

definition badger_miss :: "('bv, 'bi, 'tv, 'lv, 'x) readers \<Rightarrow> bytes \<Rightarrow> hit" where
  "badger_miss D err = (if err = badger_ErrKeyNotFound D then NotFound else Errored)"

definition look_badger ::
  "('bv, 'bi, 'tv, 'lv, 'x) readers \<Rightarrow> int \<Rightarrow> 'bv \<Rightarrow> bytes \<Rightarrow> (('b, 'f, 'e, 'x) pstate, hit) io" where
  "look_badger D valueSize txn key = bnd (on_x (badger_Get D txn key)) (\<lambda>r. case r of
     Inl err \<Rightarrow> ret (badger_miss D err)
   | Inr item \<Rightarrow> bnd (on_x (badger_ValueCopy D item)) (\<lambda>r. case r of
       Inl err \<Rightarrow> ret (badger_miss D err)
     | Inr val \<Rightarrow> andthen (assert_f D (int (length val) = valueSize)) (ret Found)))"

definition look_level ::
  "('bv, 'bi, 'tv, 'lv, 'x) readers \<Rightarrow> int \<Rightarrow> unit \<Rightarrow> bytes \<Rightarrow> (('b, 'f, 'e, 'x) pstate, hit) io" where
  "look_level D valueSize _ key = bnd (on_x (leveldb_Get D key)) (\<lambda>r. case r of
     Inl err \<Rightarrow> ret (if err = leveldb_ErrNotFound D then NotFound else Errored)
   | Inr v \<Rightarrow> andthen (assert_f D (int (length v) = valueSize)) (ret Found))"

definition look_bolt ::
  "('bv, 'bi, 'tv, 'lv, 'x) readers \<Rightarrow> int \<Rightarrow> 'tv \<times> nat \<Rightarrow> bytes \<Rightarrow> (('b, 'f, 'e, 'x) pstate, hit) io" where
  "look_bolt D valueSize = (\<lambda>(txn, boltBkt) key. case bolt_Get D txn boltBkt key of
     None \<Rightarrow> ret NotFound
   | Some v \<Rightarrow> andthen (assert_f D (int (length v) = valueSize)) (ret Found))"

definition look_lmdb ::
  "('bv, 'bi, 'tv, 'lv, 'x) readers \<Rightarrow> int \<Rightarrow> nat \<Rightarrow> 'lv \<Rightarrow> bytes \<Rightarrow> (('b, 'f, 'e, 'x) pstate, hit) io" where
  "look_lmdb D valueSize dbi txn key = (case lmdb_Get D txn dbi key of
     Inl err \<Rightarrow> ret (if lmdb_IsNotFound D err then NotFound else Errored)
   | Inr v \<Rightarrow> andthen (assert_f D (int (length v) = valueSize)) (ret Found))"

text \<open>Bolt's closure fetches the bucket before it loops, lmdb's asks for raw reads.\<close>

definition enter_bolt ::
  "('bt, 'lb, 'tx, 'lt, 'e, 'x) libs \<Rightarrow> ('bv, 'bi, 'tv, 'lv, 'x) readers \<Rightarrow>
     (('b, 'f, 'e, 'x) pstate, 'tv \<times> nat) io" where
  "enter_bolt L D = bnd (begin_view L (bolt_View D)) (\<lambda>txn.
     case y_AssertTrue L (bolt_ViewBucket D txn ''bench'' \<noteq> None) of
       Some f \<Rightarrow> fail f
     | None \<Rightarrow> (case bolt_ViewBucket D txn ''bench'' of
         None \<Rightarrow> fail NilDeref
       | Some bkt \<Rightarrow> ret (txn, bkt)))"

definition enter_lmdb ::
  "('bt, 'lb, 'tx, 'lt, 'e, 'x) libs \<Rightarrow> ('bv, 'bi, 'tv, 'lv, 'x) readers \<Rightarrow> (('b, 'f, 'e, 'x) pstate, 'lv) io" where
  "enter_lmdb L D = bnd (begin_view L (lmdb_View D)) (\<lambda>txn. ret (lmdb_SetRawRead D True txn))"

section \<open>The benchmarks\<close>

text \<open>Open, run under a schedule, close by the deferred call.\<close>

definition bench_session ::
  "('s, 'h) io \<Rightarrow> ('h \<Rightarrow> 's \<Rightarrow> (fault + hitCounter \<times> 's) option) \<Rightarrow> ('h \<Rightarrow> ('s, unit) io) \<Rightarrow>
     's \<Rightarrow> (fault + hitCounter \<times> 's) option" where
  "bench_session opn run close st = (case opn st of
     Inl f \<Rightarrow> Some (Inl f)
   | Inr (h, st1) \<Rightarrow> (case run h st1 of
       None \<Rightarrow> None
     | Some (Inl f) \<Rightarrow> Some (Inl f)
     | Some (Inr (c, st2)) \<Rightarrow> (case close h st2 of
         Inl f \<Rightarrow> Some (Inl f)
       | Inr (_, st3) \<Rightarrow> Some (Inr (c, st3)))))"

definition BenchmarkReadRandomRocks ::
  "('bt, 'lb, 'tx, 'lt, 'e, 'x) libs \<Rightarrow> ('b, 'f, 'e) rocksdb \<Rightarrow> bytes \<Rightarrow> rat \<Rightarrow> int \<Rightarrow> nat \<Rightarrow> nat \<Rightarrow> nat \<Rightarrow>
     nat list \<Rightarrow> ('b, 'f, 'e, 'x) pstate \<Rightarrow> (fault + hitCounter \<times> ('b, 'f, 'e, 'x) pstate) option" where
  "BenchmarkReadRandomRocks L R dir numKeys valueSize G grain bN sched =
     bench_session (getRocks L R dir)
       (\<lambda>rdb. runRandomReadBenchmark G grain bN (ret ()) (read_body (look_rocks R rdb) numKeys valueSize) ret sched)
       (\<lambda>rdb. on_world (Store_Close R rdb))"

definition BenchmarkReadRandomBadger ::
  "('bt, 'lb, 'tx, 'lt, 'e, 'x) libs \<Rightarrow> ('bv, 'bi, 'tv, 'lv, 'x) readers \<Rightarrow> bytes \<Rightarrow> rat \<Rightarrow> int \<Rightarrow> nat \<Rightarrow> nat \<Rightarrow> nat \<Rightarrow>
     nat list \<Rightarrow> ('b, 'f, 'e, 'x) pstate \<Rightarrow> (fault + hitCounter \<times> ('b, 'f, 'e, 'x) pstate) option" where
  "BenchmarkReadRandomBadger L D dir numKeys valueSize G grain bN sched =
     bench_session (bnd (getBadger L dir) (check L))
       (\<lambda>_. runRandomReadBenchmark G grain bN (begin_view L (badger_View D))
          (read_body (look_badger D valueSize) numKeys valueSize)
          (\<lambda>txn. bnd (on_x (badger_EndView D txn)) (check L)) sched)
       (\<lambda>_. on_x (badger_Close L))"

definition BenchmarkReadRandomLevel ::
  "('bt, 'lb, 'tx, 'lt, 'e, 'x) libs \<Rightarrow> ('bv, 'bi, 'tv, 'lv, 'x) readers \<Rightarrow> bytes \<Rightarrow> rat \<Rightarrow> int \<Rightarrow> nat \<Rightarrow> nat \<Rightarrow> nat \<Rightarrow>
     nat list \<Rightarrow> ('b, 'f, 'e, 'x) pstate \<Rightarrow> (fault + hitCounter \<times> ('b, 'f, 'e, 'x) pstate) option" where
  "BenchmarkReadRandomLevel L D dir numKeys valueSize G grain bN sched =
     bench_session (getLevelDB L dir)
       (\<lambda>_. runRandomReadBenchmark G grain bN (ret ()) (read_body (look_level D valueSize) numKeys valueSize) ret sched)
       (\<lambda>_. on_x (leveldb_Close L))"

definition BenchmarkReadRandomBolt ::
  "('bt, 'lb, 'tx, 'lt, 'e, 'x) libs \<Rightarrow> ('bv, 'bi, 'tv, 'lv, 'x) readers \<Rightarrow> bytes \<Rightarrow> rat \<Rightarrow> int \<Rightarrow> nat \<Rightarrow> nat \<Rightarrow> nat \<Rightarrow>
     nat list \<Rightarrow> ('b, 'f, 'e, 'x) pstate \<Rightarrow> (fault + hitCounter \<times> ('b, 'f, 'e, 'x) pstate) option" where
  "BenchmarkReadRandomBolt L D dir numKeys valueSize G grain bN sched =
     bench_session (getBoltDB L dir)
       (\<lambda>_. runRandomReadBenchmark G grain bN (enter_bolt L D) (read_body (look_bolt D valueSize) numKeys valueSize)
          (\<lambda>(txn, _). bnd (on_x (bolt_EndView D txn)) (check L)) sched)
       (\<lambda>_. on_x (bolt_Close L))"

text \<open>Lmdb's handle is acquired in a view of its own; the handle is closed before the environment.\<close>

definition lmdb_handle ::
  "('bt, 'lb, 'tx, 'lt, 'e, 'x) libs \<Rightarrow> ('bv, 'bi, 'tv, 'lv, 'x) readers \<Rightarrow> (('b, 'f, 'e, 'x) pstate, nat) io" where
  "lmdb_handle L D = bnd (begin_view L (lmdb_View D)) (\<lambda>txn. case lmdb_OpenDBI D txn ''bench'' 0 of
     Inl e \<Rightarrow> andthen (on_x (lmdb_EndView D txn)) (andthen (check L (Some e)) (fail (Fatal e)))
   | Inr dbi \<Rightarrow> bnd (on_x (lmdb_EndView D txn)) (\<lambda>err. andthen (check L err) (ret dbi)))"

definition BenchmarkReadRandomLmdb ::
  "('bt, 'lb, 'tx, 'lt, 'e, 'x) libs \<Rightarrow> ('bv, 'bi, 'tv, 'lv, 'x) readers \<Rightarrow> bytes \<Rightarrow> rat \<Rightarrow> int \<Rightarrow> nat \<Rightarrow> nat \<Rightarrow> nat \<Rightarrow>
     nat list \<Rightarrow> ('b, 'f, 'e, 'x) pstate \<Rightarrow> (fault + hitCounter \<times> ('b, 'f, 'e, 'x) pstate) option" where
  "BenchmarkReadRandomLmdb L D dir numKeys valueSize G grain bN sched =
     bench_session (andthen (getLmdb L D dir) (lmdb_handle L D))
       (\<lambda>dbi. runRandomReadBenchmark G grain bN (enter_lmdb L D)
          (read_body (look_lmdb D valueSize dbi) numKeys valueSize)
          (\<lambda>txn. bnd (on_x (lmdb_EndView D txn)) (check L)) sched)
       (\<lambda>dbi. andthen (on_x (lmdb_CloseDBI L dbi)) (on_x (lmdb_Close L)))"

section \<open>Every read is counted\<close>

interpretation reading: read_loop enter "read_body look numKeys valueSize" leave "\<lambda>_ _. True" "\<lambda>_. True" "\<lambda>_. True"
  for enter :: "(('b, 'f, 'e, 'x) pstate, 't) io" and look numKeys valueSize and leave :: "'t \<Rightarrow> (('b, 'f, 'e, 'x) pstate, unit) io"
  by unfold_locales (auto simp: wpx_def read_body_def bnd_def split: sum.splits)

lemma session_counts:
  assumes "bench_session opn run close st = Some (Inr (c, st'))"
    and "\<And>h st1 st2. run h st1 = Some (Inr (c, st2)) \<Longrightarrow> P c"
  shows "P c"
  using assms by (auto simp: bench_session_def split: sum.splits option.splits)

lemma reads_total:
  assumes "runRandomReadBenchmark G grain bN enter (read_body look numKeys valueSize) leave sched st = Some (Inr (c, st'))"
    and "0 < grain" "0 < G"
  shows "looked_at c = of_nat bN"
  using reading.benchmark_counts [OF assms(1-3)] by (auto simp: looked_at_tally)

section \<open>Random reads on RocksDB\<close>

text \<open>The key of the \<open>i\<close>-th draw, and how a read of a key on given contents is counted.\<close>

definition drawn :: "rng \<Rightarrow> int \<Rightarrow> int \<Rightarrow> nat \<Rightarrow> bytes" where
  "drawn g valueSize n i = key_string valueSize (int (rg_src g (rg_pos g + i) mod 2 ^ 63) mod n)"

definition hit_kind :: "contents \<Rightarrow> bytes \<Rightarrow> hit" where
  "hit_kind m k = (case m k of None \<Rightarrow> NotFound | Some v \<Rightarrow> if v = [] then NotFound else Found)"

text \<open>The C blocks of \<open>w'\<close> that were not there in \<open>w\<close>.\<close>

definition leaked :: "('b, 'f, 'e) world \<Rightarrow> ('b, 'f, 'e) world \<Rightarrow> nat" where
  "leaked w w' = card (dom (c_heap w') - dom (c_heap w))"

definition reads_done ::
  "('e \<Rightarrow> astate) \<Rightarrow> ('b, 'f, 'e) world \<Rightarrow> rng \<Rightarrow> contents \<Rightarrow> int \<Rightarrow> int \<Rightarrow> hit list \<Rightarrow>
     ('b, 'f, 'e, 'x) pstate \<Rightarrow> bool" where
  "reads_done \<alpha> w0 g0 m valueSize n hs st \<longleftrightarrow>
     c_ok (ps_world st) \<and> heap_keeps w0 (ps_world st) \<and> \<alpha> (eng (ps_world st)) = \<alpha> (eng w0) \<and>
     rg_src (ps_rng st) = rg_src g0 \<and> rg_pos (ps_rng st) = rg_pos g0 + length hs \<and>
     (\<forall>i < length hs. hs ! i = Errored \<or> hs ! i = hit_kind m (drawn g0 valueSize n i)) \<and>
     count_list hs Found \<le> leaked w0 (ps_world st)"

lemma wp_newKey:
  assumes "trunc (f64 (numKeys * 1000000)) = n" "0 < n"
  shows "wp (newKey numKeys v) Q g = Q (drawn g v n 0) (g\<lparr>rg_pos := Suc (rg_pos g)\<rparr>)"
  using assms by (simp add: newKey_def rand_Int_def Int63_def wp_def bnd_def go_rem_def drawn_def)

lemma c_ok_finite: "c_ok w \<Longrightarrow> finite (dom (c_heap w))"
  by (rule finite_subset [of _ "{..< c_brk w}"]) (auto dest: c_ok_live_less)

lemma leaked_alloc:
  assumes "heap_keeps w0 w" "c_ok w" "c_heap w p = None" "c_heap w' = (c_heap w)(p \<mapsto> x)"
  shows "leaked w0 w' = Suc (leaked w0 w)"
proof -
  have "p \<notin> dom (c_heap w0)" using assms(1,3) heap_keepsD by (metis domD option.distinct(1))
  then have "dom (c_heap w') - dom (c_heap w0) = insert p (dom (c_heap w) - dom (c_heap w0))"
    using assms(4) by auto
  moreover have "finite (dom (c_heap w) - dom (c_heap w0))" "p \<notin> dom (c_heap w) - dom (c_heap w0)"
    using c_ok_finite [OF assms(2)] assms(3) by auto
  ultimately show ?thesis by (simp add: leaked_def)
qed

lemma leaked_same: "c_heap w' = c_heap w \<Longrightarrow> leaked w0 w' = leaked w0 w"
  by (simp add: leaked_def)

context rocks_kv
begin

lemma wp_look_rocks:
  assumes "c_ok (ps_world st)" "store_live (ps_world st) s d ro wo" "a_db (\<alpha> (eng (ps_world st))) d = Some db"
    and "snapshot ro = 0" "heap_keeps w0 (ps_world st)"
  shows "wp (look_rocks R s u k) (\<lambda>h st'. c_ok (ps_world st') \<and> heap_keeps w0 (ps_world st') \<and>
    \<alpha> (eng (ps_world st')) = \<alpha> (eng (ps_world st)) \<and> ps_rng st' = ps_rng st \<and>
    (h = Errored \<or> h = hit_kind (ad_kv db) k) \<and>
    leaked w0 (ps_world st) + (if h = Found then 1 else 0) \<le> leaked w0 (ps_world st')) st"
proof -
  let ?w = "ps_world st"
  obtain gd where gd: "s_db s = Some gd" "live_db ?w gd d" "live_ro ?w (s_ropt s) ro"
    using assms(2) by (elim store_liveE)
  obtain sv v e' where g: "db_Get R d ro k (eng ?w) = ((sv, v), e')"
    by (metis prod.exhaust)
  have law: "\<alpha> e' = \<alpha> (eng ?w)" "st_ok sv \<Longrightarrow> ad_kv db k = Some v \<and> length v < 2 ^ 63"
      "\<not> st_ok sv \<Longrightarrow> st_notfound sv \<Longrightarrow> ad_kv db k = None"
    using get_law [OF g assms(3)] assms(4) by (auto simp: a_view_def)
  have size: "Slice_Size (NewSlice Null 0) = 0" "st_ok sv \<Longrightarrow> Slice_Size (NewSlice (CPtr p) (length v)) = int (length v)" for p
    using law(2) by (auto simp: Slice_Size_def NewSlice_def)
  show ?thesis
    unfolding look_rocks_def wp_bnd wp_on Store_Get_def with_db_def gd(1) option.case
    by (rule wp_mono [OF wp_DB_Get [OF assms(1) gd(2,3)]])
      (use law size assms(5) heap_keeps_same [OF assms(5)] heap_keeps_trans [OF assms(5) heap_keeps_alloc]
          leaked_alloc [OF assms(5,1)] in
        \<open>auto simp: g get_outcome_def hit_kind_def mem_same_def intro!: eq_refl [OF leaked_same [symmetric]] split: if_splits\<close>)
qed

end

locale rocks_reads = open_store R \<alpha> bops w0 s d db ro wo
  for R :: "('b, 'f, 'e) rocksdb" and \<alpha> bops w0 s d db ro wo +
  fixes g0 :: rng and numKeys :: rat and valueSize n :: int
  assumes modulus: "trunc (f64 (numKeys * 1000000)) = n" "0 < n"
begin

lemma read_one:
  assumes "reads_done \<alpha> w0 g0 (ad_kv db) valueSize n hs st"
  shows "wp (read_body (look_rocks R s) numKeys valueSize t c)
    (\<lambda>c' st'. \<exists>h. reads_done \<alpha> w0 g0 (ad_kv db) valueSize n (hs @ [h]) st' \<and> c' = count_hit h c) st"
proof -
  let ?st = "st\<lparr>ps_rng := (ps_rng st)\<lparr>rg_pos := Suc (rg_pos (ps_rng st))\<rparr>\<rparr>"
  have st: "c_ok (ps_world ?st)" "heap_keeps w0 (ps_world ?st)" "\<alpha> (eng (ps_world ?st)) = \<alpha> (eng w0)"
    using assms by (simp_all add: reads_done_def)
  then have "store_live (ps_world ?st) s d ro wo" "a_db (\<alpha> (eng (ps_world ?st))) d = Some db"
    using store_live_keeps [OF handles] is_open by auto
  note look = wp_look_rocks [OF st(1) this no_snapshot st(2), of t]
  have key: "drawn (ps_rng st) valueSize n 0 = drawn g0 valueSize n (length hs)"
    using assms by (simp add: reads_done_def drawn_def)
  have more: "reads_done \<alpha> w0 g0 (ad_kv db) valueSize n (hs @ [h]) st'"
    if "c_ok (ps_world st') \<and> heap_keeps w0 (ps_world st') \<and> \<alpha> (eng (ps_world st')) = \<alpha> (eng (ps_world ?st)) \<and>
      ps_rng st' = ps_rng ?st \<and> (h = Errored \<or> h = hit_kind (ad_kv db) (drawn g0 valueSize n (length hs))) \<and>
      leaked w0 (ps_world ?st) + (if h = Found then 1 else 0) \<le> leaked w0 (ps_world st')" for h st'
    using that assms by (auto simp: reads_done_def nth_append less_Suc_eq split: if_splits)
  show ?thesis
    unfolding read_body_def wp_bnd wp_on wp_newKey [OF modulus] wp_ret key
    by (rule wp_mono [OF look]) (use more in blast)
qed

end

sublocale rocks_reads \<subseteq> reads: read_loop "ret ()" "read_body (look_rocks R s) numKeys valueSize" ret
  "reads_done \<alpha> w0 g0 (ad_kv db) valueSize n" "\<lambda>_. True" "\<lambda>_. False"
  by unfold_locales (auto intro: wp_wpx [OF read_one])

interpretation one_reads: rocks_reads ref_rocksdb ref_abs "\<lambda>b. b" "world_open True" store_one 1
  "\<lparr>ad_name = ''db'', ad_rw = True, ad_kv = [''k'' \<mapsto> ''neo'']\<rparr>" "def_readoptions ref_rocksdb"
  "\<lparr>sync = False\<rparr>" rng_one "1 / 1000000" 4 1
  by unfold_locales (rule one_key, simp)

context rocks_reads
begin

lemma reads_start: "ps_world st = w0 \<Longrightarrow> ps_rng st = g0 \<Longrightarrow> reads_done \<alpha> w0 g0 (ad_kv db) valueSize n [] st"
  using w0_ok by (simp add: reads_done_def)

lemma reads_outcome:
  assumes "runRandomReadBenchmark G grain bN (ret ()) (read_body (look_rocks R s) numKeys valueSize) ret sched st = Some res"
    and "ps_world st = w0" "ps_rng st = g0" "0 < grain" "0 < G"
  shows "\<exists>hs st'. res = Inr (tally hs, st') \<and> length hs = bN \<and> reads_done \<alpha> w0 g0 (ad_kv db) valueSize n hs st'"
  using reads.benchmark_counts [OF assms(1,4,5) reads_start [OF assms(2,3)]] by (auto split: sum.splits)

lemma reads_return:
  assumes "ps_world st = w0" "ps_rng st = g0" "0 < grain"
  shows "\<exists>sched res. runRandomReadBenchmark G grain bN (ret ()) (read_body (look_rocks R s) numKeys valueSize) ret sched st = Some res"
  using reads.benchmark_returns [OF assms(3) reads_start [OF assms(1,2)]] .

end

text \<open>Opening the store for reading.\<close>

definition opened_ro ::
  "('b, 'f, 'e) rocksdb \<Rightarrow> ('e \<Rightarrow> astate) \<Rightarrow> bytes \<Rightarrow> ('b, 'f, 'e) world \<Rightarrow> Store \<Rightarrow> ('b, 'f, 'e) world \<Rightarrow> bool" where
  "opened_ro R \<alpha> p w s w' \<longleftrightarrow> c_ok w' \<and> heap_keeps w w' \<and> (\<exists>d wo. store_live w' s d (def_readoptions R) wo \<and>
     \<alpha> (eng w') = (\<alpha> (eng w))\<lparr>a_db := (a_db (\<alpha> (eng w)))
       (d \<mapsto> \<lparr>ad_name = p, ad_rw = False, ad_kv = disk_contents (\<alpha> (eng w)) p\<rparr>)\<rparr>)"

lemma opened_roI:
  "c_ok w' \<Longrightarrow> heap_keeps w w' \<Longrightarrow> store_live w' s d (def_readoptions R) wo \<Longrightarrow>
   \<alpha> (eng w') = (\<alpha> (eng w))\<lparr>a_db := (a_db (\<alpha> (eng w)))
     (d \<mapsto> \<lparr>ad_name = p, ad_rw = False, ad_kv = disk_contents (\<alpha> (eng w)) p\<rparr>)\<rparr> \<Longrightarrow> opened_ro R \<alpha> p w s w'"
  unfolding opened_ro_def by blast

lemma leaked_after_close:
  assumes "heap_keeps w w1" "c_ok w2" "c_heap w3 = (c_heap w2)(p := None)" "c_heap w1 p \<noteq> None"
  shows "leaked w1 w2 \<le> leaked w w3"
proof -
  have "finite (dom (c_heap w3))" using c_ok_finite [OF assms(2)] assms(3) by simp
  moreover have "dom (c_heap w) \<subseteq> dom (c_heap w1)" using assms(1) by (simp add: heap_keeps_def map_le_implies_dom_le)
  ultimately show ?thesis
    using assms(3,4) unfolding leaked_def by (intro card_mono) auto
qed

context rocks_dir
begin

lemma wpx_getRocks:
  assumes "c_ok (ps_world st)" "y_law L"
  shows "wpx (getRocks L R dir) (check_fault L) (\<lambda>s st'. ps_rng st' = ps_rng st \<and>
    opened_ro R \<alpha> (cstr (dir @ ''/rocks'')) (ps_world st) s (ps_world st')) st"
proof -
  let ?w = "ps_world st" and ?p = "cstr (dir @ ''/rocks'')"
  have e: "\<alpha> (eng_open R ?w) = \<alpha> (eng ?w)"
    using bloom_law [of 16 True "eng ?w"] by (metis prod.collapse)
  obtain sv d e' where o: "db_OpenForReadOnly R (store_options R) ?p False (eng_open R ?w) = ((sv, d), e')"
    by (metis prod.exhaust)
  show ?thesis
    unfolding getRocks_def wpx_bnd wpx_on split_def
    by (rule wp_wpx [OF wp_NewReadOnlyStore [OF assms(1) default_policy]])
      (use open_ro_law [OF o] e assms(2) in \<open>auto simp: o opened_def intro: opened_roI split: if_splits\<close>)
qed

lemma opened_ro_reads:
  assumes "opened_ro R \<alpha> p w s w1" "trunc (f64 (numKeys * 1000000)) = n" "0 < n"
  obtains d wo where "store_live w1 s d (def_readoptions R) wo"
    "rocks_reads R \<alpha> bops w1 s d \<lparr>ad_name = p, ad_rw = False, ad_kv = disk_contents (\<alpha> (eng w)) p\<rparr>
       (def_readoptions R) wo numKeys n"
proof -
  obtain d wo where live: "c_ok w1" "store_live w1 s d (def_readoptions R) wo" "a_db (\<alpha> (eng w1)) d =
      Some \<lparr>ad_name = p, ad_rw = False, ad_kv = disk_contents (\<alpha> (eng w)) p\<rparr>"
    using assms(1) by (auto simp: opened_ro_def)
  then have "rocks_reads R \<alpha> bops w1 s d \<lparr>ad_name = p, ad_rw = False, ad_kv = disk_contents (\<alpha> (eng w)) p\<rparr>
      (def_readoptions R) wo numKeys n"
    using rocks_kv_axioms assms(2,3) default_snapshot
    by (simp add: rocks_reads_def open_store_def open_store_axioms_def rocks_reads_axioms_def)
  with live(2) show ?thesis by (rule that)
qed

text \<open>Closing a database that was opened for reading leaves the directories alone.\<close>

lemma wp_close_ro:
  assumes "c_ok w" "store_live w s d ro wo" "a_db (\<alpha> (eng w)) d = Some db" "\<not> ad_rw db"
    and "a_it (\<alpha> (eng w)) = Map.empty"
  shows "wp (Store_Close R s) (\<lambda>_ w'. a_disk (\<alpha> (eng w')) = a_disk (\<alpha> (eng w)) \<and>
    (\<exists>gd. s_db s = Some gd \<and> c_heap w' = (c_heap w)(db_c gd := None))) w"
proof -
  obtain gd where gd: "s_db s = Some gd" "live_db w gd d"
    using assms(2) by (elim store_liveE)
  show ?thesis
    unfolding Store_Close_def with_db_def gd(1) option.case
    by (rule wp_mono [OF wp_DB_Close [OF assms(1) gd(2)]])
      (use close_law [OF _ assms(3,5)] assms(4) in
        \<open>auto simp: map_prod_def prod_eq_iff split: prod.splits\<close>)
qed

end

lemma read_random_run:
  fixes st :: "('b, 'f, 'e, 'x) pstate"
  assumes "rocks_dir R \<alpha> bops" "y_law L" "c_ok (ps_world st)" "a_it (\<alpha> (eng (ps_world st))) = Map.empty"
    and "trunc (f64 (numKeys * 1000000)) = n" "0 < n" "0 < G" "0 < grain"
    and "getRocks L R dir st = Inr (s, st1)"
    and "runRandomReadBenchmark G grain bN (ret ()) (read_body (look_rocks R s) numKeys v) ret sched st1 = Some r1"
  shows "\<exists>hs st'. BenchmarkReadRandomRocks L R dir numKeys v G grain bN sched st = Some (Inr (tally hs, st')) \<and>
    a_disk (\<alpha> (eng (ps_world st'))) = a_disk (\<alpha> (eng (ps_world st))) \<and>
    length hs = bN \<and> count_list hs Found \<le> leaked (ps_world st) (ps_world st') \<and>
    (\<forall>i < bN. hs ! i = Errored \<or>
      hs ! i = hit_kind (disk_contents (\<alpha> (eng (ps_world st))) (cstr (dir @ ''/rocks''))) (drawn (ps_rng st) v n i))"
proof -
  let ?p = "cstr (dir @ ''/rocks'')" and ?m = "disk_contents (\<alpha> (eng (ps_world st))) (cstr (dir @ ''/rocks''))"
  have rng: "ps_rng st1 = ps_rng st" and ro: "opened_ro R \<alpha> ?p (ps_world st) s (ps_world st1)"
    using rocks_dir.wpx_getRocks [OF assms(1,3,2), of dir] assms(9) by (simp_all add: wpx_def)
  let ?db = "\<lparr>ad_name = ?p, ad_rw = False, ad_kv = ?m\<rparr>"
  obtain d wo where live: "store_live (ps_world st1) s d (def_readoptions R) wo"
    and reads: "rocks_reads R \<alpha> bops (ps_world st1) s d ?db (def_readoptions R) wo numKeys n"
    by (rule rocks_dir.opened_ro_reads [OF assms(1) ro assms(5,6)])
  obtain hs st2 where st2: "r1 = Inr (tally hs, st2)" "length hs = bN"
      "reads_done \<alpha> (ps_world st1) (ps_rng st) ?m v n hs st2"
    using rocks_reads.reads_outcome [OF reads assms(10) refl rng assms(8,7)] by auto
  have w2: "c_ok (ps_world st2)" "store_live (ps_world st2) s d (def_readoptions R) wo"
      "\<alpha> (eng (ps_world st2)) = \<alpha> (eng (ps_world st1))"
    using st2(3) store_live_keeps [OF live] by (auto simp: reads_done_def)
  have db: "a_db (\<alpha> (eng (ps_world st2))) d = Some ?db" and a: "a_it (\<alpha> (eng (ps_world st2))) = Map.empty"
      "a_disk (\<alpha> (eng (ps_world st2))) = a_disk (\<alpha> (eng (ps_world st)))"
    using ro w2(3) assms(4) rocks_reads.axioms(1) [OF reads] by (auto simp: opened_ro_def dest: open_store.is_open)
  obtain w3 gd where w3: "Store_Close R s (ps_world st2) = Inr ((), w3)" "a_disk (\<alpha> (eng w3)) = a_disk (\<alpha> (eng (ps_world st2)))"
      "s_db s = Some gd" "c_heap w3 = (c_heap (ps_world st2))(db_c gd := None)"
    using rocks_dir.wp_close_ro [OF assms(1) w2(1,2) db] a(1) by (auto elim: wpE)
  have "leaked (ps_world st1) (ps_world st2) \<le> leaked (ps_world st) w3"
    by (rule leaked_after_close [OF _ w2(1) w3(4)]) (use ro live w3(3) in \<open>auto simp: opened_ro_def elim: store_liveE\<close>)
  moreover have "BenchmarkReadRandomRocks L R dir numKeys v G grain bN sched st = Some (Inr (tally hs, st2\<lparr>ps_world := w3\<rparr>))"
    using assms(9,10) st2(1) w3(1) by (simp add: BenchmarkReadRandomRocks_def bench_session_def on_world_def)
  ultimately show ?thesis
    using st2(2,3) w3(2) a(2) by (auto simp: reads_done_def intro!: exI [of _ hs] exI [of _ "st2\<lparr>ps_world := w3\<rparr>"])
qed

lemma read_random_exists:
  fixes st :: "('b, 'f, 'e, 'x) pstate"
  assumes "rocks_dir R \<alpha> bops" "y_law L" "c_ok (ps_world st)" "a_it (\<alpha> (eng (ps_world st))) = Map.empty"
    and "trunc (f64 (numKeys * 1000000)) = n" "0 < n" "0 < G" "0 < grain"
    and "getRocks L R dir st = Inr (s, st1)"
  shows "\<exists>sched hs st'. BenchmarkReadRandomRocks L R dir numKeys v G grain bN sched st = Some (Inr (tally hs, st'))"
proof -
  have "ps_rng st1 = ps_rng st" and ro: "opened_ro R \<alpha> (cstr (dir @ ''/rocks'')) (ps_world st) s (ps_world st1)"
    using rocks_dir.wpx_getRocks [OF assms(1,3,2), of dir] assms(9) by (simp_all add: wpx_def)
  obtain d db wo where "rocks_reads R \<alpha> bops (ps_world st1) s d db (def_readoptions R) wo numKeys n"
    by (rule rocks_dir.opened_ro_reads [OF assms(1) ro assms(5,6)])
  from rocks_reads.reads_return [OF this refl refl assms(8), of G bN v]
  show ?thesis using read_random_run [OF assms] by blast
qed

section \<open>Properties\<close>



text \<open>A state of the reference engine with a directory to read, and that opening it succeeds.\<close>

definition state_ro ::
  "((bytes \<times> bytes option) list, table_options, engine_state, kvlist) pstate" where
  "state_ro = \<lparr>ps_world = world_init\<lparr>eng := engine_init\<lparr>e_dirs := [(''/tmp/rocks'', [(key_string 4 0, ''vvvv'')])]\<rparr>\<rparr>,
     ps_x = [], ps_rng = rng_one\<rparr>"

lemma state_ro_facts: "c_ok (ps_world state_ro)" "a_it (ref_abs (eng (ps_world state_ro))) = Map.empty"
  by (simp_all add: state_ro_def c_ok_def world_init_def engine_init_def)

lemma getRocks_ref: "\<exists>s st1. getRocks ref_libs ref_rocksdb ''/tmp'' state_ro = Inr (s, st1)"
proof -
  have "wp (NewReadOnlyStore ref_rocksdb ''/tmp/rocks'') (\<lambda>x _. snd x = None) (ps_world state_ro)"
    by (rule wp_mono [OF wp_NewReadOnlyStore [OF state_ro_facts(1)]])
      (auto simp: opened_def ref_rocksdb_def ref_open_ro_def state_ro_def world_init_def engine_init_def
        ok_status_def Let_def cstr_def split: if_splits)
  then have "wp (getRocks ref_libs ref_rocksdb ''/tmp'') (\<lambda>_ _. True) state_ro"
    by (simp add: getRocks_def split_def) (erule wp_mono, simp add: check_def ref_libs_def)
  then show ?thesis by (auto elim: wpE)
qed





text \<open>Reference readers over a list of pairs, on which every benchmark runs to its end.\<close>

definition ref_find :: "bytes \<Rightarrow> kvlist \<Rightarrow> bytes + bytes" where
  "ref_find k x = (case map_of x k of None \<Rightarrow> Inl ''not found'' | Some v \<Rightarrow> Inr v)"

definition ref_readers :: "(kvlist, bytes, kvlist, kvlist, kvlist) readers" where
  "ref_readers = \<lparr>
     y_AssertTruef = (\<lambda>b. if b then None else Some (Fatal ''Assertion failed'')),
     badger_View = (\<lambda>x. (Inr x, x)),
     badger_Get = (\<lambda>t k x. (ref_find k t, x)), badger_ValueCopy = (\<lambda>v x. (Inr v, x)),
     badger_EndView = (\<lambda>t x. (None, x)), badger_ErrKeyNotFound = ''not found'',
     leveldb_Get = (\<lambda>k x. (ref_find k x, x)), leveldb_ErrNotFound = ''not found'',
     bolt_View = (\<lambda>x. (Inr x, x)), bolt_ViewBucket = (\<lambda>t n. Some 1),
     bolt_Get = (\<lambda>t b k. map_of t k), bolt_EndView = (\<lambda>t x. (None, x)),
     lmdb_SetMaxReaders = (\<lambda>n x. (None, x)),
     lmdb_View = (\<lambda>x. (Inr x, x)), lmdb_OpenDBI = (\<lambda>t n fl. Inr 1), lmdb_SetRawRead = (\<lambda>b t. t), lmdb_Get = (\<lambda>t d k. ref_find k t),
     lmdb_IsNotFound = (\<lambda>e. e = ''not found''), lmdb_EndView = (\<lambda>t x. (None, x))\<rparr>"

lemma newKey_one: "newKey (1 / 1000000) 4 g = Inr (key_string 4 0, g\<lparr>rg_pos := Suc (rg_pos g)\<rparr>)"
  using one_key by (simp add: newKey_def rand_Int_def Int63_def bnd_def go_rem_def)

lemmas bench_run_defs =
  bench_session_def runRandomReadBenchmark_def start_readers_def reader_step_def pb_Next_def
  all_done_def Update_def Reset_def no_hits_def read_body_def newKey_one on_rng_def on_x_def bnd_def check_def
  ref_libs_def ref_readers_def ref_find_def assert_f_def begin_view_def state_ro_def Let_def


end
