(* ===== verification/IterBench.thy ===== *)
theory IterBench
  imports ReadBench
begin

text \<open>
  The iteration benchmark of \<^verbatim>\<open>src/bench_test.go\<close> on RocksDB: \<open>b.N\<close> passes over the store, each
  with a new iterator, copying every key and value into two reused buffers, printing a mark now
  and then, and ending after two million items. That limit is also the number of rounds the
  loop of a pass is given.
\<close>

section \<open>The benchmark\<close>

definition Mi :: nat where
  "Mi = 1000000"

text \<open>\<open>print\<close>: what is printed after the given number of items.\<close>

definition print_mark :: "int \<Rightarrow> string" where
  "print_mark count = (if count mod 100000 = 0 then ''.''
     else if count mod int Mi = 0 then ''-'' else [])"

text \<open>
  The variables of a pass: the two buffers, the count and what has been printed. The end of the
  loop's body: \<open>count++; print(count); if count >= limit { break }\<close>.
\<close>

type_synonym pass_vars = "gslice \<times> gslice \<times> int \<times> string"

definition count_item :: "nat \<Rightarrow> gslice \<Rightarrow> gslice \<Rightarrow> int \<Rightarrow> string \<Rightarrow> bool \<times> pass_vars" where
  "count_item limit k v count out = (let count' = go_int (count + 1) in
     (int limit \<le> count', (k, v, count', out @ print_mark count')))"

definition iterate_body ::
  "('b, 'f, 'e) rocksdb \<Rightarrow> Iterator \<Rightarrow> nat \<Rightarrow> pass_vars \<Rightarrow> ('b, 'f, 'e, bool \<times> pass_vars) rio" where
  "iterate_body R itr limit = (\<lambda>(k, v, count, out).
     bnd (Iterator_Key R itr) (\<lambda>key. bnd (slice_bytes key) (\<lambda>kb. bnd (safecopy k kb) (\<lambda>k'.
     bnd (Iterator_Value R itr) (\<lambda>val. bnd (slice_bytes val) (\<lambda>vb. bnd (safecopy v vb) (\<lambda>v'.
     ret (count_item limit k' v' count out))))))))"

definition iterate_pass ::
  "('b, 'f, 'e) rocksdb \<Rightarrow> Store \<Rightarrow> nat \<Rightarrow> gslice \<Rightarrow> gslice \<Rightarrow> string \<Rightarrow> ('b, 'f, 'e, pass_vars) rio" where
  "iterate_pass R rdb limit k v out =
     bnd (Store_NewIterator R rdb) (\<lambda>itr.
     andthen (SeekToFirst R itr)
     (iter_for R itr (Iterator_Valid R itr) (iterate_body R itr limit) limit (k, v, 0, out)))"

text \<open>The \<open>b.N\<close> passes keep the buffers; the result has the counts that are logged and what is printed.\<close>

fun run_passes ::
  "(gslice \<Rightarrow> gslice \<Rightarrow> string \<Rightarrow> ('s, pass_vars) io) \<Rightarrow> nat \<Rightarrow> gslice \<Rightarrow> gslice \<Rightarrow> string \<Rightarrow>
     ('s, int list \<times> gslice \<times> gslice \<times> string) io" where
  "run_passes pass 0 k v out = ret ([], k, v, out)"
| "run_passes pass (Suc j) k v out =
     bnd (pass k v out) (\<lambda>(k', v', count, out').
     bnd (run_passes pass j k' v' out') (\<lambda>(counts, r). ret (count # counts, r)))"

text \<open>The benchmark: the buffers, the passes, and the deferred close.\<close>

definition BenchmarkIterateRocks ::
  "('bt, 'lb, 'tx, 'lt, 'e, 'x) libs \<Rightarrow> ('b, 'f, 'e) rocksdb \<Rightarrow> bytes \<Rightarrow> nat \<Rightarrow>
     (('b, 'f, 'e, 'x) pstate, int list \<times> string) io" where
  "BenchmarkIterateRocks L R dir bN =
     bnd (getRocks L R dir) (\<lambda>rdb.
     bnd (on_world (run_passes (iterate_pass R rdb (2 * Mi)) bN (gs_make 1024) (gs_make Mi) [])) (\<lambda>(counts, k, v, out).
     andthen (on_world (Store_Close R rdb)) (ret (counts, out))))"

section \<open>The marks\<close>

text \<open>
  After \<open>n\<close> items there is a dot for every hundred thousand of them. The other mark is never
  printed: a multiple of a million is a multiple of a hundred thousand.
\<close>

definition dots :: "int \<Rightarrow> string" where
  "dots n = replicate (nat n div 100000) CHR ''.''"

lemma print_mark_dot: "print_mark count = (if count mod 100000 = 0 then ''.'' else [])"
  using mod_mod_cancel [of 100000 1000000 count] by (auto simp: print_mark_def Mi_def)

lemma dots_Suc: "dots (int (Suc n)) = dots (int n) @ print_mark (int (Suc n))"
proof -
  have "Suc n div m = (if Suc n mod m = 0 then Suc (n div m) else n div m)" for m :: nat
    by (rule div_Suc)
  note div = this [of 100000]
  have mod: "int (Suc n) mod 100000 = int (Suc n mod 100000)" by (metis of_nat_mod of_nat_numeral)
  show ?thesis
    unfolding dots_def print_mark_dot nat_int mod div by (simp add: replicate_append_same)
qed

section \<open>One pass\<close>

text \<open>The variables after \<open>n\<close> of the items \<open>xs\<close>.\<close>

definition seen :: "(bytes \<times> bytes) list \<Rightarrow> gslice \<Rightarrow> gslice \<Rightarrow> string \<Rightarrow> nat \<Rightarrow> pass_vars \<Rightarrow> bool" where
  "seen xs k v out n = (\<lambda>(k', v', count, out'). gs_ok k' \<and> gs_ok v' \<and> count = int n \<and> out' = out @ dots (int n) \<and>
     (if n = 0 then k' = k \<and> v' = v else (gs_bytes k', gs_bytes v') = xs ! (n - 1)))"

lemma seen_start: "gs_ok k \<Longrightarrow> gs_ok v \<Longrightarrow> seen xs k v out 0 (k, v, 0, out)"
  by (simp add: seen_def dots_def)

lemma seen_next:
  assumes "seen xs k v out n (k1, v1, count, out1)" "gs_ok k'" "gs_ok v'" "(gs_bytes k', gs_bytes v') = xs ! n"
    and "n < limit" "limit < 2 ^ 63"
  shows "count_item limit k' v' count out1 = (limit \<le> Suc n, (k', v', int (Suc n), out @ dots (int (Suc n))))"
    and "seen xs k v out (Suc n) (k', v', int (Suc n), out @ dots (int (Suc n)))"
proof -
  have "int n < int limit" "int limit < 2 ^ 63" using assms(5,6) by simp_all
  then have "int n + 1 < 2 ^ 63" by linarith
  then have "go_int (int n + 1) = int n + 1" by (intro go_int_small) auto
  then show "count_item limit k' v' count out1 = (limit \<le> Suc n, (k', v', int (Suc n), out @ dots (int (Suc n))))"
    using assms(1) dots_Suc [of n] by (auto simp: seen_def count_item_def Let_def add.commute [of 1])
  show "seen xs k v out (Suc n) (k', v', int (Suc n), out @ dots (int (Suc n)))"
    using assms(2-4) by (simp add: seen_def)
qed

lemma wp_safecopy:
  "gs_ok s \<Longrightarrow> (\<And>s'. gs_ok s' \<Longrightarrow> gs_bytes s' = src \<Longrightarrow> Q s' w) \<Longrightarrow> wp (safecopy s src) Q w"
  by (rule wp_mono [OF safe_buffer.fill_law]) auto

text \<open>A pass over the contents \<open>m\<close>: the count, the marks, and the last pair in the buffers.\<close>

definition passed :: "contents \<Rightarrow> nat \<Rightarrow> gslice \<Rightarrow> gslice \<Rightarrow> string \<Rightarrow> bool \<Rightarrow> pass_vars \<Rightarrow> bool" where
  "passed m limit k v out failed = (\<lambda>(k', v', count, out'). gs_ok k' \<and> gs_ok v' \<and>
     0 \<le> count \<and> count \<le> int (min limit (card (dom m))) \<and>
     (\<not> failed \<longrightarrow> count = int (min limit (card (dom m)))) \<and> out' = out @ dots count \<and>
     (if count = 0 then k' = k \<and> v' = v
      else gs_bytes k' = sorted_list_of_set (dom m) ! nat (count - 1) \<and> m (gs_bytes k') = Some (gs_bytes v')))"

lemma key_sorted_keys:
  assumes "key_sorted xs" "map_of xs = m"
  shows "map fst xs = sorted_list_of_set (dom m)"
proof -
  have "sorted (map fst xs)" "distinct (map fst xs)" using assms(1) by (simp_all add: key_sorted_def strict_sorted_iff)
  moreover have "dom m = set (map fst xs)" using assms(2) dom_map_of_conv_image_fst by force
  ultimately show ?thesis by (metis sorted_list_of_set.idem_if_sorted_distinct)
qed

lemma seen_passed:
  assumes "seen xs k v out n r" "n \<le> min limit (length xs)" "\<not> failed \<longrightarrow> n = min limit (length xs)"
    and "key_sorted xs" "map_of xs = m"
  shows "passed m limit k v out failed r"
proof -
  obtain k' v' count out' where r: "r = (k', v', count, out')" by (cases r)
  note card = key_sorted_card [OF assms(4,5)] and keys = key_sorted_keys [OF assms(4,5)]
  have "gs_bytes k' = sorted_list_of_set (dom m) ! (n - 1) \<and> m (gs_bytes k') = Some (gs_bytes v')" if "0 < n"
  proof -
    have at: "n - 1 < length xs" "(gs_bytes k', gs_bytes v') = xs ! (n - 1)"
      using that assms(1,2) by (auto simp: seen_def r)
    then have "gs_bytes k' = map fst xs ! (n - 1)" by (metis fst_conv nth_map)
    moreover have "m (gs_bytes k') = Some (gs_bytes v')"
      using key_sorted_lookup [OF assms(4)] assms(5) at by (metis fst_conv snd_conv nth_mem)
    ultimately show ?thesis by (simp add: keys)
  qed
  then show ?thesis using assms(1-3) card by (auto simp: passed_def seen_def r nat_diff_distrib)
qed

text \<open>After all passes: their counts, the iterators that are still open, and the buffers.\<close>

definition all_passed ::
  "contents \<Rightarrow> nat \<Rightarrow> nat \<Rightarrow> string \<Rightarrow> int list \<times> gslice \<times> gslice \<times> string \<Rightarrow> astate \<Rightarrow> astate \<Rightarrow> bool" where
  "all_passed m limit N out r a a' \<longleftrightarrow> (case r of (counts, k', v', out') \<Rightarrow>
     length counts = N \<and> (\<forall>c \<in> set counts. 0 \<le> c \<and> c \<le> int (min limit (card (dom m)))) \<and>
     out' = out @ concat (map dots counts) \<and> a_it a \<subseteq>\<^sub>m a_it a' \<and>
     (\<exists>is. length is = N \<and> distinct is \<and> (\<forall>i \<in> set is. a_it a i = None \<and> a_it a' i \<noteq> None)) \<and>
     ((\<forall>i x. a_it a i = None \<longrightarrow> a_it a' i = Some x \<longrightarrow> \<not> ai_failed x) \<longrightarrow>
        counts = replicate N (int (min limit (card (dom m)))) \<and>
        (0 < N \<longrightarrow> 0 < min limit (card (dom m)) \<longrightarrow>
           gs_bytes k' = sorted_list_of_set (dom m) ! (min limit (card (dom m)) - 1) \<and>
           m (gs_bytes k') = Some (gs_bytes v'))))"

lemma all_passed_step:
  assumes "passed m limit k v out (ai_failed x) (k1, v1, c, out1)" "a_it a i = None"
    and "all_passed m limit N out1 r (a_put i x a) a'" "N = 0 \<Longrightarrow> r = ([], k1, v1, out1)"
  shows "all_passed m limit (Suc N) out (c # fst r, snd r) a a'"
proof -
  obtain counts k' v' out' where r: "r = (counts, k', v', out')" by (cases r)
  have ai: "a_it (a_put i x a) = (a_it a)(i \<mapsto> x)" by (simp add: a_put_def)
  obtain "is" where "is": "length is = N" "distinct is"
      "\<forall>j \<in> set is. ((a_it a)(i \<mapsto> x)) j = None \<and> a_it a' j \<noteq> None"
    using assms(3) by (auto simp: all_passed_def r ai)
  have le: "(a_it a)(i \<mapsto> x) \<subseteq>\<^sub>m a_it a'" using assms(3) by (auto simp: all_passed_def r ai)
  then have ix: "a_it a' i = Some x" by (auto simp: map_le_def dest!: bspec [of _ _ i])
  have "a_it a \<subseteq>\<^sub>m a_it a'" using le assms(2) by (auto simp: map_le_def dest!: bspec split: if_splits)
  moreover have "\<exists>is. length is = Suc N \<and> distinct is \<and> (\<forall>i \<in> set is. a_it a i = None \<and> a_it a' i \<noteq> None)"
    using "is" ix assms(2) by (intro exI [of _ "i # is"]) (auto split: if_splits)
  moreover have "\<not> ai_failed x \<and> (\<forall>j y. ((a_it a)(i \<mapsto> x)) j = None \<longrightarrow> a_it a' j = Some y \<longrightarrow> \<not> ai_failed y)"
    if "\<forall>i x. a_it a i = None \<longrightarrow> a_it a' i = Some x \<longrightarrow> \<not> ai_failed x"
    using that ix assms(2) by auto
  ultimately show ?thesis
    using assms(1,3,4) unfolding all_passed_def passed_def r ai prod.case
    by (cases "N = 0") (auto simp: nat_diff_distrib split: if_splits)
qed

context rocks_iter
begin

text \<open>The item an iterator is at, copied into the buffers and counted.\<close>

lemma wp_iterate_body:
  assumes "c_ok w" "live_it w it i" "a_it (\<alpha> (eng w)) i = Some x" "ai_seq x = xs" "ai_pos x < length xs"
    and "\<forall>p \<in> set xs. length (fst p) < 2 ^ 63 \<and> length (snd p) < 2 ^ 63" "gs_ok k" "gs_ok v"
  shows "wp (iterate_body R it limit (k, v, count, out)) (\<lambda>r w'. mem_same w w' \<and> \<alpha> (eng w') = \<alpha> (eng w) \<and>
    (\<exists>k' v'. gs_ok k' \<and> gs_ok v' \<and> gs_bytes k' = fst (xs ! ai_pos x) \<and> gs_bytes v' = snd (xs ! ai_pos x) \<and>
      r = count_item limit k' v' count out)) w"
proof -
  have pos: "ai_pos x < length (ai_seq x)" using assms(4,5) by simp
  obtain kb e1 where kb: "it_key R i (eng w) = (kb, e1)" by fastforce
  obtain vb e2 where vb: "it_value R i e1 = (vb, e2)" by fastforce
  note key = key_law [OF kb assms(3) pos]
  have a1: "a_it (\<alpha> e1) i = Some x" using key assms(3) by simp
  note val = value_law [OF vb a1 pos]
  have len: "length kb < 2 ^ 63" "length vb < 2 ^ 63" using key val assms(4-6) by auto
  have same: "mem_same w (w\<lparr>eng := e2\<rparr>)" using assms(1) by (auto intro!: mem_same_frame)
  show ?thesis
    unfolding iterate_body_def prod.case
    using assms(1,2,4) len key val same
    by (auto simp: slice_bytes_def wp_Iterator_Key [OF assms(1,2)] kb
        wp_Iterator_Value [of "w\<lparr>eng := e1\<rparr>" it i, simplified] vb wp_h_bytes_borrowed
        intro!: wp_safecopy assms(7,8)) blast
qed

text \<open>The loop of a pass: how many items it has seen when it ends.\<close>

lemma wp_iterate_loop:
  assumes "c_ok w" "live_it w it i" "a_it (\<alpha> (eng w)) i = Some x" "iter_at xs 0 x" "gs_ok k" "gs_ok v"
    and "\<forall>p \<in> set xs. length (fst p) < 2 ^ 63 \<and> length (snd p) < 2 ^ 63" "0 < limit" "limit < 2 ^ 63"
  shows "wp (iter_for R it (Iterator_Valid R it) (iterate_body R it limit) limit (k, v, 0, out)) (\<lambda>r w'. mem_same w w' \<and>
    (\<exists>x' n. \<alpha> (eng w') = a_put i x' (\<alpha> (eng w)) \<and> seen xs k v out n r \<and> n \<le> min limit (length xs) \<and>
      (\<not> ai_failed x' \<longrightarrow> n = min limit (length xs)))) w"
proof -
  let ?I = "\<lambda>j a. seen xs k v out j a \<and> j \<le> length xs \<and> j < limit"
    and ?S = "\<lambda>j a. seen xs k v out (Suc j) a \<and> Suc j = limit"
  have "wp (iter_for R it (Iterator_Valid R it) (iterate_body R it limit) limit (k, v, 0, out)) (\<lambda>r w'. mem_same w w' \<and>
      (\<exists>x'. \<alpha> (eng w') = a_put i x' (\<alpha> (eng w)) \<and> ai_seq x' = xs \<and> iter_end xs (\<lambda>_. True) ?I ?S x' r)) w"
  proof (rule wp_iter_for [OF _ _ assms(1-4)])
    show "wp (Iterator_Valid R it) (\<lambda>b w'. mem_same w w' \<and> \<alpha> (eng w') = \<alpha> (eng w) \<and>
        b = (ai_pos x < length xs \<and> True)) w"
      if "c_ok w" "live_it w it i" "a_it (\<alpha> (eng w)) i = Some x" "ai_seq x = xs" for w x
      using wp_valid [OF that(1-3)] that(4) by simp
    show "wp (iterate_body R it limit a) (\<lambda>r w'. mem_same w w' \<and> \<alpha> (eng w') = \<alpha> (eng w) \<and>
        (if fst r then ?S (ai_pos x) (snd r) else ?I (Suc (ai_pos x)) (snd r))) w"
      if "c_ok w" "live_it w it i" "a_it (\<alpha> (eng w)) i = Some x" "ai_seq x = xs" "ai_pos x < length xs" "?I (ai_pos x) a"
      for w x a
    proof -
      obtain k1 v1 count out1 where a: "a = (k1, v1, count, out1)" by (cases a)
      have ok: "gs_ok k1" "gs_ok v1" "ai_pos x < limit" "seen xs k v out (ai_pos x) (k1, v1, count, out1)"
        using that(6) by (simp_all add: a seen_def)
      show ?thesis
        unfolding a
        by (rule wp_mono [OF wp_iterate_body [OF that(1-5) assms(7) ok(1,2)]])
          (use seen_next [OF ok(4) _ _ _ ok(3) assms(9)] ok(3) that(5) in \<open>auto simp del: of_nat_Suc\<close>)
    qed
  qed (use assms(5,6,8) seen_start in auto)
  then show ?thesis
    by (rule wp_mono) (fastforce simp: iter_end_def split: if_splits)
qed

text \<open>A pass opens an iterator and leaves it open.\<close>

lemma wp_iterate_pass:
  assumes "c_ok w" "store_live w s d ro wo" "a_db (\<alpha> (eng w)) d = Some db" "gs_ok k" "gs_ok v"
    and "0 < limit" "limit < 2 ^ 63"
    and "\<forall>k v. ad_kv db k = Some v \<longrightarrow> length k < 2 ^ 63 \<and> length v < 2 ^ 63"
  shows "wp (iterate_pass R s limit k v out) (\<lambda>r w'. c_ok w' \<and> heap_keeps w w' \<and>
    (\<exists>i x. a_it (\<alpha> (eng w)) i = None \<and> \<alpha> (eng w') = a_put i x (\<alpha> (eng w)) \<and>
      passed (ad_kv db) limit k v out (ai_failed x) r)) w"
  unfolding iterate_pass_def
proof (rule wp_scan_first [OF assms(1-3)])
  fix it i xs x and w1 :: "('a, 'b, 'c) world"
  assume w1: "c_ok w1" "heap_keeps w w1" "live_it w1 it i" "a_it (\<alpha> (eng w)) i = None"
      "\<alpha> (eng w1) = a_put i x (\<alpha> (eng w))" "iter_at xs 0 x"
    and xs: "key_sorted xs" "map_of xs = ad_kv db"
  have len: "\<forall>p \<in> set xs. length (fst p) < 2 ^ 63 \<and> length (snd p) < 2 ^ 63"
    using key_sorted_lookup [OF xs(1)] xs(2) assms(8) by metis
  have x: "a_it (\<alpha> (eng w1)) i = Some x" using w1(5) by simp
  show "wp (iter_for R it (Iterator_Valid R it) (iterate_body R it limit) limit (k, v, 0, out))
    (\<lambda>r w'. c_ok w' \<and> heap_keeps w w' \<and> (\<exists>i x. a_it (\<alpha> (eng w)) i = None \<and>
      \<alpha> (eng w') = a_put i x (\<alpha> (eng w)) \<and> passed (ad_kv db) limit k v out (ai_failed x) r)) w1"
  proof (rule wp_mono [OF wp_iterate_loop [OF w1(1,3) x w1(6) assms(4,5) len assms(6,7)]], elim conjE exE)
    fix r w' x' n
    assume r: "mem_same w1 w'" "\<alpha> (eng w') = a_put i x' (\<alpha> (eng w1))" "seen xs k v out n r"
      "n \<le> min limit (length xs)" "\<not> ai_failed x' \<longrightarrow> n = min limit (length xs)"
    have "c_ok w'" "heap_keeps w w'" using r(1) w1(2) by (auto simp: mem_same_def intro: heap_keeps_same)
    moreover have "\<alpha> (eng w') = a_put i x' (\<alpha> (eng w))" using r(2) w1(5) by simp
    ultimately show "c_ok w' \<and> heap_keeps w w' \<and> (\<exists>i x. a_it (\<alpha> (eng w)) i = None \<and>
        \<alpha> (eng w') = a_put i x (\<alpha> (eng w)) \<and> passed (ad_kv db) limit k v out (ai_failed x) r)"
      using seen_passed [OF r(3-5) xs] w1(4) by blast
  qed
qed

lemma wp_iterate_passes:
  assumes "c_ok w" "store_live w s d ro wo" "a_db (\<alpha> (eng w)) d = Some db" "gs_ok k" "gs_ok v"
    and "0 < limit" "limit < 2 ^ 63"
    and "\<forall>k v. ad_kv db k = Some v \<longrightarrow> length k < 2 ^ 63 \<and> length v < 2 ^ 63"
  shows "wp (run_passes (iterate_pass R s limit) N k v out) (\<lambda>r w'. c_ok w' \<and> heap_keeps w w' \<and> (N = 0 \<longrightarrow> r = ([], k, v, out)) \<and>
    all_passed (ad_kv db) limit N out r (\<alpha> (eng w)) (\<alpha> (eng w'))) w"
  using assms(1-5)
proof (induction N arbitrary: w k v out)
  case 0
  then show ?case by (simp add: all_passed_def)
next
  case (Suc N)
  note pass = wp_iterate_pass [OF Suc.prems assms(6-8)]
  have rest: "wp (run_passes (iterate_pass R s limit) N k1 v1 out1) (\<lambda>r w'. c_ok w' \<and> heap_keeps w w' \<and>
      all_passed (ad_kv db) limit (Suc N) out (c # fst r, snd r) (\<alpha> (eng w)) (\<alpha> (eng w'))) w1"
    if w1: "c_ok w1" "heap_keeps w w1" "a_it (\<alpha> (eng w)) i = None" "\<alpha> (eng w1) = a_put i x (\<alpha> (eng w))"
      "passed (ad_kv db) limit k v out (ai_failed x) (k1, v1, c, out1)" for k1 v1 c out1 w1 i x
  proof -
    have ok: "gs_ok k1" "gs_ok v1" using w1(5) by (simp_all add: passed_def)
    have db: "a_db (\<alpha> (eng w1)) d = Some db" using Suc.prems(3) w1(4) by (simp add: a_put_def)
    show ?thesis
      by (rule wp_mono [OF Suc.IH [OF w1(1) store_live_keeps [OF Suc.prems(2) w1(2)] db ok]])
        (auto simp only: w1(4) intro: heap_keeps_trans [OF w1(2)] all_passed_step [OF w1(5,3)])
  qed
  show ?case
    unfolding run_passes.simps wp_bnd split_def wp_ret
    by (rule wp_mono [OF pass]) (auto intro!: wp_mono [OF rest])
qed

end

section \<open>Properties\<close>



end
