(* ===== verification/CursorBench.thy ===== *)
theory CursorBench
  imports IterBench
begin

text \<open>
  The iteration benchmarks of \<^verbatim>\<open>src/bench_test.go\<close> on bolt, lmdb and badger: \<open>b.N\<close> passes over the
  store, each in a read transaction of its own. The cursors of the three stores are parameters.
  Their loops differ in how they fetch the next item and share the rest of the body, so they
  are one loop, \<open>cursor_for\<close>, over a function that fetches.
\<close>

section \<open>The loop\<close>

text \<open>
  A fetch ends with an error, with nothing, or with an item and the cursor moved on. The limit
  of two million items is the number of rounds the loop is given.
\<close>

fun cursor_for ::
  "('c \<Rightarrow> (bytes + 'i option) \<times> 'c) \<Rightarrow> ('i \<Rightarrow> 'a \<Rightarrow> ('s, bool \<times> 'a) io) \<Rightarrow> nat \<Rightarrow> 'c \<Rightarrow> 'a \<Rightarrow>
     ('s, bytes option \<times> 'a) io" where
  "cursor_for fetch body 0 c a = fail OutOfFuel"
| "cursor_for fetch body (Suc n) c a = (case fetch c of
     (Inl e, c') \<Rightarrow> ret (Some e, a)
   | (Inr None, c') \<Rightarrow> ret (None, a)
   | (Inr (Some i), c') \<Rightarrow> bnd (body i a) (\<lambda>(stop, a').
       if stop then ret (None, a') else cursor_for fetch body n c' a'))"

record iter_options =
  io_PrefetchSize :: int
  io_PrefetchValues :: bool

record ('tv, 'bc, 'lv, 'lc, 'rt, 'bi, 'it, 'x) cursors =
  bolt_Cursor :: "'tv \<Rightarrow> nat \<Rightarrow> 'bc"
  bolt_First :: "'bc \<Rightarrow> (bytes \<times> bytes) option \<times> 'bc"
  bolt_Next :: "'bc \<Rightarrow> (bytes \<times> bytes) option \<times> 'bc"
  lmdb_OpenCursor :: "'lv \<Rightarrow> nat \<Rightarrow> bytes + 'lc"
  lmdb_CursorNext :: "'lc \<Rightarrow> (bytes + bytes \<times> bytes) \<times> 'lc"
  badger_ReadTxn :: "'x \<Rightarrow> 'rt \<times> 'x"
  badger_NewIterator :: "'rt \<Rightarrow> iter_options \<Rightarrow> 'bi"
  badger_Rewind :: "'bi \<Rightarrow> 'bi"
  badger_Valid :: "'bi \<Rightarrow> bool"
  badger_Item :: "'bi \<Rightarrow> 'it"
  badger_Next :: "'bi \<Rightarrow> 'bi"
  badger_Key :: "'it \<Rightarrow> bytes"
  badger_Value :: "'it \<Rightarrow> bytes + bytes"

text \<open>Copy, count, print, and break at the limit.\<close>

definition copy_item :: "nat \<Rightarrow> bytes \<Rightarrow> bytes \<Rightarrow> pass_vars \<Rightarrow> ('s, bool \<times> pass_vars) io" where
  "copy_item limit k1 v1 = (\<lambda>(k, v, count, out).
     bnd (safecopy k k1) (\<lambda>k'. bnd (safecopy v v1) (\<lambda>v'. ret (count_item limit k' v' count out))))"

text \<open>The body bolt and lmdb share: the size of the value is asserted, then the pair is copied.\<close>

definition pair_body ::
  "('bv, 'bi0, 'tv, 'lv, 'x) readers \<Rightarrow> int \<Rightarrow> nat \<Rightarrow> bytes \<times> bytes \<Rightarrow> pass_vars \<Rightarrow> ('s, bool \<times> pass_vars) io" where
  "pair_body D valueSize limit = (\<lambda>(k1, v1) a.
     andthen (assert_f D (int (length v1) = valueSize)) (copy_item limit k1 v1 a))"

section \<open>Bolt\<close>

text \<open>\<open>Inl\<close> is a cursor before \<open>First\<close>. A nil key is no item.\<close>

definition fetch_bolt ::
  "('tv, 'bc, 'lv, 'lc, 'rt, 'bi, 'it, 'x) cursors \<Rightarrow> 'bc + 'bc \<Rightarrow> (bytes + (bytes \<times> bytes) option) \<times> ('bc + 'bc)" where
  "fetch_bolt C c = (case (case c of Inl cur \<Rightarrow> bolt_First C cur | Inr cur \<Rightarrow> bolt_Next C cur) of
     (kv, cur') \<Rightarrow> (Inr kv, Inr cur'))"

definition bolt_pass ::
  "('bt, 'lb, 'tx, 'lt, 'e, 'x) libs \<Rightarrow> ('bv, 'bi0, 'tv, 'lv, 'x) readers \<Rightarrow>
     ('tv, 'bc, 'lv, 'lc, 'rt, 'bi, 'it, 'x) cursors \<Rightarrow> int \<Rightarrow> nat \<Rightarrow> gslice \<Rightarrow> gslice \<Rightarrow> string \<Rightarrow>
     (('b, 'f, 'e, 'x) pstate, pass_vars) io" where
  "bolt_pass L D C valueSize limit k v out =
     bnd (enter_bolt L D) (\<lambda>(txn, boltBkt).
     bnd (cursor_for (fetch_bolt C) (pair_body D valueSize limit) limit (Inl (bolt_Cursor C txn boltBkt)) (k, v, 0, out))
       (\<lambda>(_, r).
     bnd (on_x (bolt_EndView D txn)) (\<lambda>err. andthen (check L err) (ret r))))"

definition BenchmarkIterateBolt ::
  "('bt, 'lb, 'tx, 'lt, 'e, 'x) libs \<Rightarrow> ('bv, 'bi0, 'tv, 'lv, 'x) readers \<Rightarrow>
     ('tv, 'bc, 'lv, 'lc, 'rt, 'bi, 'it, 'x) cursors \<Rightarrow> bytes \<Rightarrow> int \<Rightarrow> nat \<Rightarrow>
     (('b, 'f, 'e, 'x) pstate, int list \<times> string) io" where
  "BenchmarkIterateBolt L D C dir valueSize bN =
     andthen (getBoltDB L dir)
     (bnd (run_passes (bolt_pass L D C valueSize (2 * Mi)) bN (gs_make 1024) (gs_make Mi) []) (\<lambda>(counts, k, v, out).
     andthen (on_x (bolt_Close L)) (ret (counts, out))))"

section \<open>Lmdb\<close>

definition fetch_lmdb ::
  "('bv, 'bi0, 'tv, 'lv, 'x) readers \<Rightarrow> ('tv, 'bc, 'lv, 'lc, 'rt, 'bi, 'it, 'x) cursors \<Rightarrow> 'lc \<Rightarrow>
     (bytes + (bytes \<times> bytes) option) \<times> 'lc" where
  "fetch_lmdb D C cur = (case lmdb_CursorNext C cur of
     (Inl err, cur') \<Rightarrow> (if lmdb_IsNotFound D err then Inr None else Inl err, cur')
   | (Inr kv, cur') \<Rightarrow> (Inr (Some kv), cur'))"

text \<open>An error of the closure is what the view returns, and is checked.\<close>

definition lmdb_pass ::
  "('bt, 'lb, 'tx, 'lt, 'e, 'x) libs \<Rightarrow> ('bv, 'bi0, 'tv, 'lv, 'x) readers \<Rightarrow>
     ('tv, 'bc, 'lv, 'lc, 'rt, 'bi, 'it, 'x) cursors \<Rightarrow> nat \<Rightarrow> int \<Rightarrow> nat \<Rightarrow> gslice \<Rightarrow> gslice \<Rightarrow> string \<Rightarrow>
     (('b, 'f, 'e, 'x) pstate, pass_vars) io" where
  "lmdb_pass L D C dbi valueSize limit k v out =
     bnd (enter_lmdb L D) (\<lambda>txn.
     bnd (case lmdb_OpenCursor C txn dbi of
         Inl err \<Rightarrow> ret (Some err, (k, v, 0, out))
       | Inr cur \<Rightarrow> cursor_for (fetch_lmdb D C) (pair_body D valueSize limit) limit cur (k, v, 0, out)) (\<lambda>(err, r).
     bnd (on_x (lmdb_EndView D txn)) (\<lambda>verr.
     andthen (check L (case err of Some e \<Rightarrow> Some e | None \<Rightarrow> verr)) (ret r))))"

definition BenchmarkIterateLmdb ::
  "('bt, 'lb, 'tx, 'lt, 'e, 'x) libs \<Rightarrow> ('bv, 'bi0, 'tv, 'lv, 'x) readers \<Rightarrow>
     ('tv, 'bc, 'lv, 'lc, 'rt, 'bi, 'it, 'x) cursors \<Rightarrow> bytes \<Rightarrow> int \<Rightarrow> nat \<Rightarrow>
     (('b, 'f, 'e, 'x) pstate, int list \<times> string) io" where
  "BenchmarkIterateLmdb L D C dir valueSize bN =
     bnd (andthen (getLmdb L D dir) (lmdb_handle L D)) (\<lambda>dbi.
     bnd (run_passes (lmdb_pass L D C dbi valueSize (2 * Mi)) bN (gs_make 1024) (gs_make Mi) []) (\<lambda>(counts, k, v, out).
     andthen (andthen (on_x (lmdb_CloseDBI L dbi)) (on_x (lmdb_Close L))) (ret (counts, out))))"

section \<open>Badger\<close>

text \<open>\<open>Next\<close> is called with the fetch of the item before it; after a break nothing reads the iterator.\<close>

definition fetch_badger ::
  "('tv, 'bc, 'lv, 'lc, 'rt, 'bi, 'it, 'x) cursors \<Rightarrow> 'bi \<Rightarrow> (bytes + 'it option) \<times> 'bi" where
  "fetch_badger C itr = (if badger_Valid C itr then (Inr (Some (badger_Item C itr)), badger_Next C itr)
     else (Inr None, itr))"

definition keys_body ::
  "('tv, 'bc, 'lv, 'lc, 'rt, 'bi, 'it, 'x) cursors \<Rightarrow> nat \<Rightarrow> 'it \<Rightarrow> pass_vars \<Rightarrow> ('s, bool \<times> pass_vars) io" where
  "keys_body C limit item = (\<lambda>(k, v, count, out).
     bnd (safecopy k (badger_Key C item)) (\<lambda>k'. ret (count_item limit k' v count out)))"

definition values_body ::
  "('bt, 'lb, 'tx, 'lt, 'e, 'x) libs \<Rightarrow> ('bv, 'bi0, 'tv, 'lv, 'x) readers \<Rightarrow>
     ('tv, 'bc, 'lv, 'lc, 'rt, 'bi, 'it, 'x) cursors \<Rightarrow> int \<Rightarrow> nat \<Rightarrow> 'it \<Rightarrow> pass_vars \<Rightarrow> ('s, bool \<times> pass_vars) io" where
  "values_body L D C valueSize limit item a = (case badger_Value C item of
     Inl err \<Rightarrow> andthen (check L (Some err)) (fail (Fatal err))
   | Inr val \<Rightarrow> andthen (assert_f D (int (length val) = valueSize)) (copy_item limit (badger_Key C item) val a))"

definition badger_pass ::
  "('tv, 'bc, 'lv, 'lc, 'rt, 'bi, 'it, 'x) cursors \<Rightarrow> bool \<Rightarrow>
     ('it \<Rightarrow> pass_vars \<Rightarrow> (('b, 'f, 'e, 'x) pstate, bool \<times> pass_vars) io) \<Rightarrow> nat \<Rightarrow> gslice \<Rightarrow> gslice \<Rightarrow> string \<Rightarrow>
     (('b, 'f, 'e, 'x) pstate, pass_vars) io" where
  "badger_pass C prefetch body limit k v out =
     bnd (on_x (badger_ReadTxn C)) (\<lambda>txn.
     bnd (cursor_for (fetch_badger C) body limit
         (badger_Rewind C (badger_NewIterator C txn \<lparr>io_PrefetchSize = 256, io_PrefetchValues = prefetch\<rparr>)) (k, v, 0, out))
       (\<lambda>(_, r). ret r))"

definition BenchmarkIterateBadgerOnlyKeys ::
  "('bt, 'lb, 'tx, 'lt, 'e, 'x) libs \<Rightarrow> ('tv, 'bc, 'lv, 'lc, 'rt, 'bi, 'it, 'x) cursors \<Rightarrow> bytes \<Rightarrow> nat \<Rightarrow>
     (('b, 'f, 'e, 'x) pstate, int list \<times> string) io" where
  "BenchmarkIterateBadgerOnlyKeys L C dir bN =
     andthen (bnd (getBadger L dir) (check L))
     (bnd (run_passes (badger_pass C False (keys_body C (2 * Mi)) (2 * Mi)) bN (gs_make 1024) (gs_make 0) []) (\<lambda>(counts, k, v, out).
     andthen (on_x (badger_Close L)) (ret (counts, out))))"

definition BenchmarkIterateBadgerWithValues ::
  "('bt, 'lb, 'tx, 'lt, 'e, 'x) libs \<Rightarrow> ('bv, 'bi0, 'tv, 'lv, 'x) readers \<Rightarrow>
     ('tv, 'bc, 'lv, 'lc, 'rt, 'bi, 'it, 'x) cursors \<Rightarrow> bytes \<Rightarrow> int \<Rightarrow> nat \<Rightarrow>
     (('b, 'f, 'e, 'x) pstate, int list \<times> string) io" where
  "BenchmarkIterateBadgerWithValues L D C dir valueSize bN =
     andthen (bnd (getBadger L dir) (check L))
     (bnd (run_passes (badger_pass C True (values_body L D C valueSize (2 * Mi)) (2 * Mi)) bN (gs_make 1024) (gs_make Mi) [])
       (\<lambda>(counts, k, v, out).
     andthen (on_x (badger_Close L)) (ret (counts, out))))"

section \<open>Every item is counted\<close>

text \<open>
  How the loop ends: with an error of a fetch, if those are possible, at the end of the items, or
  stopped by its body.
\<close>

definition cursor_end ::
  "'i list \<Rightarrow> bool \<Rightarrow> (nat \<Rightarrow> 'a \<Rightarrow> bool) \<Rightarrow> (nat \<Rightarrow> 'a \<Rightarrow> bool) \<Rightarrow> bytes option \<times> 'a \<Rightarrow> bool" where
  "cursor_end xs fails I S r \<longleftrightarrow> (\<exists>n \<le> length xs.
     I n (snd r) \<and> (if fst r = None then n = length xs else fails) \<or> fst r = None \<and> S n (snd r))"

lemma cursor_end_stop: "n < length xs \<Longrightarrow> S (Suc n) a \<Longrightarrow> cursor_end xs fails I S (None, a)"
  unfolding cursor_end_def by (intro exI [of _ "Suc n"]) simp

text \<open>The contract of a cursor: \<open>rest c\<close> are the items it has still to fetch; \<open>fails\<close> if a fetch can fail.\<close>

locale cursor =
  fixes fetch :: "'c \<Rightarrow> (bytes + 'i option) \<times> 'c" and rest :: "'c \<Rightarrow> 'i list" and fails :: bool
  assumes fetch_error: "fetch c = (Inl e, c') \<Longrightarrow> fails"
    and fetch_none: "fetch c = (Inr None, c') \<Longrightarrow> rest c = []"
    and fetch_some: "fetch c = (Inr (Some i), c') \<Longrightarrow> rest c = i # rest c'"
begin

lemma wpx_cursor_for:
  assumes body: "\<And>n a s. n < length xs \<Longrightarrow> I n a \<Longrightarrow> P s \<Longrightarrow>
      wpx (body (xs ! n) a) F (\<lambda>r s'. P s' \<and> (if fst r then S (Suc n) (snd r) else I (Suc n) (snd r))) s"
    and fuel: "\<And>n' a. I n' a \<Longrightarrow> n' < n + fuel"
    and start: "rest c = drop n xs" "n \<le> length xs" "I n a" "P s"
  shows "wpx (cursor_for fetch body fuel c a) F (\<lambda>r s'. P s' \<and> cursor_end xs fails I S r) s"
  using start fuel
proof (induction fuel arbitrary: n c a s)
  case 0
  then show ?case by fastforce
next
  case (Suc m)
  obtain r c' where f: "fetch c = (r, c')" by (cases "fetch c")
  consider (error) e where "r = Inl e" | (at_end) "r = Inr None" | (item) i where "r = Inr (Some i)"
    by (metis not_None_eq sum.exhaust)
  then show ?case
  proof cases
    case error
    with f Suc.prems fetch_error [of c e c'] show ?thesis by (auto simp: wpx_def cursor_end_def)
  next
    case at_end
    with f Suc.prems fetch_none [of c c'] show ?thesis by (auto simp: wpx_def cursor_end_def)
  next
    case item
    then have i: "drop n xs = i # rest c'" using f fetch_some Suc.prems(1) by metis
    then have n: "n < length xs" by (metis drop_all list.discI not_le)
    then have xs: "i = xs ! n" "rest c' = drop (Suc n) xs" using i by (simp_all add: Cons_nth_drop_Suc [symmetric])
    have "wpx (cursor_for fetch body m c' a') F (\<lambda>r s'. P s' \<and> cursor_end xs fails I S r) s'" if "I (Suc n) a'" "P s'" for a' s'
      by (rule Suc.IH [OF xs(2) _ that]) (use n Suc.prems(5) in fastforce)+
    then have "wpx (bnd (body (xs ! n) a) (\<lambda>(stop, a'). if stop then ret (None, a') else cursor_for fetch body m c' a')) F
        (\<lambda>r s'. P s' \<and> cursor_end xs fails I S r) s"
      by (intro wpx_seq [OF body [OF n Suc.prems(3,4)]]) (use n in \<open>auto split: prod.splits if_splits simp: cursor_end_stop\<close>)
    then show ?thesis by (simp only: cursor_for.simps f item xs(1) prod.case sum.case option.case)
  qed
qed

end

text \<open>The variables after \<open>n\<close> of the items \<open>xs\<close>, and what a body has to do with an item.\<close>

definition tallied :: "('i \<Rightarrow> bytes) \<Rightarrow> 'i list \<Rightarrow> string \<Rightarrow> nat \<Rightarrow> pass_vars \<Rightarrow> bool" where
  "tallied key xs out n = (\<lambda>(k, v, count, out'). gs_ok k \<and> gs_ok v \<and> count = int n \<and> out' = out @ dots (int n) \<and>
     (0 < n \<longrightarrow> gs_bytes k = key (xs ! (n - 1))))"

definition item_counted :: "bytes \<Rightarrow> nat \<Rightarrow> int \<Rightarrow> string \<Rightarrow> bool \<times> pass_vars \<Rightarrow> bool" where
  "item_counted kb limit count out r \<longleftrightarrow>
     (\<exists>k' v'. gs_ok k' \<and> gs_ok v' \<and> gs_bytes k' = kb \<and> r = count_item limit k' v' count out)"

lemma item_countedI: "gs_ok k' \<Longrightarrow> gs_ok v' \<Longrightarrow> item_counted (gs_bytes k') limit count out (count_item limit k' v' count out)"
  unfolding item_counted_def by blast

definition counts_item ::
  "('i \<Rightarrow> bytes) \<Rightarrow> nat \<Rightarrow> (fault \<Rightarrow> bool) \<Rightarrow> ('i \<Rightarrow> pass_vars \<Rightarrow> ('s, bool \<times> pass_vars) io) \<Rightarrow> bool" where
  "counts_item key limit F body \<longleftrightarrow> (\<forall>i k v count out s. gs_ok k \<longrightarrow> gs_ok v \<longrightarrow>
     wpx (body i (k, v, count, out)) F (\<lambda>r s'. s' = s \<and> item_counted (key i) limit count out r) s)"

lemma tallied_next:
  assumes "tallied key xs out n (k, v, count, out1)" "gs_ok k'" "gs_ok v'" "gs_bytes k' = key (xs ! n)"
    and "n < limit" "limit < 2 ^ 63"
  shows "count_item limit k' v' count out1 = (limit \<le> Suc n, (k', v', int (Suc n), out @ dots (int (Suc n)))) \<and>
    tallied key xs out (Suc n) (k', v', int (Suc n), out @ dots (int (Suc n)))"
proof -
  have "int n < int limit" "int limit < 2 ^ 63" using assms(5,6) by simp_all
  then have "go_int (int n + 1) = int n + 1" by (intro go_int_small) auto
  then show ?thesis
    using assms(1-4) dots_Suc [of n] by (auto simp: tallied_def count_item_def Let_def add.commute [of 1])
qed

context cursor
begin

lemma wpx_count_loop:
  assumes "counts_item key limit F body" "0 < limit" "limit < 2 ^ 63" "gs_ok k" "gs_ok v" "P s"
  shows "wpx (cursor_for fetch body limit c (k, v, 0, out)) F (\<lambda>r s'. P s' \<and> (fst r \<noteq> None \<longrightarrow> fails) \<and>
    (fst r = None \<longrightarrow> tallied key (rest c) out (min limit (length (rest c))) (snd r))) s"
proof -
  let ?I = "\<lambda>n a. tallied key (rest c) out n a \<and> n < limit" and ?S = "\<lambda>n a. tallied key (rest c) out n a \<and> n = limit"
  have "wpx (cursor_for fetch body limit c (k, v, 0, out)) F (\<lambda>r s'. P s' \<and> cursor_end (rest c) fails ?I ?S r) s"
  proof (rule wpx_cursor_for [where n = 0])
    show "wpx (body (rest c ! n) a) F (\<lambda>r s'. P s' \<and> (if fst r then ?S (Suc n) (snd r) else ?I (Suc n) (snd r))) s"
      if "?I n a" "P s" for n a s
    proof -
      obtain k1 v1 count out1 where a: "a = (k1, v1, count, out1)" by (cases a)
      have ok: "gs_ok k1" "gs_ok v1" "n < limit" "tallied key (rest c) out n (k1, v1, count, out1)"
        using that(1) by (simp_all add: a tallied_def)
      show ?thesis
        unfolding a
        by (rule wpx_mono [OF assms(1) [unfolded counts_item_def, rule_format, OF ok(1,2)]])
          (use tallied_next [OF ok(4) _ _ _ ok(3) assms(3)] ok(3) that(2) in \<open>auto simp: item_counted_def simp del: of_nat_Suc\<close>)
    qed
  qed (use assms(2,4-6) in \<open>auto simp: tallied_def dots_def\<close>)
  then show ?thesis
    by (rule wpx_mono) (auto simp: cursor_end_def split: if_splits)
qed

end

section \<open>The bodies\<close>

definition iter_fault :: "('bt, 'lb, 'tx, 'lt, 'e, 'x) libs \<Rightarrow> ('bv, 'bi0, 'tv, 'lv, 'x) readers \<Rightarrow> fault \<Rightarrow> bool" where
  "iter_fault L D f \<longleftrightarrow> check_fault L f \<or> y_AssertTruef D False = Some f"

definition assert_law :: "('bv, 'bi0, 'tv, 'lv, 'x) readers \<Rightarrow> bool" where
  "assert_law D \<longleftrightarrow> y_AssertTruef D True = None \<and> y_AssertTruef D False \<noteq> None"

lemma wpx_assert_f:
  assumes "assert_law D"
  shows "wpx (assert_f D b) (iter_fault L D) Q s = (b \<longrightarrow> Q () s)"
  using assms by (cases b) (auto simp: assert_f_def assert_law_def iter_fault_def)

lemma wpx_check_iter:
  assumes "y_law L"
  shows "wpx (check L err) (iter_fault L D) Q s = (err = None \<longrightarrow> Q () s)"
proof (cases err)
  case (Some e)
  obtain f where "y_Check L (Some e) = Some f" using assms by (fastforce simp: y_law_def)
  with Some show ?thesis by (auto simp: check_def iter_fault_def check_fault_def)
qed (use assms in \<open>simp add: check_def y_law_def\<close>)

lemma wpx_safecopy:
  "gs_ok s \<Longrightarrow> (\<And>s'. gs_ok s' \<Longrightarrow> gs_bytes s' = src \<Longrightarrow> Q s' w) \<Longrightarrow> wpx (safecopy s src) F Q w"
  by (rule wp_wpx [OF safe_buffer.fill_law]) auto

lemma copy_counts:
  assumes "gs_ok k" "gs_ok v"
  shows "wpx (copy_item limit k1 v1 (k, v, count, out)) F (\<lambda>r s'. s' = s \<and> item_counted k1 limit count out r) s"
  unfolding copy_item_def prod.case wpx_bnd wpx_ret by (intro wpx_safecopy assms) (auto intro: item_countedI)

lemma pair_body_counts:
  assumes "assert_law D"
  shows "counts_item fst limit (iter_fault L D) (pair_body D valueSize limit)"
  by (auto simp: counts_item_def pair_body_def wpx_assert_f [OF assms] intro: copy_counts)

lemma keys_body_counts: "counts_item (badger_Key C) limit F (keys_body C limit)"
  by (auto simp: counts_item_def keys_body_def intro!: wpx_safecopy dest: item_countedI)

lemma values_body_counts:
  assumes "assert_law D" "y_law L"
  shows "counts_item (badger_Key C) limit (iter_fault L D) (values_body L D C valueSize limit)"
  by (auto simp: counts_item_def values_body_def wpx_assert_f [OF assms(1)] wpx_check_iter [OF assms(2)]
      intro: copy_counts split: sum.splits)

section \<open>The passes\<close>

text \<open>What a pass over a store of \<open>N\<close> keys leaves.\<close>

definition counted_pass :: "nat \<Rightarrow> nat \<Rightarrow> string \<Rightarrow> pass_vars \<Rightarrow> bool" where
  "counted_pass N limit out = (\<lambda>(k, v, count, out'). gs_ok k \<and> gs_ok v \<and> count = int (min limit N) \<and> out' = out @ dots count)"

lemma wpx_run_passes:
  assumes "\<And>k v out s. gs_ok k \<Longrightarrow> gs_ok v \<Longrightarrow> P s \<Longrightarrow> wpx (pass k v out) F (\<lambda>r s'. P s' \<and> counted_pass N limit out r) s"
    and "gs_ok k" "gs_ok v" "P s"
  shows "wpx (run_passes pass bN k v out) F (\<lambda>(counts, k', v', out') s'. P s' \<and>
    counts = replicate bN (int (min limit N)) \<and> out' = out @ concat (map dots counts)) s"
  using assms(2-)
proof (induction bN arbitrary: k v out s)
  case (Suc bN)
  have rest: "wpx (run_passes pass bN k1 v1 out1) F (\<lambda>r s'. P s' \<and>
      c # fst r = replicate (Suc bN) (int (min limit N)) \<and> snd (snd (snd r)) = out @ concat (map dots (c # fst r))) s1"
    if "counted_pass N limit out (k1, v1, c, out1)" "P s1" for k1 v1 c out1 s1
    by (rule wpx_mono [OF Suc.IH [of k1 v1 s1 out1]]) (use that in \<open>auto simp: counted_pass_def\<close>)
  show ?case
    unfolding run_passes.simps split_def
    by (rule wpx_seq [OF assms(1) [OF Suc.prems]]) (auto simp: split_def intro!: wpx_mono [OF rest])
qed simp

lemma tallied_counted: "tallied key xs out (min limit (length xs)) r \<Longrightarrow> counted_pass (length xs) limit out r"
  by (auto simp: tallied_def counted_pass_def)

context cursor
begin

lemma wpx_count_keys:
  assumes "counts_item key limit F body" "0 < limit" "limit < 2 ^ 63" "gs_ok k" "gs_ok v"
    and "map key (rest c) = sorted_list_of_set (dom m)" "P s"
  shows "wpx (cursor_for fetch body limit c (k, v, 0, out)) F (\<lambda>r s'. P s' \<and> (fst r \<noteq> None \<longrightarrow> fails) \<and>
    (fst r = None \<longrightarrow> counted_pass (card (dom m)) limit out (snd r))) s"
proof -
  have "card (dom m) = length (rest c)" using arg_cong [OF assms(6), of length] by simp
  then show ?thesis
    by (intro wpx_mono [OF wpx_count_loop [where P = P, OF assms(1-5,7)]]) (auto intro: tallied_counted)
qed

end

text \<open>
  The contracts of the stores. A read transaction leaves the contents as they are, and a
  cursor opened in it delivers their keys in order.
\<close>

locale bolt_scan = cursor "fetch_bolt C" rest False
  for C :: "('tv, 'bc, 'lv, 'lc, 'rt, 'bi, 'it, 'x) cursors" and rest +
  fixes D :: "('bv, 'bi0, 'tv, 'lv, 'x) readers" and view :: "'x \<Rightarrow> contents"
  assumes begin_law: "bolt_View D x = (r, x') \<Longrightarrow> view x' = view x"
    and cursor_law: "bolt_View D x = (Inr txn, x') \<Longrightarrow> bolt_ViewBucket D txn ''bench'' = Some b \<Longrightarrow>
      map fst (rest (Inl (bolt_Cursor C txn b))) = sorted_list_of_set (dom (view x))"
    and end_law: "bolt_EndView D txn x = (err, x') \<Longrightarrow> view x' = view x"

locale lmdb_scan = cursor "fetch_lmdb D C" rest True
  for D :: "('bv, 'bi0, 'tv, 'lv, 'x) readers" and C :: "('tv, 'bc, 'lv, 'lc, 'rt, 'bi, 'it, 'x) cursors" and rest +
  fixes view :: "'x \<Rightarrow> contents"
  assumes begin_law: "lmdb_View D x = (r, x') \<Longrightarrow> view x' = view x"
    and cursor_law: "lmdb_View D x = (Inr txn, x') \<Longrightarrow>
      lmdb_OpenCursor C (lmdb_SetRawRead D True txn) dbi = Inr cur \<Longrightarrow> map fst (rest cur) = sorted_list_of_set (dom (view x))"
    and end_law: "lmdb_EndView D txn x = (err, x') \<Longrightarrow> view x' = view x"

locale badger_scan = cursor "fetch_badger C" rest False
  for C :: "('tv, 'bc, 'lv, 'lc, 'rt, 'bi, 'it, 'x) cursors" and rest +
  fixes view :: "'x \<Rightarrow> contents"
  assumes cursor_law: "badger_ReadTxn C x = (txn, x') \<Longrightarrow> view x' = view x \<and>
    map (badger_Key C) (rest (badger_Rewind C (badger_NewIterator C txn opt))) = sorted_list_of_set (dom (view x))"

text \<open>A pass over each store, from any state in which it has the contents \<open>m\<close>.\<close>

lemma wpx_begin_view:
  assumes "y_law L" "\<And>txn x'. view (ps_x s) = (Inr txn, x') \<Longrightarrow> Q txn (s\<lparr>ps_x := x'\<rparr>)"
  shows "wpx (begin_view L view) (iter_fault L D) Q s"
  using assms by (auto simp: begin_view_def wpx_check_iter split: sum.splits prod.splits)

lemma wpx_enter_bolt:
  assumes "y_law L" "\<And>txn b x'. bolt_View D (ps_x s) = (Inr txn, x') \<Longrightarrow> bolt_ViewBucket D txn ''bench'' = Some b \<Longrightarrow>
      Q (txn, b) (s\<lparr>ps_x := x'\<rparr>)"
  shows "wpx (enter_bolt L D) (iter_fault L D) Q s"
  unfolding enter_bolt_def wpx_bnd
  by (rule wpx_begin_view [OF assms(1)])
    (use assms in \<open>auto simp: y_law_def iter_fault_def check_fault_def split: option.splits\<close>)

context bolt_scan
begin

lemma wpx_bolt_pass:
  assumes "y_law L" "assert_law D" "0 < limit" "limit < 2 ^ 63" "gs_ok k" "gs_ok v" "view (ps_x s) = m"
  shows "wpx (bolt_pass L D C valueSize limit k v out) (iter_fault L D)
    (\<lambda>r s'. view (ps_x s') = m \<and> counted_pass (card (dom m)) limit out r) s"
proof -
  have enter: "wpx (enter_bolt L D) (iter_fault L D) (\<lambda>(txn, b) s'. view (ps_x s') = m \<and>
      map fst (rest (Inl (bolt_Cursor C txn b))) = sorted_list_of_set (dom m)) s"
    by (rule wpx_enter_bolt [OF assms(1)]) (use assms(7) begin_law cursor_law in auto)
  note loop = wpx_count_keys [OF pair_body_counts [OF assms(2)] assms(3-6), where P = "\<lambda>s. view (ps_x s) = m"]
  show ?thesis
    unfolding bolt_pass_def split_def
    by (rule wpx_seq [OF enter], rule wpx_seq [OF loop]) (auto simp: wpx_check_iter [OF assms(1)] dest: end_law split: prod.splits)
qed

end

context lmdb_scan
begin

lemma wpx_lmdb_pass:
  assumes "y_law L" "assert_law D" "0 < limit" "limit < 2 ^ 63" "gs_ok k" "gs_ok v" "view (ps_x s) = m"
  shows "wpx (lmdb_pass L D C dbi valueSize limit k v out) (iter_fault L D)
    (\<lambda>r s'. view (ps_x s') = m \<and> counted_pass (card (dom m)) limit out r) s"
proof -
  have enter: "wpx (enter_lmdb L D) (iter_fault L D) (\<lambda>txn s'. view (ps_x s') = m \<and>
      (\<forall>cur. lmdb_OpenCursor C txn dbi = Inr cur \<longrightarrow> map fst (rest cur) = sorted_list_of_set (dom m))) s"
    unfolding enter_lmdb_def wpx_bnd
    by (rule wpx_begin_view [OF assms(1)]) (use assms(7) begin_law cursor_law in auto)
  note loop = wpx_count_keys [OF pair_body_counts [OF assms(2)] assms(3-6), where P = "\<lambda>s. view (ps_x s) = m"]
  have loop: "wpx (case lmdb_OpenCursor C txn dbi of Inl err \<Rightarrow> ret (Some err, (k, v, 0, out))
       | Inr cur \<Rightarrow> cursor_for (fetch_lmdb D C) (pair_body D valueSize limit) limit cur (k, v, 0, out)) (iter_fault L D)
      (\<lambda>r s'. view (ps_x s') = m \<and> (fst r = None \<longrightarrow> counted_pass (card (dom m)) limit out (snd r))) s'"
    if "view (ps_x s') = m \<and> (\<forall>cur. lmdb_OpenCursor C txn dbi = Inr cur \<longrightarrow> map fst (rest cur) = sorted_list_of_set (dom m))"
    for txn s'
    using that by (auto split: sum.splits intro!: wpx_mono [OF loop])
  show ?thesis
    unfolding lmdb_pass_def split_def
    by (rule wpx_seq [OF enter], rule wpx_seq [OF loop])
      (auto simp: wpx_check_iter [OF assms(1)] dest: end_law split: prod.splits option.splits)
qed

lemma wpx_lmdb_handle:
  assumes "y_law L" "view (ps_x s) = m"
  shows "wpx (lmdb_handle L D) (iter_fault L D) (\<lambda>_ s'. view (ps_x s') = m) s"
  unfolding lmdb_handle_def wpx_bnd
  by (rule wpx_begin_view [OF assms(1)])
    (use assms(2) in \<open>auto simp: wpx_check_iter [OF assms(1)] dest!: end_law begin_law split: prod.splits sum.splits\<close>)

end

context badger_scan
begin

lemma wpx_badger_pass:
  assumes "counts_item (badger_Key C) limit F body" "0 < limit" "limit < 2 ^ 63" "gs_ok k" "gs_ok v" "view (ps_x s) = m"
  shows "wpx (badger_pass C prefetch body limit k v out) F
    (\<lambda>r s'. view (ps_x s') = m \<and> counted_pass (card (dom m)) limit out r) s"
proof -
  note loop = wpx_count_keys [OF assms(1-5), where P = "\<lambda>s. view (ps_x s) = m"]
  show ?thesis
    unfolding badger_pass_def
    using assms(6) cursor_law [of "ps_x s"] by (auto split: prod.splits intro!: wpx_mono [OF loop])
qed

end


section \<open>The benchmarks\<close>

text \<open>What the passes over the contents \<open>m\<close> log and print.\<close>

definition scan_counts :: "contents \<Rightarrow> nat \<Rightarrow> int list \<Rightarrow> string \<Rightarrow> bool" where
  "scan_counts m bN counts out \<longleftrightarrow> counts = replicate bN (int (min 2000000 (card (dom m)))) \<and>
     out = concat (map (\<lambda>c. replicate (nat c div 100000) CHR ''.'') counts)"

lemma wpx_benchmark_passes:
  fixes s :: "('b, 'f, 'e, 'x) pstate" and view :: "'x \<Rightarrow> contents"
  assumes "wpx opn F (\<lambda>_ s'. view (ps_x s') = m) s"
    and "\<And>h k v out s. gs_ok k \<Longrightarrow> gs_ok v \<Longrightarrow> view (ps_x s) = m \<Longrightarrow>
      wpx (pass h k v out) F (\<lambda>r s'. view (ps_x s') = m \<and> counted_pass (card (dom m)) (2 * Mi) out r) s"
    and "\<And>h Q s. (\<And>s'. Q () s') \<Longrightarrow> wpx (close h) F Q s"
  shows "wpx (bnd opn (\<lambda>h. bnd (run_passes (pass h) bN (gs_make a) (gs_make b) []) (\<lambda>(counts, k, v, out).
    andthen (close h) (ret (counts, out))))) F (\<lambda>(counts, out) _. scan_counts m bN counts out) s"
proof (rule wpx_seq [OF assms(1)])
  fix h and s' :: "('b, 'f, 'e, 'x) pstate" assume "view (ps_x s') = m"
  moreover have "gs_ok (gs_make n)" for n by (simp add: gs_make_simps)
  ultimately show "wpx (bnd (run_passes (pass h) bN (gs_make a) (gs_make b) []) (\<lambda>(counts, k, v, out).
      andthen (close h) (ret (counts, out)))) F (\<lambda>(counts, out) _. scan_counts m bN counts out) s'"
    unfolding split_def
    by (intro wpx_seq [OF wpx_run_passes [where P = "\<lambda>s. view (ps_x s) = m", OF assms(2)]])
      (auto simp: scan_counts_def Mi_def dots_def [abs_def] intro!: assms(3))
qed

lemma scan_limit: "0 < 2 * Mi" "2 * Mi < 2 ^ 63"
  by (simp_all add: Mi_def)


lemma bolt_counts:
  assumes "y_law L" "assert_law D" "bolt_scan C rest D view"
    and "wpx (getBoltDB L dir) (iter_fault L D) (\<lambda>_ s. view (ps_x s) = m) st"
  shows "wpx (BenchmarkIterateBolt L D C dir valueSize bN) (iter_fault L D) (\<lambda>(counts, out) _. scan_counts m bN counts out) st"
  unfolding BenchmarkIterateBolt_def
  by (rule wpx_benchmark_passes [OF assms(4) bolt_scan.wpx_bolt_pass [OF assms(3,1,2) scan_limit]]) (auto split: prod.splits)

lemma lmdb_counts:
  assumes "y_law L" "assert_law D" "lmdb_scan D C rest view"
    and "wpx (getLmdb L D dir) (iter_fault L D) (\<lambda>_ s. view (ps_x s) = m) st"
  shows "wpx (BenchmarkIterateLmdb L D C dir valueSize bN) (iter_fault L D) (\<lambda>(counts, out) _. scan_counts m bN counts out) st"
  unfolding BenchmarkIterateLmdb_def
  by (rule wpx_benchmark_passes [OF wpx_seq [OF assms(4) lmdb_scan.wpx_lmdb_handle [OF assms(3,1)]]
        lmdb_scan.wpx_lmdb_pass [OF assms(3,1,2) scan_limit]]) (auto split: prod.splits)

lemma badger_counts:
  assumes "y_law L" "assert_law D" "badger_scan C rest view"
    and "wpx (bnd (getBadger L dir) (check L)) (iter_fault L D) (\<lambda>_ s. view (ps_x s) = m) st"
  shows "wpx (BenchmarkIterateBadgerOnlyKeys L C dir bN) (iter_fault L D) (\<lambda>(counts, out) _. scan_counts m bN counts out) st"
    and "wpx (BenchmarkIterateBadgerWithValues L D C dir valueSize bN) (iter_fault L D)
      (\<lambda>(counts, out) _. scan_counts m bN counts out) st"
proof -
  note passes = wpx_benchmark_passes [OF assms(4) badger_scan.wpx_badger_pass [OF assms(3) _ scan_limit]]
  show "wpx (BenchmarkIterateBadgerOnlyKeys L C dir bN) (iter_fault L D) (\<lambda>(counts, out) _. scan_counts m bN counts out) st"
    unfolding BenchmarkIterateBadgerOnlyKeys_def by (rule passes [OF keys_body_counts]) (auto split: prod.splits)
  show "wpx (BenchmarkIterateBadgerWithValues L D C dir valueSize bN) (iter_fault L D)
      (\<lambda>(counts, out) _. scan_counts m bN counts out) st"
    unfolding BenchmarkIterateBadgerWithValues_def
    by (rule passes [OF values_body_counts [OF assms(2,1)]]) (auto split: prod.splits)
qed

section \<open>Reference cursors\<close>

text \<open>The stores as association lists: a cursor is the list of the pairs it has still to deliver.\<close>

definition ref_scan :: "kvlist \<Rightarrow> kvlist" where
  "ref_scan x = map (\<lambda>k. (k, the (map_of x k))) (sorted_list_of_set (set (map fst x)))"

definition ref_next :: "kvlist \<Rightarrow> (bytes \<times> bytes) option \<times> kvlist" where
  "ref_next c = (case c of [] \<Rightarrow> (None, []) | p # ps \<Rightarrow> (Some p, ps))"

definition ref_cursors ::
  "(kvlist, kvlist, kvlist, kvlist, kvlist, kvlist, bytes \<times> bytes, kvlist) cursors" where
  "ref_cursors = \<lparr>
     bolt_Cursor = (\<lambda>t b. ref_scan t), bolt_First = ref_next, bolt_Next = ref_next,
     lmdb_OpenCursor = (\<lambda>t d. Inr (ref_scan t)),
     lmdb_CursorNext = (\<lambda>c. case ref_next c of (None, c') \<Rightarrow> (Inl ''not found'', c') | (Some p, c') \<Rightarrow> (Inr p, c')),
     badger_ReadTxn = (\<lambda>x. (x, x)), badger_NewIterator = (\<lambda>t opt. ref_scan t), badger_Rewind = (\<lambda>i. i),
     badger_Valid = (\<lambda>i. i \<noteq> []), badger_Item = hd, badger_Next = tl,
     badger_Key = fst, badger_Value = (\<lambda>i. Inr (snd i))\<rparr>"

text \<open>The reference libraries, opening a store with what it has.\<close>

definition kept_libs :: "(kvlist, kvlist, kvlist, kvlist, engine_state, kvlist) libs" where
  "kept_libs = ref_libs\<lparr>badger_Open := (\<lambda>opt x. (None, x)), bolt_Open := (\<lambda>p pm opt x. (None, x)),
     lmdb_NewEnv := (\<lambda>x. (None, x))\<rparr>"

lemma ref_scan_keys: "map fst (ref_scan x) = sorted_list_of_set (dom (map_of x))"
  by (simp add: ref_scan_def comp_def dom_map_of_conv_image_fst)

interpretation ref_bolt: bolt_scan ref_cursors "\<lambda>c. case c of Inl c \<Rightarrow> c | Inr c \<Rightarrow> c" ref_readers map_of
  by unfold_locales (auto simp: fetch_bolt_def ref_cursors_def ref_readers_def ref_next_def ref_scan_keys split: sum.splits list.splits)

interpretation ref_lmdb: lmdb_scan ref_readers ref_cursors "\<lambda>c. c" map_of
  by unfold_locales (auto simp: fetch_lmdb_def ref_cursors_def ref_readers_def ref_next_def ref_scan_keys split: list.splits)

interpretation ref_badger: badger_scan ref_cursors "\<lambda>c. c" map_of
  by unfold_locales (auto simp: fetch_badger_def ref_cursors_def ref_scan_keys split: if_splits, metis list.collapse)

section \<open>Properties\<close>

text \<open>
  C21. The iteration benchmarks on bolt, lmdb and badger, from opening to closing: each pass ends,
  and unless a check or the assertion on a value's size ends the benchmark, every pass logs
  the number of keys of the store, two million at most, and prints a dot for every hundred
  thousand of them.
\<close>

theorem cursor_passes_count:
  fixes st :: "('b, 'f, 'e, 'x) pstate"
  assumes "y_law L" and "assert_law D"
    and "bolt_scan C bolt_rest D bolt_view" and "lmdb_scan D C lmdb_rest lmdb_view" and "badger_scan C badger_rest badger_view"
    and "wpx (getBoltDB L dir) (iter_fault L D) (\<lambda>_ s. bolt_view (ps_x s) = m) st"
    and "wpx (getLmdb L D dir) (iter_fault L D) (\<lambda>_ s. lmdb_view (ps_x s) = m) st"
    and "wpx (bnd (getBadger L dir) (check L)) (iter_fault L D) (\<lambda>_ s. badger_view (ps_x s) = m) st"
  shows "wpx (BenchmarkIterateBolt L D C dir valueSize bN) (iter_fault L D) (\<lambda>(counts, out) _. scan_counts m bN counts out) st \<and>
    wpx (BenchmarkIterateLmdb L D C dir valueSize bN) (iter_fault L D) (\<lambda>(counts, out) _. scan_counts m bN counts out) st \<and>
    wpx (BenchmarkIterateBadgerOnlyKeys L C dir bN) (iter_fault L D) (\<lambda>(counts, out) _. scan_counts m bN counts out) st \<and>
    wpx (BenchmarkIterateBadgerWithValues L D C dir valueSize bN) (iter_fault L D) (\<lambda>(counts, out) _. scan_counts m bN counts out) st"
  using bolt_counts [OF assms(1-3,6)] lmdb_counts [OF assms(1,2,4,7)] badger_counts [OF assms(1,2,5,8)] by blast

theorem cursor_passes_count_witness:
  "wpx (BenchmarkIterateBolt kept_libs ref_readers ref_cursors ''/tmp'' 4 2) (iter_fault kept_libs ref_readers)
     (\<lambda>(counts, out) _. counts = [1, 1] \<and> out = []) (state_ro\<lparr>ps_x := [(''k'', ''vvvv'')]\<rparr>) \<and>
   wpx (BenchmarkIterateLmdb kept_libs ref_readers ref_cursors ''/tmp'' 4 2) (iter_fault kept_libs ref_readers)
     (\<lambda>(counts, out) _. counts = [1, 1] \<and> out = []) (state_ro\<lparr>ps_x := [(''k'', ''vvvv'')]\<rparr>)"
proof -
  have "y_law kept_libs" "assert_law ref_readers"
    using ref_laws(1) by (auto simp: kept_libs_def y_law_def assert_law_def ref_readers_def)
  note count = cursor_passes_count [OF this ref_bolt.bolt_scan_axioms ref_lmdb.lmdb_scan_axioms ref_badger.badger_scan_axioms,
      where st = "state_ro\<lparr>ps_x := [(''k'', ''vvvv'')]\<rparr>" and m = "[''k'' \<mapsto> ''vvvv'']" and dir = "''/tmp''" and bN = 2
        and valueSize = 4]
  have counts: "scan_counts [''k'' \<mapsto> ''vvvv''] 2 counts out \<Longrightarrow> counts = [1, 1] \<and> out = []" for counts out
    by (auto simp: scan_counts_def numeral_2_eq_2)
  show ?thesis
    by (intro conjI wpx_mono [OF count [THEN conjunct1]] wpx_mono [OF count [THEN conjunct2, THEN conjunct1]])
      (auto simp: getBoltDB_def getLmdb_def getBadger_def check_def kept_libs_def ref_libs_def ref_readers_def fun_upd_def counts)
qed

end
