(* ===== verification/LmdbBatch.thy ===== *)
theory LmdbBatch
  imports Populate
begin

text \<open>
  The batch benchmark \<^verbatim>\<open>src/populate/lmdb_txn_bench_test.go\<close>: the same entries written to lmdb in a
  transaction, and in a transaction nested in a transaction. \<open>Txn.Sub\<close> is the parameter
  \<open>sub\<close>: it runs a closure in a nested transaction and commits that if the closure returns nil.
\<close>

section \<open>The two ways to write a batch\<close>

type_synonym 'lt lmdb_sub = "('lt \<Rightarrow> bytes option \<times> 'lt) \<Rightarrow> 'lt \<Rightarrow> bytes option \<times> 'lt"

fun writeEntries ::
  "('bt, 'lb, 'tx, 'lt, 'e, 'x) libs \<Rightarrow> nat \<Rightarrow> (bytes \<times> bytes) list \<Rightarrow> 'lt \<Rightarrow> bytes option \<times> 'lt" where
  "writeEntries L dbi [] txn = (None, txn)"
| "writeEntries L dbi ((k, v) # entries) txn = (case lmdb_Put L txn dbi k v 0 of
     (Some err, txn') \<Rightarrow> (Some err, txn') | (None, txn') \<Rightarrow> writeEntries L dbi entries txn')"

text \<open>\<open>lmdbEnv.Update\<close> of a closure that leaves the captured handle alone.\<close>

definition env_update ::
  "('bt, 'lb, 'tx, 'lt, 'e, 'x) libs \<Rightarrow> nat \<Rightarrow> ('lt \<Rightarrow> bytes option \<times> 'lt) \<Rightarrow> (('b, 'f, 'e, 'x) pstate, bytes option) io" where
  "env_update L dbi f = bnd (on_x (lmdb_Update L (\<lambda>d txn. case f txn of (err, txn') \<Rightarrow> ((err, d), txn')) dbi))
     (\<lambda>(err, _). ret err)"

definition writeSimpleBatched ::
  "('bt, 'lb, 'tx, 'lt, 'e, 'x) libs \<Rightarrow> (bytes \<times> bytes) list \<Rightarrow> nat \<Rightarrow> (('b, 'f, 'e, 'x) pstate, unit) io" where
  "writeSimpleBatched L entries dbi = bnd (env_update L dbi (writeEntries L dbi entries)) (check L)"

definition writeTxnBatched ::
  "('bt, 'lb, 'tx, 'lt, 'e, 'x) libs \<Rightarrow> 'lt lmdb_sub \<Rightarrow> (bytes \<times> bytes) list \<Rightarrow> nat \<Rightarrow>
     (('b, 'f, 'e, 'x) pstate, unit) io" where
  "writeTxnBatched L sub entries dbi = bnd (env_update L dbi (sub (writeEntries L dbi entries))) (check L)"

text \<open>The environment and the handle, the two runs of \<open>b.N\<close> batches, the deferred close.\<close>

definition getLmdbEnv ::
  "('bt, 'lb, 'tx, 'lt, 'e, 'x) libs \<Rightarrow> bytes \<Rightarrow> (('b, 'f, 'e, 'x) pstate, unit) io" where
  "getLmdbEnv L dir =
     andthen (reset_dir L False (dir @ ''/lmdb''))
     (bnd (on_x (lmdb_NewEnv L)) (\<lambda>err. andthen (check L err)
     (bnd (on_x (lmdb_SetMaxDBs L 1)) (\<lambda>err. andthen (check L err)
     (bnd (on_x (lmdb_SetMapSize L (2 ^ 36))) (\<lambda>err. andthen (check L err)
     (bnd (on_x (lmdb_Open L (dir @ ''/lmdb'') 0 perm_all)) (check L))))))))"

definition batch_rounds ::
  "('bt, 'lb, 'tx, 'lt, 'e, 'x) libs \<Rightarrow> 'lt lmdb_sub \<Rightarrow> (bytes \<times> bytes) list \<Rightarrow> nat \<Rightarrow> nat \<Rightarrow> nat \<Rightarrow>
     (('b, 'f, 'e, 'x) pstate, unit) io" where
  "batch_rounds L sub entries dbi n1 n2 =
     andthen (io_for [0..<n1] (\<lambda>_. writeSimpleBatched L entries dbi))
       (io_for [0..<n2] (\<lambda>_. writeTxnBatched L sub entries dbi))"

definition BenchmarkLmdbBatch ::
  "('bt, 'lb, 'tx, 'lt, 'e, 'x) libs \<Rightarrow> 'lt lmdb_sub \<Rightarrow> bytes \<Rightarrow> nat \<Rightarrow> nat \<Rightarrow> nat \<Rightarrow>
     (('b, 'f, 'e, 'x) pstate, unit) io" where
  "BenchmarkLmdbBatch L sub dir valueSize n1 n2 =
     (let entries = replicate 1000 (replicate 22 NUL, replicate valueSize NUL) in
      andthen (getLmdbEnv L dir)
      (bnd (on_x (lmdb_Update L (\<lambda>_ txn. lmdb_CreateDBI L txn ''bench'') 0)) (\<lambda>(err, dbi).
       andthen (check L err)
       (andthen (batch_rounds L sub entries dbi n1 n2) (on_x (lmdb_Close L))))))"

section \<open>They agree\<close>

definition sub_law :: "'lt lmdb_sub \<Rightarrow> ('lt \<Rightarrow> contents) \<Rightarrow> bool" where
  "sub_law sub txview \<longleftrightarrow> (\<forall>f t t'. sub f t = (None, t') \<longrightarrow>
     (\<exists>u u'. txview u = txview t \<and> f u = (None, u') \<and> txview t' = txview u'))"

definition put_ops :: "(bytes \<times> bytes) list \<Rightarrow> (bytes \<times> bytes option) list" where
  "put_ops es = map (\<lambda>(k, v). (k, Some v)) es"

lemma writeEntries_law:
  "lmdb_law L view txview \<Longrightarrow> writeEntries L dbi es t = (None, t') \<Longrightarrow> txview t' = apply_ops (put_ops es) (txview t)"
  by (induction L dbi es t rule: writeEntries.induct)
    (auto simp: lmdb_law_def put_ops_def split: prod.splits option.splits)

text \<open>An update whose closure, when it succeeds, has a given effect on the contents.\<close>

lemma wpx_update:
  assumes "lmdb_law L view txview" "y_law L" "\<And>t t'. f t = (None, t') \<Longrightarrow> txview t' = F (txview t)"
  shows "wpx (bnd (env_update L dbi f) (check L)) (check_fault L) (\<lambda>_ s'. view (ps_x s') = F (view (ps_x s))) s"
proof -
  let ?f = "\<lambda>d txn. case f txn of (err, txn') \<Rightarrow> ((err, d), txn')"
  obtain err d' x where u: "lmdb_Update L ?f dbi (ps_x s) = ((err, d'), x)" by (metis prod.exhaust)
  have "view x = F (view (ps_x s))" if "err = None"
  proof -
    have "lmdb_Update L ?f dbi (ps_x s) = ((None, d'), x)" using u that by simp
    then obtain t t' where t: "txview t = view (ps_x s)" "?f dbi t = ((None, d'), t')" "view x = txview t'"
      using assms(1) unfolding lmdb_law_def by blast
    then have "f t = (None, t')" by (cases "f t") auto
    from assms(3) [OF this] t(1,3) show ?thesis by simp
  qed
  with u assms(2) show ?thesis by (simp add: env_update_def)
qed

text \<open>Writing the same entries again changes nothing.\<close>

lemma apply_ops_lookup: "apply_ops ops m k = (case map_of (rev ops) k of None \<Rightarrow> m k | Some v \<Rightarrow> v)"
  by (induction ops arbitrary: m rule: rev_induct) (auto simp: apply_ops_append split: prod.splits option.splits)

lemma apply_ops_again: "apply_ops ops (apply_ops ops m) = apply_ops ops m"
  by (rule ext) (simp add: apply_ops_lookup split: option.splits)

lemma wpx_rounds:
  assumes "\<And>s. wpx m G (\<lambda>_ s'. v s' = F (v s)) s" "\<And>y. F (F y) = F y"
  shows "wpx (io_for xs (\<lambda>_. m)) G (\<lambda>_ s'. v s' = (if xs = [] then v s else F (v s))) s"
proof (induction xs arbitrary: s)
  case (Cons x xs)
  show ?case
    unfolding io_for.simps by (rule wpx_seq [OF assms(1)], rule wpx_mono [OF Cons.IH]) (auto simp: assms(2))
qed simp



end
