(* ===== verification/Progress.thy ===== *)
theory Progress
  imports PopulateRun Report
begin

text \<open>
  The progress reports of \<^verbatim>\<open>populate/main.go\<close>: a goroutine that prints, at every tick of a clock, the
  number of the report, the rate and the shared counter, while the workers run. The rate counter
  is third-party code that nothing else reads: the rate of a report is an arbitrary number. A tick
  may come at any time.
\<close>

section \<open>The reporter\<close>

definition report_line :: "int \<Rightarrow> int \<Rightarrow> int \<Rightarrow> string" where
  "report_line count rate tot =
     ''['' @ fmt_0d 4 count @ ''] Write key rate per minute: '' @ humanize rate @ ''. Total: '' @ humanize tot @ [CHR 0x0A]"

record 's reported =
  rp_main :: "'s pmain"
  rp_count :: nat
  rp_lines :: "string list"

text \<open>A worker moves, or the reporter loads the counter (an \<open>int64\<close>) and prints a line.\<close>

inductive qstep ::
  "(entry list \<Rightarrow> ('s, nat \<times> entry list) io) \<Rightarrow> rat \<Rightarrow> 's reported \<Rightarrow> 's reported \<Rightarrow> bool"
  for wb limit where
  work: "worker_step wb limit i (rp_main q) = Some (Running m) \<Longrightarrow> qstep wb limit q (q\<lparr>rp_main := m\<rparr>)"
| tick: "qstep wb limit q (q\<lparr>rp_count := Suc (rp_count q),
     rp_lines := rp_lines q @ [report_line (int (rp_count q)) rate (sint (pm_counter (rp_main q)))]\<rparr>)"

definition start_reported :: "nat \<Rightarrow> nat \<Rightarrow> nat \<Rightarrow> 's \<Rightarrow> 's reported" where
  "start_reported N B valueSize st = \<lparr>rp_main = start_main N B valueSize st, rp_count = 0, rp_lines = []\<rparr>"

section \<open>Reports only go up\<close>

text \<open>The lines are numbered and their totals ascend, up to what has been added to the counter.\<close>

definition reports_ok :: "nat \<Rightarrow> 's reported \<Rightarrow> bool" where
  "reports_ok n q \<longleftrightarrow> (\<exists>rates totals. length rates = rp_count q \<and> length totals = rp_count q \<and>
     rp_lines q = map (\<lambda>j. report_line (int j) (rates ! j) (int (totals ! j))) [0..<rp_count q] \<and>
     sorted totals \<and> (\<forall>t \<in> set totals. t \<le> n))"

lemma reports_ok_mono: "reports_ok n q \<Longrightarrow> n \<le> n' \<Longrightarrow> reports_ok n' (q\<lparr>rp_main := m\<rparr>)"
  unfolding reports_ok_def by simp (meson order.trans)

lemma reports_ok_tick:
  assumes "reports_ok n q"
  shows "reports_ok n (q\<lparr>rp_count := Suc (rp_count q), rp_lines := rp_lines q @ [report_line (int (rp_count q)) rate (int n)]\<rparr>)"
proof -
  obtain rates totals where q: "length rates = rp_count q" "length totals = rp_count q"
      "rp_lines q = map (\<lambda>j. report_line (int j) (rates ! j) (int (totals ! j))) [0..<rp_count q]"
      "sorted totals" "\<forall>t \<in> set totals. t \<le> n"
    using assms by (auto simp: reports_ok_def)
  then show ?thesis
    unfolding reports_ok_def
    by (intro exI [of _ "rates @ [rate]"] exI [of _ "totals @ [n]"]) (auto simp: nth_append sorted_append)
qed

lemma all_added_le:
  assumes "0 < B" "run_inv B limit m"
  shows "all_added B m \<le> length (pm_workers m) * B * rounds B limit"
proof -
  have "added_of B w \<le> B * rounds B limit" if "w \<in> set (pm_workers m)" for w
  proof -
    have "worker_at B limit w (done_of B w)" using assms(2) that by (simp add: run_inv_def)
    then have "done_of B w + (if wk_pc w = WAdded then 1 else 0) \<le> rounds B limit" by (auto simp: worker_at_def)
    then have "B * (done_of B w + (if wk_pc w = WAdded then 1 else 0)) \<le> B * rounds B limit" by (rule mult_le_mono2)
    then show ?thesis by (auto simp: added_of_def distrib_left split: if_splits)
  qed
  then have "sum_list (map (added_of B) ws) \<le> length ws * (B * rounds B limit)" if "set ws \<subseteq> set (pm_workers m)" for ws
    using that by (induction ws) (auto simp: add_mono)
  from this [of "pm_workers m"] show ?thesis by (simp add: all_added_def mult.assoc)
qed

context batch_writer
begin

lemma reported_steps:
  assumes "(qstep wb limit)\<^sup>*\<^sup>* (start_reported N B v st) q" "0 < B" "B \<le> 2 ^ 52" "limit \<le> 2 ^ 52"
    and "N * B * rounds B limit < 2 ^ 63"
  shows "run_inv B limit (rp_main q) \<and> length (pm_workers (rp_main q)) = N \<and> reports_ok (all_added B (rp_main q)) q"
  using assms(1)
proof (induction rule: rtranclp_induct)
  case base
  show ?case
    using start_inv [OF assms(2)] by (simp add: start_reported_def reports_ok_def) (simp add: start_main_def start_workers_def)
next
  case (step q q')
  from step.hyps(2) show ?case
  proof (cases rule: qstep.cases)
    case (work i m)
    have "advanced B limit (rp_main q) m" using step_advances [OF assms(2-4) _ work(2)] step.IH by simp
    moreover have "length (pm_workers m) = length (pm_workers (rp_main q))"
      using work(2) by (auto simp: worker_step_def Let_def split: if_splits wpc.splits sum.splits prod.splits)
    ultimately show ?thesis using step.IH by (auto simp: work(1) advanced_def intro: reports_ok_mono)
  next
    case (tick rate)
    have "all_added B (rp_main q) < 2 ^ 63"
      using all_added_le [OF assms(2), of limit "rp_main q"] step.IH assms(5) by simp
    moreover have "pm_counter (rp_main q) = of_nat (all_added B (rp_main q))"
      using step.IH by (simp add: run_inv_def all_added_def)
    ultimately have "sint (pm_counter (rp_main q)) = int (all_added B (rp_main q))"
      by (simp add: signed_of_nat signed_take_bit_int_eq_self)
    then show ?thesis
      using step.IH reports_ok_tick [of "all_added B (rp_main q)" q rate] by (simp add: tick)
  qed
qed

end

section \<open>Properties\<close>

text \<open>
  C18. Progress reports, at any moment of a run and for any interleaving of workers and ticks: the
  printed lines are numbered from zero, their totals never go down, none exceeds what the workers
  have added to the counter so far, and that is below the requested number of keys plus 32,000.
\<close>

theorem progress_reports:
  assumes "0 \<le> nw_of numKeys" and "nw_of numKeys \<le> 2 ^ 57"
    and "(qstep (writeBatch L R g numKeys (int v)) (worker_limit (nw_of numKeys) 32))\<^sup>*\<^sup>* (start_reported 32 1000 v st) q"
  shows "\<exists>n. pm_counter (rp_main q) = of_nat n \<and> of_nat n < nw_of numKeys + 32000 \<and> reports_ok n q"
proof -
  let ?limit = "worker_limit (nw_of numKeys) 32" and ?n = "all_added 1000 (rp_main q)"
  have limit: "?limit \<le> 2 ^ 52" "0 \<le> ?limit" "nw_of numKeys = 32 * ?limit"
    using assms(1,2) by (simp_all add: worker_limit_32)
  have r: "of_nat (1000 * rounds 1000 ?limit) < ?limit + 1000" using rounds_bounds(2) [of 1000 ?limit] limit(2) by simp
  then have top: "of_nat (32 * 1000 * rounds 1000 ?limit) < nw_of numKeys + 32000"
    using limit(3) unfolding of_nat_mult of_nat_numeral by linarith
  also have "\<dots> < 2 ^ 63" using assms(2) by simp
  finally have "32 * 1000 * rounds 1000 ?limit < 2 ^ 63" by (metis of_nat_less_iff of_nat_numeral of_nat_power)
  from populate.reported_steps [OF assms(3) _ _ limit(1) this]
  have q: "run_inv 1000 ?limit (rp_main q)" "length (pm_workers (rp_main q)) = 32" "reports_ok ?n q" by simp_all
  have "?n \<le> 32 * 1000 * rounds 1000 ?limit" using all_added_le [OF _ q(1)] q(2) by simp
  then have "(of_nat ?n :: rat) \<le> of_nat (32 * 1000 * rounds 1000 ?limit)" by (rule of_nat_mono)
  moreover have "pm_counter (rp_main q) = of_nat ?n" using q(1) by (simp add: run_inv_def all_added_def)
  ultimately show ?thesis using q(3) top by (meson order.strict_trans1)
qed

theorem progress_reports_witness:
  "\<exists>q. (qstep (writeBatch ref_libs ref_rocksdb no_dbs (1 / 1000000) (int 0)) (worker_limit (nw_of (1 / 1000000)) 32))\<^sup>*\<^sup>*
      (start_reported 32 1000 0 state_one) q \<and> rp_count q = 1 \<and> (\<exists>n. reports_ok n q)"
proof -
  let ?q = "start_reported 32 1000 0 state_one"
  let ?q' = "?q\<lparr>rp_count := Suc (rp_count ?q),
    rp_lines := rp_lines ?q @ [report_line (int (rp_count ?q)) 0 (sint (pm_counter (rp_main ?q)))]\<rparr>"
  have run: "(qstep (writeBatch ref_libs ref_rocksdb no_dbs (1 / 1000000) (int 0)) (worker_limit (nw_of (1 / 1000000)) 32))\<^sup>*\<^sup>* ?q ?q'"
    by (rule r_into_rtranclp) (rule qstep.tick)
  have "\<exists>n. reports_ok n ?q'"
    using progress_reports [OF _ _ run] by (auto simp: nw_of_one)
  with run show ?thesis by (intro exI [of _ ?q']) (simp add: start_reported_def)
qed

end
