(* ===== verification/StoreTest.thy ===== *)
theory StoreTest
  imports ReadBench
begin

text \<open>
  The tests and benchmarks of \<^verbatim>\<open>src/store/store_test.go\<close>. The package \<open>require\<close> and the temporary
  directories are the parameter \<open>testlib\<close>: a failed requirement ends the test with a fault. What
  the deferred \<open>os.RemoveAll\<close> does after a failure is not observed. A benchmark returns the texts it
  gave to \<open>b.Error\<close>; \<open>b.N\<close> is an argument.
\<close>

section \<open>The tests\<close>

record 'e testlib =
  ioutil_TempDir :: "bytes \<Rightarrow> bytes \<Rightarrow> 'e \<Rightarrow> (bytes \<times> bytes option) \<times> 'e"
  test_RemoveAll :: "bytes \<Rightarrow> 'e \<Rightarrow> bytes option \<times> 'e"
  require_NoError :: "bytes option \<Rightarrow> fault option"
  require_EqualValues :: "bytes \<Rightarrow> bytes \<Rightarrow> fault option"

definition require :: "fault option \<Rightarrow> ('s, unit) io" where
  "require r = (case r of None \<Rightarrow> ret () | Some f \<Rightarrow> fail f)"

text \<open>\<open>path.Join\<close> of a clean path and a name.\<close>

definition path_Join :: "bytes \<Rightarrow> bytes \<Rightarrow> bytes" where
  "path_Join dir name = dir @ ''/'' @ name"

text \<open>\<open>val, err := s.Get(k)\<close>, no error, and the data of the slice equal to \<open>v\<close>.\<close>

definition get_equals ::
  "'e testlib \<Rightarrow> ('b, 'f, 'e) rocksdb \<Rightarrow> Store \<Rightarrow> bytes \<Rightarrow> bytes \<Rightarrow> ('b, 'f, 'e, unit) rio" where
  "get_equals T R s k v = bnd (Store_Get R s k) (\<lambda>r. case r of
     Inl e \<Rightarrow> andthen (require (require_NoError T (Some e))) (fail NilDeref)
   | Inr val \<Rightarrow> andthen (require (require_NoError T None))
       (bnd (h_bytes (Slice_Data val)) (\<lambda>bs. require (require_EqualValues T bs v))))"

definition set_one ::
  "'e testlib \<Rightarrow> ('b, 'f, 'e) rocksdb \<Rightarrow> Store \<Rightarrow> bytes \<Rightarrow> bytes \<Rightarrow> ('b, 'f, 'e, unit) rio" where
  "set_one T R s k v = bnd (Store_SetOne R s k v) (\<lambda>err. require (require_NoError T err))"

text \<open>The first lines of every test: a temporary directory, removed at the end, and a store in it.\<close>

definition with_store ::
  "'e testlib \<Rightarrow> ('b, 'f, 'e) rocksdb \<Rightarrow> (bytes \<Rightarrow> Store \<Rightarrow> ('b, 'f, 'e, unit) rio) \<Rightarrow> ('b, 'f, 'e, unit) rio" where
  "with_store T R body =
     bnd (engine (ioutil_TempDir T [] ''storetest_'')) (\<lambda>(path, err).
     andthen (require (require_NoError T err))
     (bnd (NewStore R path) (\<lambda>(s, err).
      andthen (require (require_NoError T err))
      (andthen (body path s) (andthen (engine (test_RemoveAll T path)) (ret ()))))))"

definition TestGet :: "'e testlib \<Rightarrow> ('b, 'f, 'e) rocksdb \<Rightarrow> ('b, 'f, 'e, unit) rio" where
  "TestGet T R = with_store T R (\<lambda>path s.
     andthen (set_one T R s ''mykey'' ''neo'')
     (andthen (get_equals T R s ''mykey'' ''neo'')
     (andthen (set_one T R s ''mykey'' ''the one'')
     (get_equals T R s ''mykey'' ''the one''))))"

definition TestSnapshot :: "'e testlib \<Rightarrow> ('b, 'f, 'e) rocksdb \<Rightarrow> ('b, 'f, 'e, unit) rio" where
  "TestSnapshot T R = with_store T R (\<lambda>path s.
     andthen (set_one T R s ''mykey'' ''neo'')
     (bnd (Store_NewSnapshot R s) (\<lambda>snapshot.
      andthen (set_one T R s ''mykey'' ''trinity'')
      (andthen (get_equals T R s ''mykey'' ''trinity'')
      (andthen (Store_SetSnapshot s (Some snapshot))
      (andthen (get_equals T R s ''mykey'' ''neo'')
      (andthen (Store_SetSnapshot s None)
      (get_equals T R s ''mykey'' ''trinity''))))))))"

text \<open>The error of \<open>checkpoint.Save\<close> is not looked at.\<close>

definition TestCheckpoint :: "'e testlib \<Rightarrow> ('b, 'f, 'e) rocksdb \<Rightarrow> ('b, 'f, 'e, unit) rio" where
  "TestCheckpoint T R = with_store T R (\<lambda>dbPath s.
     andthen (set_one T R s ''mykey'' ''neo'')
     (andthen (get_equals T R s ''mykey'' ''neo'')
     (bnd (Store_NewCheckpoint R s) (\<lambda>r. case r of
        Inl e \<Rightarrow> andthen (require (require_NoError T (Some e))) (fail NilDeref)
      | Inr checkpoint \<Rightarrow> andthen (require (require_NoError T None))
          (andthen (Checkpoint_Save R checkpoint (path_Join dbPath ''checkpoint''))
          (andthen (Checkpoint_Destroy R checkpoint)
          (andthen (set_one T R s ''mykey'' ''trinity'')
          (andthen (get_equals T R s ''mykey'' ''trinity'')
          (bnd (NewStore R (path_Join dbPath ''checkpoint'')) (\<lambda>(s2, err).
           andthen (require (require_NoError T err))
           (get_equals T R s2 ''mykey'' ''neo'')))))))))))"

section \<open>The benchmarks\<close>

definition key_name :: "nat \<Rightarrow> bytes" where
  "key_name i = ''key_'' @ dec i"

text \<open>The loop of \<open>SetOne\<close> calls, with its early return.\<close>

fun set_keys :: "('b, 'f, 'e) rocksdb \<Rightarrow> Store \<Rightarrow> bytes \<Rightarrow> nat list \<Rightarrow> ('b, 'f, 'e, bytes option) rio" where
  "set_keys R s buf [] = ret None"
| "set_keys R s buf (i # is) = bnd (Store_SetOne R s (key_name i) buf) (\<lambda>err. case err of
     Some e \<Rightarrow> ret (Some e) | None \<Rightarrow> set_keys R s buf is)"

definition nkeys :: nat where
  "nkeys = 100"

definition size_error :: "nat \<Rightarrow> int \<Rightarrow> bytes" where
  "size_error valSize n = ''Value size expected: '' @ dec valSize @ ''. Found: '' @ fmt_0d 0 n"

text \<open>
  One iteration. On an error of \<open>Get\<close> the slice is nil, and after the two calls of \<open>b.Error\<close> the
  method \<open>Data\<close> is called on it.
\<close>

definition get_round ::
  "('b, 'f, 'e) rocksdb \<Rightarrow> Store \<Rightarrow> nat \<Rightarrow> (('b, 'f, 'e, 'x) pstate, bytes list) io" where
  "get_round R s valSize =
     bnd (on_rng rand_Int) (\<lambda>n.
     bnd (on_world (Store_Get R s (key_name (nat n mod nkeys)))) (\<lambda>r. case r of
       Inl err \<Rightarrow> fail NilDeref
     | Inr valSlice \<Rightarrow> ret (if h_len (Slice_Data valSlice) \<noteq> int valSize
         then [size_error valSize (h_len (Slice_Data valSlice))] else [])))"

definition get_rounds ::
  "('b, 'f, 'e) rocksdb \<Rightarrow> Store \<Rightarrow> nat \<Rightarrow> nat \<Rightarrow> (('b, 'f, 'e, 'x) pstate, bytes list) io" where
  "get_rounds R s valSize bN = bnd (io_map [0..<bN] (\<lambda>_. get_round R s valSize)) (\<lambda>errs. ret (concat errs))"

text \<open>The frame of the benchmarks: an error before the loop is reported and ends the benchmark.\<close>

definition with_bench_store ::
  "'e testlib \<Rightarrow> ('b, 'f, 'e) rocksdb \<Rightarrow> (Store \<Rightarrow> (('b, 'f, 'e, 'x) pstate, bytes list) io) \<Rightarrow>
     (('b, 'f, 'e, 'x) pstate, bytes list) io" where
  "with_bench_store T R body =
     bnd (on_world (engine (ioutil_TempDir T [] ''storetest_''))) (\<lambda>(path, err). case err of
       Some e \<Rightarrow> ret [e]
     | None \<Rightarrow>
         bnd (bnd (on_world (NewStore R path)) (\<lambda>(s, err). case err of Some e \<Rightarrow> ret [e] | None \<Rightarrow> body s)) (\<lambda>errs.
         andthen (on_world (engine (test_RemoveAll T path))) (ret errs)))"

definition benchmarkGet ::
  "'e testlib \<Rightarrow> ('b, 'f, 'e) rocksdb \<Rightarrow> nat \<Rightarrow> nat \<Rightarrow> (('b, 'f, 'e, 'x) pstate, bytes list) io" where
  "benchmarkGet T R valSize bN = with_bench_store T R (\<lambda>s.
     bnd (on_world (set_keys R s (replicate valSize NUL) [0..<nkeys])) (\<lambda>err. case err of
       Some e \<Rightarrow> ret [e]
     | None \<Rightarrow> get_rounds R s valSize bN))"

definition benchmarkSet ::
  "'e testlib \<Rightarrow> ('b, 'f, 'e) rocksdb \<Rightarrow> nat \<Rightarrow> nat \<Rightarrow> (('b, 'f, 'e, 'x) pstate, bytes list) io" where
  "benchmarkSet T R valSize bN = with_bench_store T R (\<lambda>s.
     bnd (on_world (set_keys R s (replicate valSize NUL) [0..<bN])) (\<lambda>err. case err of
       Some e \<Rightarrow> ret [e]
     | None \<Rightarrow> ret []))"

section \<open>What the tests rely on\<close>

text \<open>
  A requirement that is met lets the test go on, one that is not ends it. A temporary directory is
  new, and its path contains no NUL.
\<close>

definition test_law :: "'e testlib \<Rightarrow> ('e \<Rightarrow> astate) \<Rightarrow> bool" where
  "test_law T \<alpha> \<longleftrightarrow> require_NoError T None = None \<and> (\<forall>e. require_NoError T (Some e) \<noteq> None) \<and>
     (\<forall>x y. (require_EqualValues T x y = None) = (x = y)) \<and>
     (\<forall>dir pre e path e'. ioutil_TempDir T dir pre e = ((path, None), e') \<longrightarrow>
        NUL \<notin> set path \<and> (\<forall>x. a_disk (\<alpha> e') (path @ ''/'' @ x) = None))"

definition no_error_fault :: "'e testlib \<Rightarrow> fault \<Rightarrow> bool" where
  "no_error_fault T f \<longleftrightarrow> (\<exists>e. require_NoError T (Some e) = Some f)"

text \<open>An open database behind a store.\<close>

definition holds ::
  "('e \<Rightarrow> astate) \<Rightarrow> Store \<Rightarrow> nat \<Rightarrow> readoptions \<Rightarrow> adb \<Rightarrow> ('b, 'f, 'e) world \<Rightarrow> bool" where
  "holds \<alpha> s d ro db w \<longleftrightarrow> c_ok w \<and> (\<exists>wo. store_live w s d ro wo) \<and> a_db (\<alpha> (eng w)) d = Some db"

lemma holds_keeps:
  "holds \<alpha> s d ro db w \<Longrightarrow> heap_keeps w w' \<Longrightarrow> c_ok w' \<Longrightarrow> a_db (\<alpha> (eng w')) d = Some db' \<Longrightarrow> holds \<alpha> s d ro db' w'"
  by (auto simp: holds_def intro: store_live_keeps)

lemma wpx_require:
  assumes "test_law T \<alpha>"
  shows "wpx (require (require_NoError T err)) (no_error_fault T) Q w = (err = None \<longrightarrow> Q () w)"
proof (cases err)
  case None
  then show ?thesis using assms by (simp add: test_law_def require_def)
next
  case (Some e)
  have "require_NoError T (Some e) \<noteq> None" using assms by (simp add: test_law_def)
  then obtain f where "require_NoError T (Some e) = Some f" by blast
  with Some show ?thesis by (auto simp: require_def no_error_fault_def)
qed

context rocks_kv
begin

lemma wp_set_holds:
  assumes "holds \<alpha> s d ro db w"
  shows "wp (Store_SetOne R s k v) (\<lambda>err w'. c_ok w' \<and> heap_keeps w w' \<and> (err = None \<longrightarrow>
    holds \<alpha> s d ro (db\<lparr>ad_kv := (ad_kv db)(k \<mapsto> v)\<rparr>) w' \<and> \<alpha> (eng w') = a_write d db ((ad_kv db)(k \<mapsto> v)) (\<alpha> (eng w)))) w"
proof -
  obtain wo where w: "c_ok w" "store_live w s d ro wo" "a_db (\<alpha> (eng w)) d = Some db"
    using assms by (auto simp: holds_def)
  show ?thesis
    by (rule wp_mono [OF wp_set [OF w, of k v, unfolded store_op.simps wp_bnd wp_ret]])
      (use w store_live_same [OF w(2)] in
        \<open>auto simp: err_outcome_def mem_same_def holds_def intro: heap_keeps_same [OF heap_keeps_refl]\<close>)
qed

end

lemma heap_keeps_eng: "heap_keeps (w\<lparr>eng := e\<rparr>) w' = heap_keeps w w'"
  by (simp add: heap_keeps_def)

lemma leaked_eng: "leaked w (w'\<lparr>eng := e\<rparr>) = leaked w w'"
  by (simp add: leaked_def)

lemma wpx_engine: "wpx (engine f) F Q w = (case f (eng w) of (r, e) \<Rightarrow> Q r (w\<lparr>eng := e\<rparr>))"
  by (simp add: wpx_def engine_def split: prod.splits)

locale tested = rocks_kv R \<alpha> bops
  for R :: "('b, 'f, 'e) rocksdb" and \<alpha> bops +
  fixes T :: "'e testlib"
  assumes test_law: "test_law T \<alpha>"
begin

lemmas require_simps = wpx_require [OF test_law]

lemma require_then:
  "wpx (bnd (require (require_NoError T err)) f) (no_error_fault T) Q w = (err = None \<longrightarrow> wpx (f ()) (no_error_fault T) Q w)"
  by (simp add: require_simps)

lemma wpx_set_one:
  assumes "holds \<alpha> s d ro db w"
  shows "wpx (set_one T R s k v) (no_error_fault T) (\<lambda>_ w'. heap_keeps w w' \<and>
    holds \<alpha> s d ro (db\<lparr>ad_kv := (ad_kv db)(k \<mapsto> v)\<rparr>) w' \<and>
    \<alpha> (eng w') = a_write d db ((ad_kv db)(k \<mapsto> v)) (\<alpha> (eng w))) w"
  unfolding set_one_def wpx_bnd require_simps by (rule wp_wpx [OF wp_set_holds [OF assms]]) auto

lemma wpx_get_equals:
  assumes "holds \<alpha> s d ro db w" "snapshot ro = 0 \<or> a_snap (\<alpha> (eng w)) (snapshot ro) \<noteq> None"
    and "a_view (\<alpha> (eng w)) db ro k = Some v"
  shows "wpx (get_equals T R s k v) (no_error_fault T) (\<lambda>_ w'. heap_keeps w w' \<and> holds \<alpha> s d ro db w' \<and>
    \<alpha> (eng w') = \<alpha> (eng w)) w"
proof -
  obtain wo where w: "c_ok w" "store_live w s d ro wo" "a_db (\<alpha> (eng w)) d = Some db"
    using assms(1) by (auto simp: holds_def)
  have "require_EqualValues T v v = None" using test_law by (simp add: test_law_def)
  then have eq: "wpx (require (require_EqualValues T v v)) F Q w' = Q () w'" for F Q and w' :: "('b, 'f, 'e) world"
    by (simp add: require_def)
  have read: "wpx (h_bytes (Slice_Data (NewSlice (CPtr p) (length v)))) F Q w' = Q v w'"
    if "c_heap w' p = Some (Chars v)" "length v < 2 ^ 63" for p F Q and w' :: "('b, 'f, 'e) world"
    using wp_h_bytes_block [OF that, of "\<lambda>x y. x = v \<and> y = w'"] by (auto simp: wp_def wpx_def split: sum.splits)
  show ?thesis
    unfolding get_equals_def wpx_bnd
    by (rule wp_wpx [OF wp_get_slice [OF w assms(2), of k]])
      (use assms(1,3) w holds_keeps [OF assms(1)] in
        \<open>auto simp: require_simps read eq split: sum.splits\<close>)
qed


text \<open>The requirements of a test on values, with any key and values.\<close>

lemma wpx_get_body:
  assumes "holds \<alpha> s d ro db w" "snapshot ro = 0"
  shows "wpx (andthen (set_one T R s k v1) (andthen (get_equals T R s k v1)
    (andthen (set_one T R s k v2) (get_equals T R s k v2)))) (no_error_fault T) (\<lambda>_ _. True) w"
proof -
  have look: "wpx (get_equals T R s k v) (no_error_fault T) (\<lambda>_. holds \<alpha> s d ro (db'\<lparr>ad_kv := (ad_kv db')(k \<mapsto> v)\<rparr>)) w1"
    if "holds \<alpha> s d ro (db'\<lparr>ad_kv := (ad_kv db')(k \<mapsto> v)\<rparr>) w1" for w1 v db'
    by (rule wpx_mono [OF wpx_get_equals [OF that]]) (use assms(2) in \<open>auto simp: a_view_def\<close>)
  have set: "wpx (set_one T R s k v) (no_error_fault T) (\<lambda>_. holds \<alpha> s d ro (db'\<lparr>ad_kv := (ad_kv db')(k \<mapsto> v)\<rparr>)) w1"
    if "holds \<alpha> s d ro db' w1" for w1 v db'
    by (rule wpx_mono [OF wpx_set_one [OF that]]) simp
  show ?thesis
    by (rule wpx_seq [OF set [OF assms(1)]], rule wpx_seq [OF look], assumption, rule wpx_seq [OF set], assumption,
        rule wpx_mono [OF look], assumption) simp
qed

end

locale tested_dir = tested R \<alpha> bops T + rocks_dir R \<alpha> bops
  for R :: "('b, 'f, 'e) rocksdb" and \<alpha> bops and T :: "'e testlib"
begin

lemma wpx_with_store:
  assumes "c_ok w"
    and "\<And>path s d db w1. NUL \<notin> set path \<Longrightarrow> \<forall>x. a_disk (\<alpha> (eng w1)) (path @ ''/'' @ x) = None \<Longrightarrow>
      holds \<alpha> s d (def_readoptions R) db w1 \<Longrightarrow> wpx (body path s) (no_error_fault T) (\<lambda>_ _. True) w1"
  shows "wpx (with_store T R body) (no_error_fault T) (\<lambda>_ _. True) w"
proof -
  have body: "wpx (andthen (body path s) (andthen (engine (test_RemoveAll T path)) (ret ()))) (no_error_fault T) (\<lambda>_ _. True) w2"
    if path: "NUL \<notin> set path" "\<forall>x. a_disk (\<alpha> (eng w1)) (path @ ''/'' @ x) = None" and o: "c_ok w2" "open_result R \<alpha> (cstr path) w1 s w2"
    for path s w1 w2
  proof -
    obtain d wo where o': "store_live w2 s d (def_readoptions R) wo"
        "a_db (\<alpha> (eng w2)) d = Some \<lparr>ad_name = cstr path, ad_rw = True, ad_kv = disk_contents (\<alpha> (eng w1)) (cstr path)\<rparr>"
        "a_disk (\<alpha> (eng w2)) = (a_disk (\<alpha> (eng w1)))(cstr path \<mapsto> disk_contents (\<alpha> (eng w1)) (cstr path))"
      using o(2) by (auto simp: open_result_def)
    have "cstr path = path" using path(1) by simp
    then have "\<forall>x. a_disk (\<alpha> (eng w2)) (path @ ''/'' @ x) = None" using path(2) o'(3) by simp
    from assms(2) [OF path(1) this] o(1) o'(1,2) show ?thesis
      by (intro wpx_seq [of _ _ "\<lambda>_ _. True"]) (auto simp: holds_def wpx_engine split: prod.splits)
  qed
  obtain path err e where t: "ioutil_TempDir T [] ''storetest_'' (eng w) = ((path, err), e)"
    by (metis prod.exhaust)
  have "wpx (bnd (NewStore R path) (\<lambda>(s, err). andthen (require (require_NoError T err))
      (andthen (body path s) (andthen (engine (test_RemoveAll T path)) (ret ()))))) (no_error_fault T) (\<lambda>_ _. True) (w\<lparr>eng := e\<rparr>)"
    if "err = None"
  proof -
    have path: "NUL \<notin> set path" "\<forall>x. a_disk (\<alpha> (eng (w\<lparr>eng := e\<rparr>))) (path @ ''/'' @ x) = None"
      using t that test_law by (auto simp: test_law_def)
    have w1: "c_ok (w\<lparr>eng := e\<rparr>)" using assms(1) by simp
    show ?thesis
      by (rule wpx_seq [OF wp_wpx [OF wp_open [OF w1]]], assumption)
        (auto simp: require_then simp del: wpx_bnd intro!: body [OF path])
  qed
  then show ?thesis
    by (simp add: with_store_def wpx_engine t require_simps split_def)
qed

lemma wpx_open_equals:
  assumes "c_ok w" "disk_contents (\<alpha> (eng w)) (cstr dir) k = Some v"
  shows "wpx (bnd (NewStore R dir) (\<lambda>(s2, err). andthen (require (require_NoError T err)) (get_equals T R s2 k v)))
    (no_error_fault T) (\<lambda>_ _. True) w"
proof -
  have get: "wpx (get_equals T R s2 k v) (no_error_fault T) (\<lambda>_ _. True) w1"
    if w1: "c_ok w1" "open_result R \<alpha> (cstr dir) w s2 w1" for s2 w1
  proof -
    obtain d wo where "store_live w1 s2 d (def_readoptions R) wo"
        "a_db (\<alpha> (eng w1)) d = Some \<lparr>ad_name = cstr dir, ad_rw = True, ad_kv = disk_contents (\<alpha> (eng w)) (cstr dir)\<rparr>"
      using w1(2) by (auto simp: open_result_def)
    then show ?thesis
      by (intro wpx_mono [OF wpx_get_equals [of s2 d "def_readoptions R" "\<lparr>ad_name = cstr dir, ad_rw = True, ad_kv = disk_contents (\<alpha> (eng w)) (cstr dir)\<rparr>"]])
        (use w1(1) assms(2) default_snapshot in \<open>auto simp: holds_def a_view_def\<close>)
  qed
  show ?thesis
    by (rule wpx_seq [OF wp_wpx [OF wp_open [OF assms(1)]]], assumption)
      (auto simp: require_then simp del: wpx_bnd intro!: get)
qed

lemma wpx_checkpoint_body:
  assumes "holds \<alpha> s d ro db w" "snapshot ro = 0" "saves R \<alpha>" "a_disk (\<alpha> (eng w)) (cstr dir) = None"
  shows "wpx (andthen (set_one T R s k v1) (andthen (get_equals T R s k v1) (bnd (Store_NewCheckpoint R s) (\<lambda>r. case r of
      Inl e \<Rightarrow> andthen (require (require_NoError T (Some e))) (fail NilDeref)
    | Inr cp \<Rightarrow> andthen (require (require_NoError T None)) (andthen (Checkpoint_Save R cp dir) (andthen (Checkpoint_Destroy R cp)
        (andthen (set_one T R s k v2) (andthen (get_equals T R s k v2)
        (bnd (NewStore R dir) (\<lambda>(s2, err). andthen (require (require_NoError T err)) (get_equals T R s2 k v1)))))))))))
    (no_error_fault T) (\<lambda>_ _. True) w"
proof -
  let ?db1 = "db\<lparr>ad_kv := (ad_kv db)(k \<mapsto> v1)\<rparr>"
  let ?db2 = "db\<lparr>ad_kv := (ad_kv db)(k \<mapsto> v2)\<rparr>"
  let ?new = "\<lambda>w. disk_contents (\<alpha> (eng w)) (cstr dir) = ad_kv ?db1"
  have set1: "wpx (set_one T R s k v1) (no_error_fault T) (\<lambda>_ w1. holds \<alpha> s d ro ?db1 w1 \<and> a_disk (\<alpha> (eng w1)) (cstr dir) = None) w"
    by (rule wpx_mono [OF wpx_set_one [OF assms(1)]]) (use assms(4) in auto)
  have get1: "wpx (get_equals T R s k v1) (no_error_fault T) (\<lambda>_ w2. holds \<alpha> s d ro ?db1 w2 \<and> a_disk (\<alpha> (eng w2)) (cstr dir) = None) w1"
    if "holds \<alpha> s d ro ?db1 w1 \<and> a_disk (\<alpha> (eng w1)) (cstr dir) = None" for w1
    by (rule wpx_mono [OF wpx_get_equals [OF conjunct1 [OF that]]]) (use that assms(2) in \<open>auto simp: a_view_def\<close>)
  have save: "wpx (andthen (Checkpoint_Save R cp dir) (Checkpoint_Destroy R cp)) (no_error_fault T)
      (\<lambda>_ w4. holds \<alpha> s d ro ?db1 w4 \<and> ?new w4) w3"
    if w2: "holds \<alpha> s d ro ?db1 w2 \<and> a_disk (\<alpha> (eng w2)) (cstr dir) = None" and at: "checkpoint_at \<alpha> d w2 cp w3" for cp w2 w3
  proof -
    have "a_db (\<alpha> (eng w2)) d = Some ?db1" using w2 by (simp add: holds_def)
    note destroy = wp_save_destroy [OF at this, of dir]
    show ?thesis unfolding wpx_bnd
      by (rule wp_wpx [OF destroy], erule wp_wpx) (use w2 assms(3) in \<open>auto intro: holds_keeps\<close>)
  qed
  have set2: "wpx (set_one T R s k v2) (no_error_fault T) (\<lambda>_ w5. holds \<alpha> s d ro ?db2 w5 \<and> ?new w5) w4"
    if "holds \<alpha> s d ro ?db1 w4 \<and> ?new w4" for w4
    by (rule wpx_mono [OF wpx_set_one [OF conjunct1 [OF that]]]) (use that in \<open>auto simp: disk_contents_def\<close>)
  have get2: "wpx (get_equals T R s k v2) (no_error_fault T) (\<lambda>_ w6. holds \<alpha> s d ro ?db2 w6 \<and> ?new w6) w5"
    if "holds \<alpha> s d ro ?db2 w5 \<and> ?new w5" for w5
    by (rule wpx_mono [OF wpx_get_equals [OF conjunct1 [OF that]]]) (use that assms(2) in \<open>auto simp: a_view_def\<close>)
  have rest: "wpx (andthen (Checkpoint_Save R cp dir) (andthen (Checkpoint_Destroy R cp)
        (andthen (set_one T R s k v2) (andthen (get_equals T R s k v2)
        (bnd (NewStore R dir) (\<lambda>(s2, err). andthen (require (require_NoError T err)) (get_equals T R s2 k v1)))))))
      (no_error_fault T) (\<lambda>_ _. True) w3"
    if "holds \<alpha> s d ro ?db1 w2 \<and> a_disk (\<alpha> (eng w2)) (cstr dir) = None" "checkpoint_at \<alpha> d w2 cp w3" for cp w2 w3
    by (subst bnd_assoc [symmetric], rule wpx_seq [OF save [OF that]], rule wpx_seq [OF set2], assumption,
        rule wpx_seq [OF get2], assumption, rule wpx_open_equals) (auto simp: holds_def)
  have new: "wp (Store_NewCheckpoint R s) (\<lambda>r w3. \<forall>cp. r = Inr cp \<longrightarrow> checkpoint_at \<alpha> d w2 cp w3) w2"
    if "holds \<alpha> s d ro ?db1 w2 \<and> a_disk (\<alpha> (eng w2)) (cstr dir) = None" for w2
    using that wp_checkpoint_new unfolding holds_def by blast
  show ?thesis
    by (rule wpx_seq [OF set1], rule wpx_seq [OF get1], assumption, rule wpx_seq [OF wp_wpx [OF new]], assumption, assumption)
      (auto simp: require_then simp del: wpx_bnd split: sum.splits intro: rest)
qed

end

locale tested_snap = tested_dir R \<alpha> bops T + rocks_snap R \<alpha> bops
  for R :: "('b, 'f, 'e) rocksdb" and \<alpha> bops and T :: "'e testlib"
begin

lemma wpx_switch_snapshot:
  assumes "holds \<alpha> s d ro db w"
    and "case sn of None \<Rightarrow> x = 0 \<and> m = ad_kv db
      | Some t \<Rightarrow> c_heap w (sn_c t) = Some (Obj (SnapObj x)) \<and> x \<noteq> 0 \<and> a_snap (\<alpha> (eng w)) x = Some m"
    and "m k = Some v"
  shows "wpx (andthen (Store_SetSnapshot s sn) (get_equals T R s k v)) (no_error_fault T)
    (\<lambda>_. holds \<alpha> s d (ro\<lparr>snapshot := x\<rparr>) db) w"
proof -
  obtain wo where w: "c_ok w" "store_live w s d ro wo" "a_db (\<alpha> (eng w)) d = Some db"
    using assms(1) by (auto simp: holds_def)
  have switch: "wp (Store_SetSnapshot s sn) (\<lambda>_ w'. holds \<alpha> s d (ro\<lparr>snapshot := x\<rparr>) db w' \<and> eng w' = eng w) w"
    by (rule wp_mono [OF wp_Store_SetSnapshot [OF w(1,2)]])
      (use assms(2) w(3) in \<open>auto simp: holds_def split: option.splits\<close>)
  show ?thesis
    by (rule wpx_seq [OF wp_wpx [OF switch]], assumption)
      (use assms(2,3) in \<open>auto simp: a_view_def split: option.splits intro!: wpx_mono [OF wpx_get_equals]\<close>)
qed

text \<open>Reads after the snapshot \<open>x\<close> was taken of the contents \<open>m1\<close>.\<close>

lemma wpx_snapshot_reads:
  assumes "holds \<alpha> s d ro db w" "snapshot ro = 0" "c_heap w (sn_c sn) = Some (Obj (SnapObj x))" "x \<noteq> 0"
    and "a_snap (\<alpha> (eng w)) x = Some m1" "m1 k = Some v1"
  shows "wpx (andthen (set_one T R s k v2) (andthen (get_equals T R s k v2)
    (andthen (Store_SetSnapshot s (Some sn)) (andthen (get_equals T R s k v1)
    (andthen (Store_SetSnapshot s None) (get_equals T R s k v2)))))) (no_error_fault T) (\<lambda>_ _. True) w"
proof -
  let ?db2 = "db\<lparr>ad_kv := (ad_kv db)(k \<mapsto> v2)\<rparr>"
  let ?P = "\<lambda>w'. holds \<alpha> s d ro ?db2 w' \<and> heap_keeps w w' \<and> a_snap (\<alpha> (eng w')) x = Some m1"
  have set2: "wpx (set_one T R s k v2) (no_error_fault T) (\<lambda>_. ?P) w"
    by (rule wpx_mono [OF wpx_set_one [OF assms(1)]]) (use assms(5) in auto)
  have get2: "wpx (get_equals T R s k v2) (no_error_fault T) (\<lambda>_. ?P) w3" if "?P w3" for w3
    by (rule wpx_mono [OF wpx_get_equals [OF conjunct1 [OF that]]])
      (use that assms(2) in \<open>auto simp: a_view_def intro: heap_keeps_trans\<close>)
  have under: "wpx (andthen (Store_SetSnapshot s (Some sn)) (get_equals T R s k v1)) (no_error_fault T)
      (\<lambda>_. holds \<alpha> s d (ro\<lparr>snapshot := x\<rparr>) ?db2) w4" if "?P w4" for w4
    by (rule wpx_switch_snapshot [where m = m1]) (use that assms(3,4,6) heap_keepsD in auto)
  have drop: "wpx (andthen (Store_SetSnapshot s None) (get_equals T R s k v2)) (no_error_fault T) (\<lambda>_ _. True) w5"
    if "holds \<alpha> s d (ro\<lparr>snapshot := x\<rparr>) ?db2 w5" for w5
    by (rule wpx_mono [OF wpx_switch_snapshot [OF that, where x = 0 and m = "ad_kv ?db2"]]) auto
  show ?thesis
    by (rule wpx_seq [OF set2], rule wpx_seq [OF get2], assumption,
        subst bnd_assoc [symmetric], rule wpx_seq [OF under], assumption, rule drop)
qed

lemma wpx_snapshot_body:
  assumes "holds \<alpha> s d ro db w" "snapshot ro = 0" "snapshots R \<alpha>"
  shows "wpx (andthen (set_one T R s k v1) (bnd (Store_NewSnapshot R s) (\<lambda>sn.
    andthen (set_one T R s k v2) (andthen (get_equals T R s k v2)
    (andthen (Store_SetSnapshot s (Some sn)) (andthen (get_equals T R s k v1)
    (andthen (Store_SetSnapshot s None) (get_equals T R s k v2)))))))) (no_error_fault T) (\<lambda>_ _. True) w"
proof -
  let ?db1 = "db\<lparr>ad_kv := (ad_kv db)(k \<mapsto> v1)\<rparr>"
  have snap: "wpx (Store_NewSnapshot R s) (no_error_fault T) (\<lambda>sn w2. holds \<alpha> s d ro ?db1 w2 \<and>
      (\<exists>x. c_heap w2 (sn_c sn) = Some (Obj (SnapObj x)) \<and> x \<noteq> 0 \<and> a_snap (\<alpha> (eng w2)) x = Some (ad_kv ?db1))) w1"
    if w1: "holds \<alpha> s d ro ?db1 w1" for w1
  proof -
    obtain wo where "c_ok w1" "store_live w1 s d ro wo" "a_db (\<alpha> (eng w1)) d = Some ?db1"
      using w1 by (auto simp: holds_def)
    moreover from this(3) have sn: "fst (db_GetSnapshot R d (eng w1)) \<noteq> 0" using assms(3) by (simp add: snapshots_def)
    ultimately show ?thesis
      by (intro wp_wpx [OF wp_snapshot_new [OF _ _ _ refl sn]]) (use w1 sn in \<open>auto simp: holds_def intro: holds_keeps store_live_keeps\<close>)
  qed
  show ?thesis
    by (rule wpx_seq [OF wpx_mono [OF wpx_set_one [OF assms(1)]], where P = "\<lambda>_. holds \<alpha> s d ro ?db1"], simp,
        rule wpx_seq [OF snap], assumption) (auto simp del: wpx_bnd intro: wpx_snapshot_reads [OF _ assms(2)])
qed

end

section \<open>What the benchmarks do\<close>

lemma wpx_rand_Int: "wpx rand_Int F Q g = Q (int (rg_src g (rg_pos g) mod 2 ^ 63)) (g\<lparr>rg_pos := Suc (rg_pos g)\<rparr>)"
  by (simp add: rand_Int_def Int63_def wpx_def)

definition keys_set :: "('e \<Rightarrow> astate) \<Rightarrow> Store \<Rightarrow> nat \<Rightarrow> readoptions \<Rightarrow> bytes \<Rightarrow> nat list \<Rightarrow> ('b, 'f, 'e) world \<Rightarrow> bool" where
  "keys_set \<alpha> s d ro buf is w \<longleftrightarrow> (\<exists>db. holds \<alpha> s d ro db w \<and> (\<forall>i \<in> set is. ad_kv db (key_name i) = Some buf))"

context rocks_kv
begin

lemma wp_set_keys:
  assumes "holds \<alpha> s d ro db w" "\<forall>i \<in> set done. ad_kv db (key_name i) = Some buf"
  shows "wp (set_keys R s buf is) (\<lambda>err w'. c_ok w' \<and> heap_keeps w w' \<and> (err = None \<longrightarrow> keys_set \<alpha> s d ro buf (is @ done) w')) w"
  using assms
proof (induction "is" arbitrary: w db "done")
  case Nil
  then show ?case by (auto simp: keys_set_def holds_def)
next
  case (Cons i "is")
  have next_key: "wp (set_keys R s buf is) (\<lambda>err w'. c_ok w' \<and> heap_keeps w w' \<and>
      (err = None \<longrightarrow> keys_set \<alpha> s d ro buf (i # is @ done) w')) w1"
    if "holds \<alpha> s d ro (db\<lparr>ad_kv := (ad_kv db)(key_name i \<mapsto> buf)\<rparr>) w1" "heap_keeps w w1" for w1
    by (rule wp_mono [OF Cons.IH [OF that(1), of "i # done"]])
      (use Cons.prems(2) heap_keeps_trans [OF that(2)] in \<open>auto simp: keys_set_def\<close>)
  show ?case
    unfolding set_keys.simps wp_bnd
    by (rule wp_mono [OF wp_set_holds [OF Cons.prems(1)]]) (auto split: option.splits intro: next_key)
qed

lemma wpx_get_round:
  assumes "keys_set \<alpha> s d ro (replicate valSize NUL) [0..<nkeys] (ps_world st)" "snapshot ro = 0" "heap_keeps w0 (ps_world st)" "valSize < 2 ^ 63"
  shows "wpx (get_round R s valSize) (\<lambda>f. f = NilDeref \<and> \<not> serves R \<alpha>) (\<lambda>errs st'. errs = [] \<and>
    keys_set \<alpha> s d ro (replicate valSize NUL) [0..<nkeys] (ps_world st') \<and> heap_keeps w0 (ps_world st') \<and>
    leaked w0 (ps_world st') = Suc (leaked w0 (ps_world st))) st"
proof -
  obtain db wo where w: "c_ok (ps_world st)" "store_live (ps_world st) s d ro wo" "a_db (\<alpha> (eng (ps_world st))) d = Some db"
      and db: "\<forall>i \<in> set [0..<nkeys]. ad_kv db (key_name i) = Some (replicate valSize NUL)"
    using assms(1) by (auto simp: keys_set_def holds_def)
  have view: "a_view a db ro (key_name (n mod nkeys)) = Some (replicate valSize NUL)" for a n
    using db assms(2) by (simp add: a_view_def nkeys_def)
  have len: "h_len (Slice_Data (NewSlice p (length (replicate valSize NUL)))) = int valSize" for p
    using assms(4) by (simp add: Slice_Data_def NewSlice_def charToByte_def)
  have get: "wp (Store_Get R s (key_name (n mod nkeys))) (\<lambda>r w'. c_ok w' \<and> heap_keeps (ps_world st) w' \<and> \<alpha> (eng w') = \<alpha> (eng (ps_world st)) \<and>
      (case r of Inl e \<Rightarrow> \<not> serves R \<alpha> | Inr sl \<Rightarrow> h_len (Slice_Data sl) = int valSize \<and>
        leaked w0 w' = Suc (leaked w0 (ps_world st)))) (ps_world st)" for n
    by (rule wp_mono [OF wp_get_slice [OF w]])
      (use assms(2) len leaked_alloc [OF assms(3) w(1)] in \<open>auto simp: view split: sum.splits\<close>)
  have keys: "keys_set \<alpha> s d ro (replicate valSize NUL) [0..<nkeys] w'"
    if "c_ok w'" "heap_keeps (ps_world st) w'" "\<alpha> (eng w') = \<alpha> (eng (ps_world st))" for w'
    using that w db unfolding keys_set_def holds_def by (metis store_live_keeps)
  show ?thesis
    unfolding get_round_def
    by (simp add: wpx_rand_Int, rule wp_wpx [OF get])
      (auto split: sum.splits intro: keys heap_keeps_trans [OF assms(3)])
qed

lemma wpx_get_rounds:
  assumes "keys_set \<alpha> s d ro (replicate valSize NUL) [0..<nkeys] (ps_world st)" "snapshot ro = 0" "heap_keeps w0 (ps_world st)" "valSize < 2 ^ 63"
  shows "wpx (io_map xs (\<lambda>_. get_round R s valSize)) (\<lambda>f. f = NilDeref \<and> \<not> serves R \<alpha>)
    (\<lambda>errs st'. concat errs = [] \<and> leaked w0 (ps_world st') = length xs + leaked w0 (ps_world st)) st"
  using assms(1,3)
proof (induction xs arbitrary: st)
  case (Cons x xs)
  show ?case
    unfolding io_map.simps
    by (rule wpx_seq [OF wpx_get_round [OF Cons.prems(1) assms(2) Cons.prems(2) assms(4)]])
      (auto intro!: wpx_mono [OF Cons.IH])
qed simp

end

context rocks_dir
begin

lemma wpx_with_bench_store:
  fixes st :: "('a, 'b, 'c, 'd) pstate"
  assumes "c_ok (ps_world st)" "\<And>e st1. Q [e] st1"
    and "\<And>errs e (st1 :: ('a, 'b, 'c, 'd) pstate). Q errs st1 \<Longrightarrow> Q errs (st1\<lparr>ps_world := (ps_world st1)\<lparr>eng := e\<rparr>\<rparr>)"
    and "\<And>s d db st1. holds \<alpha> s d (def_readoptions R) db (ps_world st1) \<Longrightarrow> heap_keeps (ps_world st) (ps_world st1) \<Longrightarrow>
      wpx (body s) F Q st1"
  shows "wpx (with_bench_store T R body) F Q st"
proof -
  obtain path err e where t: "ioutil_TempDir T [] ''storetest_'' (eng (ps_world st)) = ((path, err), e)"
    by (metis prod.exhaust)
  let ?w = "(ps_world st)\<lparr>eng := e\<rparr>"
  have w: "c_ok ?w" using assms(1) by simp
  have opened: "\<exists>d db. holds \<alpha> s d (def_readoptions R) db w1" if "c_ok w1" "open_result R \<alpha> n w0 s w1" for n w0 s w1
    using that by (fastforce simp: open_result_def holds_def)
  have "wpx (bnd (on_world (NewStore R path)) (\<lambda>(s, err). case err of Some e \<Rightarrow> ret [e] | None \<Rightarrow> body s)) F Q (st\<lparr>ps_world := ?w\<rparr>)"
    unfolding wpx_bnd wpx_on
    by (simp, rule wp_wpx [OF wp_open [OF w]])
      (auto split: option.splits simp: heap_keeps_eng assms(2) dest!: opened intro!: assms(4))
  then show ?thesis
    unfolding with_bench_store_def
    by (auto simp: wpx_engine t assms(2) split: option.splits prod.splits elim!: wpx_mono intro: assms(3))
qed

lemma wpx_benchmarkGet:
  assumes "c_ok (ps_world st)" "valSize < 2 ^ 63"
  shows "wpx (benchmarkGet T R valSize bN) (\<lambda>f. f = NilDeref \<and> \<not> serves R \<alpha>)
    (\<lambda>errs st'. (\<exists>e. errs = [e]) \<or> errs = [] \<and> bN \<le> leaked (ps_world st) (ps_world st')) st" (is "wpx _ ?F ?Q st")
  unfolding benchmarkGet_def
proof (rule wpx_with_bench_store [OF assms(1)])
  let ?buf = "replicate valSize NUL"
  fix s d db and st1 :: "('a, 'b, 'c, 'd) pstate"
  assume o: "holds \<alpha> s d (def_readoptions R) db (ps_world st1)" "heap_keeps (ps_world st) (ps_world st1)"
  have reads: "wpx (get_rounds R s valSize bN) ?F ?Q st2"
    if "keys_set \<alpha> s d (def_readoptions R) ?buf [0..<nkeys] (ps_world st2)" "heap_keeps (ps_world st) (ps_world st2)"
    for st2 :: "('a, 'b, 'c, 'd) pstate"
    unfolding get_rounds_def
    by (rule wpx_seq [OF wpx_get_rounds [where xs = "[0..<bN]", OF that(1) default_snapshot that(2) assms(2)]]) auto
  note set = wp_set_keys [OF o(1), of "[]" ?buf "[0..<nkeys]"]
  show "wpx (bnd (on_world (set_keys R s ?buf [0..<nkeys])) (\<lambda>err. case err of Some e \<Rightarrow> ret [e] | None \<Rightarrow> get_rounds R s valSize bN)) ?F ?Q st1"
    by (simp, rule wp_wpx [OF set]) (auto split: option.splits intro!: reads intro: heap_keeps_trans [OF o(2)])
qed (auto simp: leaked_eng)

lemma wpx_benchmarkSet:
  assumes "c_ok (ps_world st)"
  shows "wpx (benchmarkSet T R valSize bN) (\<lambda>_. False) (\<lambda>errs _. length errs \<le> 1) st"
  unfolding benchmarkSet_def
proof (rule wpx_with_bench_store [OF assms(1)])
  fix s d db and st1 :: "('a, 'b, 'c, 'd) pstate"
  assume o: "holds \<alpha> s d (def_readoptions R) db (ps_world st1)"
  show "wpx (bnd (on_world (set_keys R s (replicate valSize NUL) [0..<bN])) (\<lambda>err. case err of Some e \<Rightarrow> ret [e] | None \<Rightarrow> ret []))
      (\<lambda>_. False) (\<lambda>errs _. length errs \<le> 1) st1"
    by (simp, rule wp_wpx [OF wp_set_keys [OF o, of "[]"]]) (auto split: option.splits)
qed auto

end

section \<open>A reference instance\<close>

text \<open>A temporary directory that fails to be made when something below it exists.\<close>

definition ref_testlib :: "engine_state testlib" where
  "ref_testlib = \<lparr>
     ioutil_TempDir = (\<lambda>dir pre e. ((''/tmp/t'', if list_ex (\<lambda>x. prefix ''/tmp/t/'' (fst x)) (e_dirs e) then Some ''exists'' else None), e)),
     test_RemoveAll = (\<lambda>p e. (None, e\<lparr>e_dirs := filter (\<lambda>x. \<not> prefix p (fst x)) (e_dirs e)\<rparr>)),
     require_NoError = (\<lambda>err. case err of None \<Rightarrow> None | Some e \<Rightarrow> Some (Fatal e)),
     require_EqualValues = (\<lambda>x y. if x = y then None else Some (Fatal ''Not equal''))\<rparr>"

lemma ref_test_law: "test_law ref_testlib ref_abs"
proof -
  have "map_of xs (''/tmp/t/'' @ x) = None" if "\<not> list_ex (\<lambda>x. prefix ''/tmp/t/'' (fst x)) xs" for xs :: "(bytes \<times> kvlist) list" and x
    using that by (force simp: list_ex_iff map_of_eq_None_iff prefix_def simp del: append_Cons)
  then show ?thesis
    by (auto simp: test_law_def ref_testlib_def ref_abs_def split: if_splits)
qed

interpretation ref_test: tested ref_rocksdb ref_abs "\<lambda>b. b" ref_testlib
  by unfold_locales (rule ref_test_law)

interpretation ref_test: tested_dir ref_rocksdb ref_abs "\<lambda>b. b" ref_testlib
  by unfold_locales

interpretation ref_test: tested_snap ref_rocksdb ref_abs "\<lambda>b. b" ref_testlib
  by unfold_locales

section \<open>Properties\<close>

text \<open>
  C12. The tests of the store can only fail because a call reports an error: on an engine that makes
  snapshots and checkpoints, from any state, no test fails in a comparison of values, panics or
  touches memory it must not.
\<close>

theorem store_tests_pass:
  assumes "rocks_dir R \<alpha> bops" and "rocks_snap R \<alpha> bops" and "test_law T \<alpha>"
    and "saves R \<alpha>" and "snapshots R \<alpha>" and "c_ok w"
  shows "wpx (TestGet T R) (no_error_fault T) (\<lambda>_ _. True) w \<and>
    wpx (TestSnapshot T R) (no_error_fault T) (\<lambda>_ _. True) w \<and>
    wpx (TestCheckpoint T R) (no_error_fault T) (\<lambda>_ _. True) w"
proof -
  have kv: "rocks_kv R \<alpha> bops" using assms(1) by (rule rocks_dir.axioms)
  then have "tested R \<alpha> bops T" using assms(3) by (simp add: tested_def tested_axioms_def)
  then have dir: "tested_dir R \<alpha> bops T" using assms(1) by (simp add: tested_dir_def)
  then have snap: "tested_snap R \<alpha> bops T" using assms(2) by (simp add: tested_snap_def)
  have ro: "snapshot (def_readoptions R) = 0" using kv by (rule rocks_kv.default_snapshot)
  have path: "cstr (path_Join path ''checkpoint'') = path @ ''/'' @ ''checkpoint''" if "NUL \<notin> set path" for path
    using that by (simp add: path_Join_def)
  show ?thesis
  proof (intro conjI)
    show "wpx (TestGet T R) (no_error_fault T) (\<lambda>_ _. True) w"
      unfolding TestGet_def
      by (rule tested_dir.wpx_with_store [OF dir assms(6)]) (rule tested.wpx_get_body [OF \<open>tested R \<alpha> bops T\<close> _ ro])
    show "wpx (TestSnapshot T R) (no_error_fault T) (\<lambda>_ _. True) w"
      unfolding TestSnapshot_def
      by (rule tested_dir.wpx_with_store [OF dir assms(6)]) (rule tested_snap.wpx_snapshot_body [OF snap _ ro assms(5)])
    show "wpx (TestCheckpoint T R) (no_error_fault T) (\<lambda>_ _. True) w"
      unfolding TestCheckpoint_def
      by (rule tested_dir.wpx_with_store [OF dir assms(6)], rule tested_dir.wpx_checkpoint_body [OF dir _ ro assms(4)], assumption)
        (simp add: path)
  qed
qed

theorem store_tests_pass_witness:
  "wpx (TestGet ref_testlib ref_rocksdb) (no_error_fault ref_testlib) (\<lambda>_ _. True) world_init \<and>
   wpx (TestSnapshot ref_testlib ref_rocksdb) (no_error_fault ref_testlib) (\<lambda>_ _. True) world_init \<and>
   wpx (TestCheckpoint ref_testlib ref_rocksdb) (no_error_fault ref_testlib) (\<lambda>_ _. True) world_init"
  by (rule store_tests_pass [OF ref.rocks_dir_axioms ref.rocks_snap_axioms ref_test_law ref_saves ref_snapshots c_ok_world_init])



end
