(* ===== verification/ExtraBench.thy ===== *)
theory ExtraBench
  imports Rand
begin

text \<open>
  The benchmarks of \<^verbatim>\<open>src/extra\<close>: reading a file of 64 MiB in small pieces from a memory map or from
  memory, and one large write. Files are a parameter, \<open>osfile\<close>, over the state outside the program;
  a file is a number. Of \<open>bytes.Buffer\<close> the rest that is not yet read is modelled. The state also
  holds the random source.
\<close>

section \<open>Files, buffers and names\<close>

record 'x osfile =
  f_Check :: "bytes option \<Rightarrow> fault option"
  f_AssertTruef :: "bool \<Rightarrow> fault option"
  f_OpenFile :: "bytes \<Rightarrow> 'x \<Rightarrow> (nat \<times> bytes option) \<times> 'x"
  f_TempFile :: "bytes \<Rightarrow> bytes \<Rightarrow> 'x \<Rightarrow> (nat option \<times> bytes option) \<times> 'x"
  f_Write :: "nat \<Rightarrow> bytes \<Rightarrow> 'x \<Rightarrow> (int \<times> bytes option) \<times> 'x"
  f_Read :: "nat \<Rightarrow> nat \<Rightarrow> 'x \<Rightarrow> (int \<times> bytes option) \<times> 'x"
  f_ReadAt :: "nat \<Rightarrow> bytes \<Rightarrow> int \<Rightarrow> 'x \<Rightarrow> bytes \<times> 'x"
  f_Mmap :: "nat \<Rightarrow> nat \<Rightarrow> 'x \<Rightarrow> (bytes \<times> bytes option) \<times> 'x"
  f_Munmap :: "bytes \<Rightarrow> 'x \<Rightarrow> bytes option \<times> 'x"
  f_Close :: "nat \<Rightarrow> 'x \<Rightarrow> bytes option \<times> 'x"
  f_Remove :: "bytes \<Rightarrow> 'x \<Rightarrow> bytes option \<times> 'x"
  f_Name :: "nat \<Rightarrow> bytes"

type_synonym ('x, 'a) xio = "('x \<times> rng, 'a) io"

definition os :: "('x \<Rightarrow> 'a \<times> 'x) \<Rightarrow> ('x, 'a) xio" where
  "os f = (\<lambda>(x, g). case f x of (r, x') \<Rightarrow> Inr (r, (x', g)))"

definition draw :: "(rng, 'a) io \<Rightarrow> ('x, 'a) xio" where
  "draw m = (\<lambda>(x, g). case m g of Inl f \<Rightarrow> Inl f | Inr (r, g') \<Rightarrow> Inr (r, (x, g')))"

definition must :: "fault option \<Rightarrow> ('s, unit) io" where
  "must r = (case r of None \<Rightarrow> ret () | Some f \<Rightarrow> fail f)"

text \<open>\<open>Read\<close> of a buffer into \<open>m\<close> bytes: the number read, or \<open>io.EOF\<close> at the end.\<close>

definition Buffer_Read :: "nat \<Rightarrow> bytes \<Rightarrow> (int \<times> bytes option) \<times> bytes" where
  "Buffer_Read m rest = (if rest = [] then ((0, if m = 0 then None else Some ''EOF''), [])
     else ((int (min m (length rest)), None), drop m rest))"

text \<open>\<open>%16x\<close>\<close>

fun hex :: "nat \<Rightarrow> string" where
  "hex n = (if n < 16 then [''0123456789abcdef'' ! n] else hex (n div 16) @ [''0123456789abcdef'' ! (n mod 16)])"

declare hex.simps [simp del]

definition fmt_16x :: "int \<Rightarrow> string" where
  "fmt_16x i = (let s = hex (nat i) in replicate (16 - length s) (CHR '' '') @ s)"

section \<open>BenchmarkRead\<close>

definition createFile :: "'x osfile \<Rightarrow> bytes \<Rightarrow> ('x, bytes) xio" where
  "createFile F writeBuf =
     bnd (draw Int63) (\<lambda>r. let filename = ''/tmp/rwbench_'' @ fmt_16x r in
     bnd (os (f_OpenFile F filename)) (\<lambda>(f, err). andthen (must (f_Check F err))
     (bnd (os (f_Write F f writeBuf)) (\<lambda>(_, err). andthen (must (f_Check F err))
     (andthen (os (f_Close F f)) (ret filename))))))"

datatype rmode = modeControl | modeDisk | modeMmap | modeRAM

text \<open>What is read: the memory map, or memory that the file was copied to; its errors are ignored.\<close>

definition load :: "'x osfile \<Rightarrow> rmode \<Rightarrow> nat \<Rightarrow> nat \<Rightarrow> bytes \<Rightarrow> ('x, bytes) xio" where
  "load F mode f n mmap =
     (if mode = modeMmap then bnd (os (f_Mmap F f n)) (\<lambda>(bs, err). andthen (must (f_Check F err)) (ret bs))
      else if mode = modeRAM then os (f_ReadAt F f mmap 0)
      else ret mmap)"

fun disk_loop :: "'x osfile \<Rightarrow> nat \<Rightarrow> nat \<Rightarrow> nat \<Rightarrow> int \<Rightarrow> ('x, int) xio" where
  "disk_loop F f m 0 written = ret written"
| "disk_loop F f m (Suc i) written =
     bnd (os (f_Read F f m)) (\<lambda>(k, err). andthen (must (f_Check F err)) (disk_loop F f m i (written + k)))"

fun buffer_loop :: "'x osfile \<Rightarrow> nat \<Rightarrow> nat \<Rightarrow> bytes \<Rightarrow> int \<Rightarrow> ('x, int) xio" where
  "buffer_loop F m 0 rest written = ret written"
| "buffer_loop F m (Suc i) rest written = (case Buffer_Read m rest of ((k, err), rest') \<Rightarrow>
     andthen (must (f_Check F err)) (buffer_loop F m i rest' (written + k)))"

text \<open>One iteration; the deferred calls come at its end, in reverse order. It returns the variable \<open>mmap\<close>.\<close>

definition read_pass :: "'x osfile \<Rightarrow> rmode \<Rightarrow> nat \<Rightarrow> nat \<Rightarrow> bytes \<Rightarrow> bytes \<Rightarrow> ('x, bytes) xio" where
  "read_pass F mode n m writeBuf mmap =
     bnd (createFile F writeBuf) (\<lambda>filename.
     if mode = modeControl then andthen (os (f_Remove F filename)) (ret mmap)
     else bnd (os (f_OpenFile F filename)) (\<lambda>(f, err). andthen (must (f_Check F err))
       (bnd (load F mode f n mmap) (\<lambda>mmap.
        bnd (if mode = modeDisk then disk_loop F f m (n div m) 0 else buffer_loop F m (n div m) mmap 0) (\<lambda>written.
        andthen (must (f_AssertTruef F (written = int n)))
        (andthen (io_if (mode = modeMmap) (bnd (os (f_Munmap F mmap)) (\<lambda>err. must (f_Check F err))))
        (andthen (os (f_Close F f))
        (andthen (os (f_Remove F filename)) (ret mmap)))))))))"

fun read_passes :: "'x osfile \<Rightarrow> rmode \<Rightarrow> nat \<Rightarrow> nat \<Rightarrow> bytes \<Rightarrow> nat \<Rightarrow> bytes \<Rightarrow> ('x, bytes) xio" where
  "read_passes F mode n m writeBuf 0 mmap = ret mmap"
| "read_passes F mode n m writeBuf (Suc j) mmap =
     bnd (read_pass F mode n m writeBuf mmap) (read_passes F mode n m writeBuf j)"

fun read_sizes :: "'x osfile \<Rightarrow> rmode \<Rightarrow> nat \<Rightarrow> nat \<Rightarrow> nat list \<Rightarrow> bytes \<Rightarrow> ('x, bytes) xio" where
  "read_sizes F mode n bN [] mmap = ret mmap"
| "read_sizes F mode n bN (m # ms) mmap =
     andthen (must (f_AssertTruef F (n mod m = 0)))
     (bnd (read_passes F mode n m (replicate n NUL) bN mmap) (read_sizes F mode n bN ms))"

definition BenchmarkRead :: "'x osfile \<Rightarrow> nat \<Rightarrow> ('x, unit) xio" where
  "BenchmarkRead F bN = (let n = 64 * 2 ^ 20 in
     io_for [modeMmap, modeRAM] (\<lambda>mode.
       andthen (read_sizes F mode n bN [4, 16, 64] (if mode = modeRAM then replicate n NUL else [])) (ret ())))"

section \<open>BenchmarkWrite\<close>

text \<open>\<open>f.Name()\<close> is evaluated at its \<open>defer\<close>, before the error of \<open>TempFile\<close> is checked.\<close>

definition BenchmarkWrite :: "'x osfile \<Rightarrow> nat \<Rightarrow> ('x, unit) xio" where
  "BenchmarkWrite F bN =
     bnd (os (f_TempFile F ''/tmp/ramdisk'' ''table_'')) (\<lambda>(f, err). case f of
       None \<Rightarrow> fail NilDeref
     | Some f \<Rightarrow> andthen (must (f_Check F err))
         (andthen (os (f_Write F f (replicate (bN * 1000) NUL)))
         (andthen (os (f_Remove F (f_Name F f)))
         (andthen (os (f_Close F f)) (ret ())))))"

section \<open>Every byte is read\<close>

text \<open>
  A check passes exactly without an error; a memory map has the length that was asked for, \<open>ReadAt\<close>
  keeps the length of its buffer, and a failed \<open>TempFile\<close> returns nil.
\<close>

definition osfile_law :: "'x osfile \<Rightarrow> bool" where
  "osfile_law F \<longleftrightarrow> f_Check F None = None \<and> (\<forall>e. f_Check F (Some e) \<noteq> None) \<and> f_AssertTruef F True = None \<and>
     (\<forall>f n x bs x'. f_Mmap F f n x = ((bs, None), x') \<longrightarrow> length bs = n) \<and>
     (\<forall>f buf off x buf' x'. f_ReadAt F f buf off x = (buf', x') \<longrightarrow> length buf' = length buf) \<and>
     (\<forall>dir pre x f err x'. f_TempFile F dir pre x = ((f, err), x') \<longrightarrow> (f = None) = (err \<noteq> None))"

definition checked :: "'x osfile \<Rightarrow> fault \<Rightarrow> bool" where
  "checked F f \<longleftrightarrow> (\<exists>e. f_Check F (Some e) = Some f)"

lemma wpx_os [simp]: "wpx (os f) E Q s = (case f (fst s) of (r, x) \<Rightarrow> Q r (x, snd s))"
  by (cases s) (simp add: os_def wpx_def split: prod.splits)

lemma wpx_draw_Int63 [simp]:
  "wpx (draw Int63) E Q s = Q (int (rg_src (snd s) (rg_pos (snd s)) mod 2 ^ 63)) (fst s, (snd s)\<lparr>rg_pos := Suc (rg_pos (snd s))\<rparr>)"
  by (cases s) (simp add: draw_def Int63_def wpx_def)

locale file_api =
  fixes F :: "'x osfile"
  assumes law: "osfile_law F"
begin

lemma wpx_must_Check: "wpx (must (f_Check F err)) (checked F) Q s = (err = None \<longrightarrow> Q () s)"
proof (cases err)
  case None
  then show ?thesis using law by (simp add: osfile_law_def must_def)
next
  case (Some e)
  have "f_Check F (Some e) \<noteq> None" using law by (simp add: osfile_law_def)
  then show ?thesis using Some by (auto simp: must_def checked_def)
qed

lemma wpx_must_Assert: "wpx (must (f_AssertTruef F True)) E Q s = Q () s"
  using law by (simp add: osfile_law_def must_def)

lemma wpx_buffer_loop:
  "length rest = i * m \<Longrightarrow> 0 < m \<Longrightarrow> wpx (buffer_loop F m i rest w) (checked F) (\<lambda>r _. r = w + int (i * m)) s"
proof (induction i arbitrary: rest w)
  case (Suc i)
  then have "rest \<noteq> []" "m \<le> length rest" "length (drop m rest) = i * m" by auto
  with Suc show ?case
    by (auto simp: Buffer_Read_def wpx_must_Check min_def intro!: wpx_mono [OF Suc.IH])
qed simp

lemma wpx_createFile: "wpx (createFile F buf) (checked F) (\<lambda>_ _. True) s"
  by (auto simp: createFile_def Let_def wpx_must_Check split: prod.splits)

lemma wpx_load:
  assumes "mode = modeMmap \<or> mode = modeRAM \<and> length mmap = n"
  shows "wpx (load F mode f n mmap) (checked F) (\<lambda>bs _. length bs = n) s"
proof -
  have "f_Mmap F f n x = ((bs, None), x') \<Longrightarrow> length bs = n" "f_ReadAt F f buf off x = (buf', x') \<Longrightarrow> length buf' = length buf"
    for f n x bs x' buf off buf'
    using law unfolding osfile_law_def by blast+
  with assms show ?thesis by (auto simp: load_def wpx_must_Check split: prod.splits)
qed

lemma wpx_read_pass:
  assumes "mode = modeMmap \<or> mode = modeRAM \<and> length mmap = n" "m dvd n" "0 < m"
  shows "wpx (read_pass F mode n m buf mmap) (checked F) (\<lambda>bs _. length bs = n) s"
proof -
  have loop: "wpx (buffer_loop F m (n div m) bs 0) (checked F) (\<lambda>r _. r = int n) s'" if "length bs = n" for bs s'
    by (rule wpx_mono [OF wpx_buffer_loop]) (use that assms(2,3) in auto)
  have mode: "mode \<noteq> modeControl" "mode \<noteq> modeDisk" using assms(1) by auto
  have rest: "wpx (bnd (buffer_loop F m (n div m) bs 0) (\<lambda>written. andthen (must (f_AssertTruef F (written = int n)))
      (andthen (io_if (mode = modeMmap) (bnd (os (f_Munmap F bs)) (\<lambda>err. must (f_Check F err))))
      (andthen (os (f_Close F f)) (andthen (os (f_Remove F name)) (ret bs)))))) (checked F) (\<lambda>bs _. length bs = n) s'"
    if "length bs = n" for bs f name s'
    by (rule wpx_seq [OF loop [OF that]])
      (use that in \<open>auto simp: wpx_must_Assert wpx_must_Check io_if_def split: prod.splits\<close>)
  show ?thesis
    unfolding read_pass_def
    by (rule wpx_seq [OF wpx_createFile])
      (use mode rest in \<open>auto simp: wpx_must_Check split: prod.splits intro!: wpx_mono [OF wpx_load [OF assms(1)]]\<close>)
qed

lemma wpx_read_passes:
  assumes "mode = modeMmap \<or> mode = modeRAM \<and> length mmap = n" "m dvd n" "0 < m"
  shows "wpx (read_passes F mode n m buf j mmap) (checked F) (\<lambda>bs _. mode = modeMmap \<or> mode = modeRAM \<and> length bs = n) s"
  using assms(1)
proof (induction j arbitrary: mmap s)
  case (Suc j)
  show ?case unfolding read_passes.simps
    by (rule wpx_seq [OF wpx_read_pass [OF Suc.prems assms(2,3)]]) (rule Suc.IH, use Suc.prems in auto)
qed simp

lemma wpx_read_sizes:
  assumes "mode = modeMmap \<or> mode = modeRAM \<and> length mmap = n" "\<forall>m \<in> set ms. m dvd n \<and> 0 < m"
  shows "wpx (read_sizes F mode n bN ms mmap) (checked F) (\<lambda>_ _. True) s"
  using assms
proof (induction ms arbitrary: mmap s)
  case (Cons m ms)
  then have m: "m dvd n" "0 < m" "(n mod m = 0) = True" by auto
  show ?case unfolding read_sizes.simps m(3)
    by (subst wpx_bnd, subst wpx_must_Assert, rule wpx_seq [OF wpx_read_passes [OF Cons.prems(1) m(1,2)]])
      (rule Cons.IH, use Cons.prems(2) in auto)
qed simp

lemma wpx_BenchmarkRead: "wpx (BenchmarkRead F bN) (checked F) (\<lambda>_ _. True) s"
proof -
  have "\<forall>m \<in> set [4, 16, 64]. m dvd (64 * 2 ^ 20 :: nat) \<and> 0 < m" by simp
  note sizes = wpx_read_sizes [OF _ this, where bN = bN]
  have len: "length (replicate (64 * 2 ^ 20) NUL) = 64 * 2 ^ 20" by (rule length_replicate)
  show ?thesis
    unfolding BenchmarkRead_def Let_def io_for.simps bnd_assoc
    by (rule wpx_seq [OF sizes], simp, subst wpx_bnd, subst wpx_ret, rule wpx_seq [OF sizes],
        use len in \<open>simp only: rmode.distinct refl if_True simp_thms\<close>, simp)
qed

end

text \<open>Files that are always made, except temporary ones without a RAM disk.\<close>

definition ref_osfile :: "bool osfile" where
  "ref_osfile = \<lparr>f_Check = (\<lambda>err. map_option Fatal err), f_AssertTruef = (\<lambda>b. if b then None else Some (Fatal ''assert'')),
     f_OpenFile = (\<lambda>name x. ((3, None), x)),
     f_TempFile = (\<lambda>dir pre x. (if x then (Some 4, None) else (None, Some ''no such directory''), x)),
     f_Write = (\<lambda>f buf x. ((int (length buf), None), x)), f_Read = (\<lambda>f m x. ((int m, None), x)),
     f_ReadAt = (\<lambda>f buf off x. (buf, x)), f_Mmap = (\<lambda>f n x. ((replicate n NUL, None), x)),
     f_Munmap = (\<lambda>bs x. (None, x)), f_Close = (\<lambda>f x. (None, x)), f_Remove = (\<lambda>name x. (None, x)), f_Name = (\<lambda>f. ''table_4'')\<rparr>"

lemma ref_osfile_law: "osfile_law ref_osfile"
  by (auto simp: osfile_law_def ref_osfile_def split: if_splits)

interpretation ref_files: file_api ref_osfile
  by unfold_locales (rule ref_osfile_law)

section \<open>Properties\<close>

text \<open>
  C25. The benchmarks of \<^verbatim>\<open>extra\<close>: that of reads ends only at a failed check, since in every mode and
  size it runs, the pieces add up to the whole file and its assertions hold; that of writes
  returns exactly if the temporary file could be made, and ends in a nil dereference otherwise,
  never at the check that follows.
\<close>

theorem extra_benchmarks:
  assumes "osfile_law F"
  shows "wpx (BenchmarkRead F bN) (checked F) (\<lambda>_ _. True) s \<and>
    wpx (BenchmarkWrite F bN)
      (\<lambda>f. f = NilDeref \<and> snd (fst (f_TempFile F ''/tmp/ramdisk'' ''table_'' (fst s))) \<noteq> None)
      (\<lambda>_ _. snd (fst (f_TempFile F ''/tmp/ramdisk'' ''table_'' (fst s))) = None) s"
proof
  have F: "file_api F" using assms by (rule file_api.intro)
  then show "wpx (BenchmarkRead F bN) (checked F) (\<lambda>_ _. True) s" by (rule file_api.wpx_BenchmarkRead)
  obtain f err x where t: "f_TempFile F ''/tmp/ramdisk'' ''table_'' (fst s) = ((f, err), x)" by (metis prod.exhaust)
  then have "(f = None) = (err \<noteq> None)" using assms unfolding osfile_law_def by blast
  then show "wpx (BenchmarkWrite F bN)
      (\<lambda>f. f = NilDeref \<and> snd (fst (f_TempFile F ''/tmp/ramdisk'' ''table_'' (fst s))) \<noteq> None)
      (\<lambda>_ _. snd (fst (f_TempFile F ''/tmp/ramdisk'' ''table_'' (fst s))) = None) s"
    using t assms by (cases f) (auto simp: BenchmarkWrite_def must_def osfile_law_def split: prod.splits)
qed

theorem extra_benchmarks_witness:
  "\<exists>g :: rng. wpx (BenchmarkRead ref_osfile 2) (checked ref_osfile) (\<lambda>_ _. True) (False, g) \<and>
    BenchmarkWrite ref_osfile 2 (False, g) = Inl NilDeref"
proof -
  have w: "wpx (BenchmarkWrite ref_osfile 2) (\<lambda>f. f = NilDeref) (\<lambda>_ _. False) (False, g)" for g
    by (rule wpx_weaken [OF extra_benchmarks [OF ref_osfile_law, THEN conjunct2]]) (simp_all add: ref_osfile_def)
  have "BenchmarkWrite ref_osfile 2 (False, g) = Inl NilDeref" for g
    using w [of g] by (auto simp: wpx_def split: sum.splits)
  then show ?thesis using extra_benchmarks [OF ref_osfile_law, THEN conjunct1] by blast
qed

end
