(* ===== verification/Spec2Isabelle.thy ===== *)
theory Spec2Isabelle
  imports RdbProps ClientSafety PopulateStores RwBench RandConc Report CursorBench LmdbBatch Progress StoreTest ExtraBench
begin

text \<open>
  \<^bold>\<open>badger-bench.\<close> The repository compares key-value stores. Package \<^verbatim>\<open>rdb\<close> binds Go to RocksDB
  through cgo and a C shim; package \<^verbatim>\<open>store\<close> wraps one database of \<^verbatim>\<open>rdb\<close>; the commands
  \<^verbatim>\<open>populate\<close>, \<^verbatim>\<open>rw-bench\<close> and \<^verbatim>\<open>randread\<close> load, scan and read. A call of a command runs down
  through \<^verbatim>\<open>store\<close>, \<^verbatim>\<open>rdb\<close>, the shim and RocksDB, and memory allocated on either side of
  the C boundary has to be freed by somebody. The model keeps this layering: a definition
  of an upper theory calls the definitions of the lower one the way the source does.

  \<^bold>\<open>Effects.\<close> A computation is a function from a state to a fault or a result with a new state
  (\<open>io\<close> in \<open>Prelude\<close>). A fault is what ends the Go program or is undefined in C: a panic,
  a failed check that exits, a nil dereference, a use of freed memory, a division by zero, and
  fuel that ran out. \<open>wp m Q s\<close> says that \<open>m\<close> returns without a fault and its result meets
  \<open>Q\<close>; \<open>wpx m F Q s\<close> also allows the faults in \<open>F\<close>. So every property in terms of \<open>wp\<close>
  includes that the code returns. A Go error is a value: \<open>bytes option\<close>, or a sum where it
  comes with a result.

  \<^bold>\<open>Parameters.\<close> Code outside the repository is an argument. RocksDB is the record
  \<open>rocksdb\<close> (\<open>Rdbc\<close>) over an abstract engine state; badger, goleveldb, bolt, lmdb and the
  file system are the record of libraries of \<open>Populate\<close>; reads, cursors, badger's iterator, the
  histogram and the asynchronous reader are records in \<open>ReadBench\<close>, \<open>CursorBench\<close>, \<open>RwBench\<close>,
  \<open>RandRead\<close> and \<open>RandConc\<close>. What the code relies on of them are named laws: the locales of
  \<open>RocksSpec\<close> and \<open>CursorBench\<close>, \<open>y_law\<close>, \<open>assert_law\<close>, \<open>disk_law\<close>, \<open>fs_law\<close>,
  \<open>badger_iter_law\<close>, \<open>hist_law\<close> and \<open>aio_law\<close>. Each is met by an executable
  reference instance, on which the witnesses run.

  \<^bold>\<open>Theories.\<close>
  \<^item> \<open>Prelude\<close>: bytes, faults, the state and error computations, the rules of \<open>wp\<close>.
  \<^item> \<open>Cgo\<close>: the C heap; \<^verbatim>\<open>rdb/util.go\<close> and \<^verbatim>\<open>rdb/slice.go\<close>. The locale \<open>c_allocator\<close> is
    the contract of allocation, interpreted for malloc and free and for new and delete.
  \<^item> \<open>Rdbc\<close>: \<^verbatim>\<open>rdb/rdbc.cc\<close>, one definition per entry point.
  \<^item> \<open>Rdb_Options\<close>: \<^verbatim>\<open>options.go\<close>, \<^verbatim>\<open>options_read.go\<close>, \<^verbatim>\<open>options_write.go\<close>,
    \<^verbatim>\<open>options_block_based_table.go\<close>, \<^verbatim>\<open>cache.go\<close>, \<^verbatim>\<open>filter_policy.go\<close> with the callbacks.
  \<^item> \<open>Rdb_Db\<close>: \<^verbatim>\<open>db.go\<close>, \<^verbatim>\<open>write_batch.go\<close>, \<^verbatim>\<open>snapshot.go\<close>, \<^verbatim>\<open>checkpoint.go\<close>, \<^verbatim>\<open>iterator.go\<close>.
  \<^item> \<open>Store\<close>: \<^verbatim>\<open>store/store.go\<close>. \<open>RdbProps\<close>: properties of the binding for every engine.
  \<^item> \<open>RocksSpec\<close>: the laws of RocksDB (locales \<open>rocks_kv\<close>, \<open>rocks_snap\<close>, \<open>rocks_iter\<close>,
    \<open>rocks_dir\<close>) and the reference engine that interprets them.
  \<^item> \<open>StoreSpec\<close>: the contract of a store, a finite map with errors (locale \<open>kv_client\<close>), and that
    an open store implements it (locale \<open>open_store\<close>, a sublocale of \<open>kv_client\<close>); snapshots,
    checkpoints, reopening. \<open>IterSpec\<close>: iterators and prefix scans. \<open>ClientSafety\<close>: programs
    that call a store and its handles in any order, typed handles, and the locale \<open>client_store\<close>
    with the invariant that every call keeps.
  \<^item> \<open>GoFmt\<close>, \<open>Float64\<close>, \<open>Rand\<close>: what the commands use of fmt, strconv, float64, math/rand.
    \<open>GoProfile\<close>: the profiles a flag may start.
  \<^item> \<open>Entry\<close>: keys and values; both functions \<open>fillEntry\<close>, and \<open>newKey\<close> and \<open>safecopy\<close> of
    \<^verbatim>\<open>bench_test.go\<close>. The locale \<open>buffer_fill\<close> is the contract of a routine that refills a buffer.
  \<^item> \<open>Populate\<close>: \<^verbatim>\<open>populate/main.go\<close>, batches on the five stores, opening and closing; the
    locale \<open>batch_store\<close> is what a batch needs of a store, with an interpretation for each.
    \<open>PopulateRun\<close>: the 32 workers as the step relation \<open>pstep\<close>, the locale \<open>batch_writer\<close>
    for the counting argument, \<open>populate_main\<close>, the run of a given schedule, and \<open>populate_program\<close>,
    the process with its profile and its HTTP server.
    \<open>PopulateSpec\<close>: the contents of the database during a run on RocksDB; \<open>PopulateStores\<close>: on
    the other stores. \<open>Report\<close>: printed counts.
    \<open>Progress\<close>: the goroutine that prints a line every second, interleaved with the workers.
  \<^item> \<open>RwBench\<close>: \<^verbatim>\<open>rw-bench/bench.go\<close>. \<open>RandRead\<close>: \<^verbatim>\<open>randread/main.go\<close>, files,
    offsets and the serial loop. \<open>GoPool\<close>: goroutines that run until \<open>done\<close> is set, as the step
    relation \<open>pool_step\<close>; the locale \<open>done_pool\<close> is the contract of such a goroutine, its invariant
    and the steps it has left, and its lemmas say that a run ends. \<open>RandConc\<close>: \<open>Conc2\<close> and \<open>ConcAio\<close>;
    the locales \<open>conc2_run\<close> and \<open>conc_aio_run\<close> are sublocales of \<open>done_pool\<close>, interpreted on two
    files.
  \<^item> \<open>RunParallel\<close>: \<open>hitCounter\<close> and \<open>runRandomReadBenchmark\<close> of \<^verbatim>\<open>bench_test.go\<close>, the goroutines as
    the step relation \<open>rstep\<close>; the locale \<open>read_loop\<close> is the contract of a loop body, and its
    lemmas count the reads. \<open>ReadBench\<close>: the random-read benchmarks of the five stores; the
    interpretation \<open>reading\<close> of \<open>read_loop\<close> serves all of them, and the locale \<open>rocks_reads\<close>,
    a sublocale of it interpreted on the reference engine, follows the contents of RocksDB.
    \<open>StoreTest\<close>: the tests and benchmarks of \<^verbatim>\<open>store/store_test.go\<close>; the locales \<open>tested\<close>,
    \<open>tested_dir\<close> and \<open>tested_snap\<close> join the laws of the engine with those of the test library.
    \<open>IterBench\<close>: \<open>BenchmarkIterateRocks\<close>. \<open>CursorBench\<close>: the iteration benchmarks on bolt, lmdb and
    badger over one loop \<open>cursor_for\<close>; the locale \<open>cursor\<close> is the contract of a fetch, extended by
    \<open>bolt_scan\<close>, \<open>lmdb_scan\<close> and \<open>badger_scan\<close>, each interpreted on reference cursors. \<open>LmdbBatch\<close>:
    \<^verbatim>\<open>populate/lmdb_txn_bench_test.go\<close>. \<open>ExtraBench\<close>: \<^verbatim>\<open>extra/read_test.go\<close> and \<^verbatim>\<open>extra/write_test.go\<close>,
    on the laws of files in the locale \<open>file_api\<close>.

  \<^bold>\<open>State.\<close> The record \<open>world\<close> of the binding holds the C heap, the Go objects shared by
  pointer, the registry of filter policies and the engine's state; \<open>pstate\<close> of the commands
  adds the generator and the state of the other stores. Go structs are records; those that are
  changed through a pointer live in the Go heap of the world.

  \<^bold>\<open>What is shown.\<close>
  \<^item> A store is a map: every sequence of Get, SetOne, Delete and WriteBatch has the outcomes of a
    map, with errors where the engine reports them, and leaves no C memory behind. A snapshot
    keeps its view, a checkpoint holds the contents at its time, a closed store reopens with them.
  \<^item> An iterator over a prefix returns the keys of that prefix in order, and the scans of
    \<^verbatim>\<open>rw-bench\<close> end and count every key once.
  \<^item> populate: in every interleaving the run ends, the counter is at least the requested number
    and exceeds it by less than a batch per worker, only keys of the requested range are
    written, and what was written is in the directory after the close.
  \<^item> Keys sort by their numbers; entries are filled as asked; batches arrive complete in each of
    the five stores or the process ends.
  \<^item> randread counts the reads it makes and reads only inside files that are large enough. In any
    interleaving of goroutines, watcher and timer, Conc2 records every read once and ends a
    bounded number of steps after \<open>done\<close>, and ConcAio returns only when every request has been collected.
  \<^item> The random-read benchmarks make exactly \<open>b.N\<close> reads in every interleaving and count each
    once; on RocksDB the counts are those of the contents of the directory. The iteration
    benchmarks end and count the keys up to their limit. Batches of lmdb have the same effect
    in a nested transaction and without one. Progress lines are numbered and never go down.
  \<^item> The tests of the store can only fail because a call reports an error, and what its benchmarks
    report and leak. The read benchmark of \<^verbatim>\<open>extra\<close> reads every byte of its file.
  \<^item> No sequence of calls of a client that does not use closed handles touches freed memory or
    memory of another type, on any engine, and what stays allocated is counted. Using a
    store after Close does.
  \<^item> Across the C boundary: values, filters, errors and properties arrive unchanged, and who
    frees what. Some of these properties state defects, such as a filter policy that never takes
    effect, leaked checkpoint objects and a nil dereference instead of an error.

  \<^bold>\<open>Bounds and fuel.\<close> Rejection sampling of math/rand has no bound: the model takes \<open>fuel\<close>
  draws, and the hypothesis \<open>fair\<close> says that among any \<open>fuel\<close> consecutive draws one is in the
  lower half, which is always accepted. Scans take \<open>fuel\<close> rounds, and more rounds than keys are
  enough. Floats are rationals rounded to 53 bits without a bound on the exponent; the
  hypothesis that at most $2^{57}$ keys are requested keeps the counters exact. Integers
  have their width where the source converts or may overflow.

  The benchmarks take \<open>b.N\<close>, the number of goroutines and the grain in which they
  claim iterations as parameters, since the testing framework chooses them.

  \<^bold>\<open>Not modelled.\<close> The parsing of flags, whose values are arguments of the models; clocks, and the
  printed lines other than the progress lines and the format of counts: they only observe. The
  rate in a progress line comes from a third-party counter and is arbitrary. \<open>TestMain\<close>, which
  starts the test framework; \<^verbatim>\<open>bench.go\<close>, which prints a line; \<^verbatim>\<open>dynflag.go\<close> and
  \<^verbatim>\<open>embedflag.go\<close>, which hold compiler flags. A batch of populate and a lookup of a benchmark are one
  atomic step, since the stores order concurrent calls themselves. So is \<open>RecordValue\<close>, which
  Conc2 calls without a lock: what a race inside it could do is outside the model.
\<close>

section \<open>Whole runs of populate on RocksDB\<close>

text \<open>\<open>main\<close> on RocksDB, from opening to closing.\<close>

lemma main_rocks:
  fixes st :: "('b, 'f, 'e, 'x) pstate"
  assumes "rocks_dir R \<alpha> bops" and "y_law L" and "disk_law L \<alpha>" and "c_ok (ps_world st)"
    and "a_it (\<alpha> (eng (ps_world st))) = Map.empty"
    and "trunc (nw_of numKeys) = n" and "0 < n" and "nw_of numKeys \<le> 2 ^ 57"
    and "populate_main L R ''rocksdb'' dir numKeys (int v) sched st = Some res"
  shows "case res of Inl f \<Rightarrow> check_fault L f
    | Inr (counter, st') \<Rightarrow>
        (\<exists>T. counter = of_nat T \<and> nw_of numKeys \<le> of_nat T \<and> of_nat T < nw_of numKeys + 32000) \<and>
        (\<exists>m0. (removed L (dir @ ''/rocks'') st \<longrightarrow> m0 = Map.empty) \<and>
          grown (int v) n m0 (disk_contents (\<alpha> (eng (ps_world st'))) (cstr (dir @ ''/rocks''))))"
proof (cases "open_rocks L R dir st")
  case (Inl f)
  then show ?thesis
    using wpx_open_rocks [OF assms(1,3,2,4,5), of dir] assms(9)
    by (auto simp: wpx_def populate_main_def open_store_for_def)
next
  case (Inr r)
  obtain g st1 where open1: "open_rocks L R dir st = Inr (g, st1)"
    using Inr by (cases r) auto
  let ?p = "dir @ ''/rocks''"
  have "rocks_open \<alpha> (cstr ?p) (removed L ?p st) g (ps_world st1)"
    using wpx_open_rocks [OF assms(1,3,2,4,5), of dir] open1 by (simp add: wpx_def)
  then obtain s d ro wo db where o: "c_ok (ps_world st1)" "a_it (\<alpha> (eng (ps_world st1))) = Map.empty"
      "g = no_dbs\<lparr>g_rdb := Some s\<rparr>" "store_live (ps_world st1) s d ro wo"
      "a_db (\<alpha> (eng (ps_world st1))) d = Some db" "ad_rw db" "ad_name db = cstr ?p"
      "removed L ?p st \<longrightarrow> ad_kv db = Map.empty"
    by (auto simp: rocks_open_def)
  have kv: "rocks_kv R \<alpha> bops" using assms(1) by (rule rocks_dir.axioms)
  have "open_store_for L R ''rocksdb'' dir st = Inr (g, st1)" using open1 by (simp add: open_store_for_def)
  from this assms(9) show ?thesis
  proof (cases rule: populate_main_cases)
    case (exits f)
    then show ?thesis
      using run_loaded [OF kv assms(2) o(1,4,5) assms(6) [unfolded nw_of_def] assms(7) exits(1) [unfolded o(3)]]
      by (simp add: rejected_def)
  next
    case (closes m)
    note inv = run_loaded [OF kv assms(2) o(1,4,5) assms(6) [unfolded nw_of_def] assms(7) closes(1) [unfolded o(3)]]
    have "wpx (close_stores L R g) (\<lambda>_. False) (\<lambda>_ st'.
        \<exists>m. disk_contents (\<alpha> (eng (ps_world st'))) (ad_name db) = m \<and> grown (int v) n (ad_kv db) m) (pm_st m)"
      unfolding o(3) by (rule loaded_close [OF assms(1) o(4,5,6,2)]) (use inv in simp)
    then show ?thesis
      using final_total [OF nw_of_nonneg [OF assms(6,7)] assms(8) closes(1,2)] closes(3) o(7,8)
      by (auto simp: wpx_def split: sum.splits)
  qed
qed



text \<open>
  C4. populate on RocksDB, from \<open>main\<close> down to the shim: in every state that the workers can
  reach, in any interleaving, memory is what it was when they started (every batch and C string
  freed), the database is open, no key has been lost, and every new or overwritten key is that
  of a number below the requested number of keys with a value of the requested size. The
  process exits early only if the engine rejects a batch.
\<close>

theorem populate_rocks_contents:
  fixes st :: "('b, 'f, 'e, 'x) pstate"
  assumes "rocks_kv R \<alpha> bops" and "y_law L" and "c_ok (ps_world st)"
    and "store_live (ps_world st) s d ro wo" and "a_db (\<alpha> (eng (ps_world st))) d = Some db"
    and "trunc (f64 (numKeys * 1000000)) = n" and "0 < n"
    and "(pstep (writeBatch L R (no_dbs\<lparr>g_rdb := Some s\<rparr>) numKeys (int v)) limit)\<^sup>*\<^sup>*
      (Running (start_main N B v st)) c"
  shows "case c of Exited f \<Rightarrow> rejected L R \<alpha> db f
    | Running m \<Rightarrow> loaded \<alpha> (int v) n d db (ps_world st) (ps_world (pm_st m))"
  using run_loaded [OF assms] by (auto split: pconf.splits)

theorem populate_rocks_contents_witness:
  "\<exists>c. worker_step (writeBatch ref_libs ref_rocksdb (no_dbs\<lparr>g_rdb := Some store_one\<rparr>) (1 / 1000000) 4) 1 0
      (start_main 2 3 4 state_one) = Some c \<and>
    (case c of Exited f \<Rightarrow> False
     | Running m \<Rightarrow> loaded ref_abs 4 1 1 \<lparr>ad_name = ''db'', ad_rw = True, ad_kv = [''k'' \<mapsto> ''neo'']\<rparr>
        (world_open True) (ps_world (pm_st m)))"
proof -
  let ?wb = "writeBatch ref_libs ref_rocksdb (no_dbs\<lparr>g_rdb := Some store_one\<rparr>) (1 / 1000000) (int 4)"
  obtain c where c: "worker_step ?wb 1 0 (start_main 2 3 4 state_one) = Some c"
    by (cases "?wb (replicate 3 (new_entry 4)) state_one")
      (auto simp: worker_step_def start_main_def start_workers_def Let_def)
  then have "(pstep ?wb 1)\<^sup>*\<^sup>* (Running (start_main 2 3 4 state_one)) c"
    by (blast intro: pstep.move)
  from populate_rocks_contents [OF ref.rocks_kv_axioms ref_laws(1) state_one_facts one_key zero_less_one this] c
  show ?thesis by (auto simp: state_one_def rejected_def ref_accepts split: pconf.splits)
qed

text \<open>
  C5. Completion: if the engine accepts writes to a writable database, a run of the workers on an
  open store never exits, and from every state it can reach it can go on to the state in which
  the wait group is at zero and \<open>main\<close> closes the store. With the bound on the number of steps,
  every run ends there.
\<close>

theorem populate_completes:
  fixes st :: "('b, 'f, 'e, 'x) pstate"
  assumes "rocks_kv R \<alpha> bops" and "y_law L" and "c_ok (ps_world st)"
    and "store_live (ps_world st) s d ro wo" and "a_db (\<alpha> (eng (ps_world st))) d = Some db"
    and "trunc (nw_of numKeys) = n" and "0 < n" and "nw_of numKeys \<le> 2 ^ 57"
    and "ad_rw db" and "accepts R \<alpha>"
    and "(pstep (writeBatch L R (no_dbs\<lparr>g_rdb := Some s\<rparr>) numKeys (int v)) (worker_limit (nw_of numKeys) 32))\<^sup>*\<^sup>*
      (Running (start_main 32 1000 v st)) c"
  shows "\<exists>m. c = Running m \<and>
    (\<exists>m'. (pstep (writeBatch L R (no_dbs\<lparr>g_rdb := Some s\<rparr>) numKeys (int v)) (worker_limit (nw_of numKeys) 32))\<^sup>*\<^sup>*
      (Running m) (Running m') \<and> pm_wg m' = 0)"
proof -
  have "worker_limit (nw_of numKeys) 32 \<le> 2 ^ 52" using assms(8) by (simp add: worker_limit_32)
  from run_completes [OF assms(1-5) assms(6) [unfolded nw_of_def] assms(7,9,10) _ _ this assms(11)]
  show ?thesis by simp
qed

theorem populate_completes_witness:
  "\<exists>m'. (pstep (writeBatch ref_libs ref_rocksdb (no_dbs\<lparr>g_rdb := Some store_one\<rparr>) (1 / 1000000) (int 4))
      (worker_limit (nw_of (1 / 1000000)) 32))\<^sup>*\<^sup>*
      (Running (start_main 32 1000 4 state_one)) (Running m') \<and> pm_wg m' = 0"
proof -
  have n: "trunc (nw_of (1 / 1000000)) = 1" "nw_of (1 / 1000000) \<le> 2 ^ 57"
    by (simp_all add: nw_of_one trunc_def)
  show ?thesis
    using populate_completes [where v = 4, OF ref.rocks_kv_axioms ref_laws(1) state_one_facts n(1) zero_less_one n(2) _
        ref_accepts rtranclp.rtrancl_refl]
    by simp
qed

end
